(* ===== verification/Rust_Std.thy ===== *)
theory Rust_Std
  imports Prelude "HOL-Library.Word"
begin

text \<open>
  The part of the Rust standard library the modelled code calls: searching and slicing
  strings by byte offset, the \<open>char\<close>s of a UTF-8 string, parsing of integers
  (\<open>from_str\<close>, which accepts a leading plus sign), the parser of \<open>Ipv6Addr\<close> with its
  embedded IPv4 suffix, and the narrowing casts \<open>as u8\<close> and \<open>as i64\<close>.
  The Unicode table behind \<open>char::is_alphanumeric\<close> for code points beyond ASCII is a
  parameter of the functions that consult it.
\<close>

section \<open>Byte strings\<close>

fun str_find :: "char \<Rightarrow> string \<Rightarrow> nat option" where
  "str_find c [] = None"
| "str_find c (x # xs) = (if x = c then Some 0 else map_option Suc (str_find c xs))"

fun strip_prefix :: "string \<Rightarrow> string \<Rightarrow> string option" where
  "strip_prefix [] s = Some s"
| "strip_prefix (p # ps) [] = None"
| "strip_prefix (p # ps) (x # xs) = (if p = x then strip_prefix ps xs else None)"

definition starts_with :: "char \<Rightarrow> string \<Rightarrow> bool" where
  "starts_with c s = (case s of [] \<Rightarrow> False | x # _ \<Rightarrow> x = c)"

definition byte :: "char \<Rightarrow> nat" where
  "byte c = of_char c"

definition is_ascii_digit :: "char \<Rightarrow> bool" where
  "is_ascii_digit c \<longleftrightarrow> 48 \<le> byte c \<and> byte c \<le> 57"

definition is_ascii_lower :: "char \<Rightarrow> bool" where
  "is_ascii_lower c \<longleftrightarrow> 97 \<le> byte c \<and> byte c \<le> 122"

definition is_ascii_upper :: "char \<Rightarrow> bool" where
  "is_ascii_upper c \<longleftrightarrow> 65 \<le> byte c \<and> byte c \<le> 90"

definition is_ascii_alphanumeric :: "char \<Rightarrow> bool" where
  "is_ascii_alphanumeric c \<longleftrightarrow> is_ascii_digit c \<or> is_ascii_lower c \<or> is_ascii_upper c"

text \<open>A byte offset is a character boundary when it is the end of the string or the byte
  there does not continue a character; slicing elsewhere panics.\<close>

definition is_char_boundary :: "string \<Rightarrow> nat \<Rightarrow> bool" where
  "is_char_boundary s i \<longleftrightarrow>
     i = 0 \<or> i = length s \<or> (i < length s \<and> \<not> (128 \<le> byte (s ! i) \<and> byte (s ! i) < 192))"

section \<open>Characters\<close>

fun utf8_chars :: "string \<Rightarrow> nat list" where
  "utf8_chars [] = []"
| "utf8_chars (a # s) =
     (if byte a < 128 then byte a # utf8_chars s
      else case s of
        [] \<Rightarrow> [65533]
      | b # s1 \<Rightarrow>
          (if byte a < 224 then ((byte a mod 32) * 64 + byte b mod 64) # utf8_chars s1
           else case s1 of
             [] \<Rightarrow> [65533]
           | c # s2 \<Rightarrow>
               (if byte a < 240
                then ((byte a mod 16) * 4096 + (byte b mod 64) * 64 + byte c mod 64) # utf8_chars s2
                else case s2 of
                  [] \<Rightarrow> [65533]
                | d # s3 \<Rightarrow>
                    ((byte a mod 8) * 262144 + (byte b mod 64) * 4096
                       + (byte c mod 64) * 64 + byte d mod 64) # utf8_chars s3)))"

definition ascii_alnum_code :: "nat \<Rightarrow> bool" where
  "ascii_alnum_code n \<longleftrightarrow> (48 \<le> n \<and> n \<le> 57) \<or> (65 \<le> n \<and> n \<le> 90) \<or> (97 \<le> n \<and> n \<le> 122)"

definition is_alphanumeric :: "(nat \<Rightarrow> bool) \<Rightarrow> nat \<Rightarrow> bool" where
  "is_alphanumeric uni n = (if n < 128 then ascii_alnum_code n else uni n)"

text \<open>\<open>str::trim\<close> works on the characters; \<open>utf8_pieces\<close> cuts a string into the byte
  sequences of its characters.\<close>

fun utf8_pieces :: "string \<Rightarrow> string list" where
  "utf8_pieces [] = []"
| "utf8_pieces (a # s) =
     (let n = (if byte a < 128 then 0 else if byte a < 224 then 1 else if byte a < 240 then 2 else 3)
      in (a # take n s) # utf8_pieces (drop n s))"

definition is_whitespace :: "nat \<Rightarrow> bool" where
  "is_whitespace n \<longleftrightarrow>
     (9 \<le> n \<and> n \<le> 13) \<or> n = 32 \<or> n = 133 \<or> n = 160 \<or> n = 5760 \<or> (8192 \<le> n \<and> n \<le> 8202)
     \<or> n = 8232 \<or> n = 8233 \<or> n = 8239 \<or> n = 8287 \<or> n = 12288"

definition trim_str :: "string \<Rightarrow> string" where
  "trim_str s =
     (let ws = (\<lambda>p. list_all is_whitespace (utf8_chars p))
      in concat (rev (dropWhile ws (rev (dropWhile ws (utf8_pieces s))))))"

section \<open>Integers\<close>

definition digit_val :: "nat \<Rightarrow> char \<Rightarrow> nat option" where
  "digit_val radix c =
     (let v = (if is_ascii_digit c then Some (byte c - 48)
               else if is_ascii_lower c then Some (byte c - 87)
               else if is_ascii_upper c then Some (byte c - 55)
               else None)
      in case v of None \<Rightarrow> None | Some d \<Rightarrow> if d < radix then Some d else None)"

definition digits_val :: "nat \<Rightarrow> string \<Rightarrow> nat" where
  "digits_val radix s = foldl (\<lambda>n c. n * radix + unwrap_or 0 (digit_val radix c)) 0 s"

definition all_digits :: "nat \<Rightarrow> string \<Rightarrow> bool" where
  "all_digits radix s \<longleftrightarrow> list_all (\<lambda>c. digit_val radix c \<noteq> None) s"

definition parse_unsigned :: "nat \<Rightarrow> string \<Rightarrow> nat option" where
  "parse_unsigned mx s =
     (if s = [] \<or> s = ''+'' \<or> s = ''-'' then None
      else let ds = (if starts_with (CHR ''+'') s then tl s else s)
           in if all_digits 10 ds \<and> digits_val 10 ds \<le> mx then Some (digits_val 10 ds) else None)"

definition u16_max :: nat where "u16_max = 2 ^ 16 - 1"
definition u64_max :: nat where "u64_max = 2 ^ 64 - 1"
definition i64_max :: int where "i64_max = 2 ^ 63 - 1"
definition i64_min :: int where "i64_min = - (2 ^ 63)"

definition parse_i64 :: "string \<Rightarrow> int option" where
  "parse_i64 s =
     (if s = [] \<or> s = ''+'' \<or> s = ''-'' then None
      else let neg = starts_with (CHR ''-'') s;
               ds = (if neg \<or> starts_with (CHR ''+'') s then tl s else s);
               v = (if neg then - int (digits_val 10 ds) else int (digits_val 10 ds))
           in if all_digits 10 ds \<and> i64_min \<le> v \<and> v \<le> i64_max then Some v else None)"

definition as_u8 :: "nat \<Rightarrow> nat" where
  "as_u8 n = unat (of_nat n :: 8 word)"

definition as_i64 :: "nat \<Rightarrow> int" where
  "as_i64 n = sint (of_nat n :: 64 word)"

section \<open>IP addresses\<close>

text \<open>The parser state of \<open>core::net::parser\<close> is the rest of the input; a failed
  sub-parser leaves the state unchanged, which is \<open>None\<close> here.\<close>

definition read_given_char :: "char \<Rightarrow> string \<Rightarrow> string option" where
  "read_given_char c s = (case s of [] \<Rightarrow> None | x # xs \<Rightarrow> if x = c then Some xs else None)"

definition read_number ::
  "nat \<Rightarrow> nat \<Rightarrow> nat \<Rightarrow> bool \<Rightarrow> string \<Rightarrow> (nat \<times> string) option" where
  "read_number radix mx max_digits allow_zero_prefix s =
     (let ds = takeWhile (\<lambda>c. digit_val radix c \<noteq> None) s;
          n = digits_val radix ds
      in if length ds > max_digits \<or> ds = [] then None
         else if \<not> allow_zero_prefix \<and> starts_with (CHR ''0'') s \<and> length ds > 1 then None
         else if n > mx then None
         else Some (n, drop (length ds) s))"

definition read_separator ::
  "char \<Rightarrow> nat \<Rightarrow> (string \<Rightarrow> ('a \<times> string) option) \<Rightarrow> string \<Rightarrow> ('a \<times> string) option" where
  "read_separator sep index inner s =
     (if index > 0
      then (case read_given_char sep s of None \<Rightarrow> None | Some s' \<Rightarrow> inner s')
      else inner s)"

fun read_ipv4_from :: "nat \<Rightarrow> nat \<Rightarrow> string \<Rightarrow> (nat list \<times> string) option" where
  "read_ipv4_from 0 i s = Some ([], s)"
| "read_ipv4_from (Suc k) i s =
     (case read_separator (CHR ''.'') i (read_number 10 255 3 False) s of
        None \<Rightarrow> None
      | Some (n, s') \<Rightarrow>
          (case read_ipv4_from k (Suc i) s' of None \<Rightarrow> None | Some (ns, s'') \<Rightarrow> Some (n # ns, s'')))"

definition read_ipv4_addr :: "string \<Rightarrow> (nat list \<times> string) option" where
  "read_ipv4_addr s = read_ipv4_from 4 0 s"

text \<open>\<open>read_groups\<close>: the groups read, whether they end in an embedded IPv4 address, and
  the rest; \<open>left\<close> slots remain and \<open>i\<close> of them have been filled.\<close>

fun read_groups :: "nat \<Rightarrow> nat \<Rightarrow> string \<Rightarrow> nat list \<times> bool \<times> string" where
  "read_groups 0 i s = ([], False, s)"
| "read_groups (Suc left) i s =
     (let v4 = (if left > 0 then read_separator (CHR '':'') i read_ipv4_addr s else None)
      in case v4 of
           Some (os, s') \<Rightarrow> ([os ! 0 * 256 + os ! 1, os ! 2 * 256 + os ! 3], True, s')
         | None \<Rightarrow>
             (case read_separator (CHR '':'') i (read_number 16 u16_max 4 True) s of
                None \<Rightarrow> ([], False, s)
              | Some (g, s') \<Rightarrow>
                  (let (gs, v4', s'') = read_groups left (Suc i) s' in (g # gs, v4', s''))))"

definition read_ipv6_addr :: "string \<Rightarrow> (nat list \<times> string) option" where
  "read_ipv6_addr s =
     (let (head, head_ipv4, s1) = read_groups 8 0 s
      in if length head = 8 then Some (head, s1)
         else if head_ipv4 then None
         else case read_given_char (CHR '':'') s1 of
             None \<Rightarrow> None
           | Some s2 \<Rightarrow>
               (case read_given_char (CHR '':'') s2 of
                  None \<Rightarrow> None
                | Some s3 \<Rightarrow>
                    (let (tail, _, s4) = read_groups (7 - length head) 0 s3
                     in Some (head @ replicate (8 - length head - length tail) 0 @ tail, s4))))"

definition parse_ipv6 :: "string \<Rightarrow> nat list option" where
  "parse_ipv6 s = (case read_ipv6_addr s of Some (gs, []) \<Rightarrow> Some gs | _ \<Rightarrow> None)"

lemmas std_defs [std_eval] =
  byte_def is_ascii_digit_def is_ascii_lower_def is_ascii_upper_def is_ascii_alphanumeric_def
  is_char_boundary_def ascii_alnum_code_def is_alphanumeric_def digit_val_def digits_val_def
  all_digits_def parse_unsigned_def u16_max_def u64_max_def i64_max_def i64_min_def parse_i64_def
  read_given_char_def read_number_def read_separator_def read_ipv4_addr_def read_ipv6_addr_def
  parse_ipv6_def is_whitespace_def trim_str_def

section \<open>Facts about strings\<close>

lemma str_find_None_iff: "str_find c s = None \<longleftrightarrow> c \<notin> set s"
  by (induction s) auto

lemma str_find_notin [simp]: "c \<notin> set s \<Longrightarrow> str_find c s = None"
  by (simp add: str_find_None_iff)

lemma str_find_Some_iff:
  "str_find c s = Some i \<longleftrightarrow> i < length s \<and> s ! i = c \<and> c \<notin> set (take i s)"
proof (induction s arbitrary: i)
  case (Cons x xs)
  then show ?case by (cases i) auto
qed simp

lemma str_find_append [simp]:
  "c \<notin> set xs \<Longrightarrow> str_find c (xs @ c # ys) = Some (length xs)"
  by (induction xs) auto

lemma str_find_split:
  assumes "str_find c s = Some i"
  shows "s = take i s @ c # drop (Suc i) s" and "c \<notin> set (take i s)" and "i < length s"
  using assms id_take_nth_drop[of i s] by (auto simp: str_find_Some_iff)

lemma strip_prefix_Some_iff: "strip_prefix p s = Some t \<longleftrightarrow> s = p @ t"
  by (induction p s rule: strip_prefix.induct) auto

lemma strip_prefix_append [simp]: "strip_prefix p (p @ t) = Some t"
  by (simp add: strip_prefix_Some_iff)

lemma starts_with_simps [simp]:
  "\<not> starts_with c []" "starts_with c (x # xs) \<longleftrightarrow> x = c"
  by (simp_all add: starts_with_def)

lemma starts_with_iff: "starts_with c s \<longleftrightarrow> (\<exists>t. s = c # t)"
  by (cases s) auto

lemma is_char_boundary_after_ascii:
  assumes "Suc i = length s \<or> byte (s ! Suc i) < 128" "i < length s"
  shows "is_char_boundary s (Suc i)"
  using assms by (auto simp: is_char_boundary_def)

section \<open>Facts about integers\<close>

lemma as_u8_mod: "as_u8 n = n mod 256"
  by (simp add: as_u8_def unat_of_nat)

lemma as_u8_small [simp]: "n < 256 \<Longrightarrow> as_u8 n = n"
  by (simp add: as_u8_mod)

lemma as_i64_eq: "as_i64 n = (int n + 2 ^ 63) mod 2 ^ 64 - 2 ^ 63"
proof -
  have "as_i64 n = sint (word_of_int (int n) :: 64 word)" by (simp add: as_i64_def)
  then show ?thesis by (simp only: int_word_sint) simp
qed

lemma as_i64_small: "n < 2 ^ 63 \<Longrightarrow> as_i64 n = int n"
  by (simp add: as_i64_eq)

lemma parse_unsigned_le: "parse_unsigned mx s = Some n \<Longrightarrow> n \<le> mx"
  by (auto simp: parse_unsigned_def Let_def split: if_splits)

lemma parse_i64_range: "parse_i64 s = Some v \<Longrightarrow> i64_min \<le> v \<and> v \<le> i64_max"
  by (auto simp: parse_i64_def Let_def split: if_splits)

section \<open>Facts about addresses\<close>

lemma read_number_le: "read_number radix mx d z s = Some (n, s') \<Longrightarrow> n \<le> mx"
  by (auto simp: read_number_def Let_def split: if_splits)

lemma read_separator_Some:
  "read_separator sep i inner s = Some r \<Longrightarrow> \<exists>s'. inner s' = Some r"
  by (auto simp: read_separator_def split: if_splits option.splits)

lemma read_ipv4_from_Some:
  "read_ipv4_from k i s = Some (ns, s') \<Longrightarrow> length ns = k \<and> (\<forall>n\<in>set ns. n \<le> 255)"
proof (induction k i s arbitrary: ns s' rule: read_ipv4_from.induct)
  case (2 k i s)
  then show ?case
    by (fastforce split: option.splits dest!: read_separator_Some dest: read_number_le)
qed simp

lemma read_groups_bound:
  "read_groups left i s = (gs, v4, s') \<Longrightarrow> length gs \<le> left \<and> (\<forall>g\<in>set gs. g \<le> u16_max)"
proof (induction left i s arbitrary: gs v4 s' rule: read_groups.induct)
  case (2 left i s)
  have v4: "os ! 0 * 256 + os ! 1 \<le> u16_max \<and> os ! 2 * 256 + os ! 3 \<le> u16_max"
    if "read_separator (CHR '':'') i read_ipv4_addr s = Some (os, r)" for os r
  proof -
    from that obtain t where "read_ipv4_from 4 0 t = Some (os, r)"
      by (auto dest!: read_separator_Some simp: read_ipv4_addr_def)
    from read_ipv4_from_Some[OF this] have "os ! 0 \<le> 255" "os ! 1 \<le> 255" "os ! 2 \<le> 255" "os ! 3 \<le> 255"
      by auto
    then show ?thesis by (simp add: u16_max_def)
  qed
  have grp: "g \<le> u16_max"
    if "read_separator (CHR '':'') i (read_number 16 u16_max 4 True) s = Some (g, r)" for g r
    using that by (auto dest!: read_separator_Some dest: read_number_le)
  from 2 show ?case
    by (auto simp: Let_def split: option.splits prod.splits if_splits dest: v4 grp)
qed simp

text \<open>A successfully parsed address always has eight 16-bit groups.\<close>

lemma parse_ipv6_groups:
  assumes "parse_ipv6 s = Some gs"
  shows "length gs = 8 \<and> (\<forall>g\<in>set gs. g \<le> u16_max)"
proof -
  obtain head v4 s1 where h: "read_groups 8 0 s = (head, v4, s1)" by (metis prod_cases3)
  note hb = read_groups_bound[OF h]
  show ?thesis
  proof (cases "length head = 8")
    case True
    with assms h hb show ?thesis
      by (auto simp: parse_ipv6_def read_ipv6_addr_def split: list.splits)
  next
    case False
    with hb have lt: "length head \<le> 7" by simp
    from assms False h obtain s3 tail v s4 where
      t: "read_groups (7 - length head) 0 s3 = (tail, v, s4)"
      and gs: "gs = head @ replicate (8 - length head - length tail) 0 @ tail"
      by (auto simp: parse_ipv6_def read_ipv6_addr_def split: list.splits option.splits if_splits prod.splits)
    from read_groups_bound[OF t] hb lt gs show ?thesis by auto
  qed
qed

end
