(* ===== verification/BTree_Map.thy ===== *)
theory BTree_Map
  imports Prelude
begin

text \<open>
  \<open>BTreeMap\<close> of the standard library as an association list with strictly increasing keys,
  in the order its iterators visit the entries.  The interface \<open>ordered_map\<close> states what the
  clients rely on; its client lemmas cover building a map from a sequence of entries, where the
  last entry of a key wins.
\<close>

type_synonym ('k, 'v) btree = "('k \<times> 'v) list"

abbreviation bt_get :: "('k, 'v) btree \<Rightarrow> 'k \<Rightarrow> 'v option" where
  "bt_get \<equiv> map_of"

fun bt_insert :: "'k::linorder \<Rightarrow> 'v \<Rightarrow> ('k, 'v) btree \<Rightarrow> ('k, 'v) btree" where
  "bt_insert k v [] = [(k, v)]"
| "bt_insert k v ((k', v') # m) =
     (if k < k' then (k, v) # (k', v') # m
      else if k = k' then (k, v) # m
      else (k', v') # bt_insert k v m)"

definition bt_remove :: "'k \<Rightarrow> ('k, 'v) btree \<Rightarrow> ('k, 'v) btree" where
  "bt_remove k m = filter (\<lambda>e. fst e \<noteq> k) m"

definition bt_inv :: "('k::linorder, 'v) btree \<Rightarrow> bool" where
  "bt_inv m \<longleftrightarrow> sorted_wrt (<) (map fst m)"

definition bt_from_iter :: "('k::linorder \<times> 'v) list \<Rightarrow> ('k, 'v) btree" where
  "bt_from_iter es = fold (\<lambda>(k, v). bt_insert k v) es []"

section \<open>The interface\<close>

locale ordered_map =
  fixes emp :: 'm and get :: "'m \<Rightarrow> 'k \<Rightarrow> 'v option"
    and ins :: "'k \<Rightarrow> 'v \<Rightarrow> 'm \<Rightarrow> 'm" and del :: "'k \<Rightarrow> 'm \<Rightarrow> 'm" and inv :: "'m \<Rightarrow> bool"
  assumes get_emp: "get emp k = None"
    and get_ins: "inv m \<Longrightarrow> get (ins k v m) = (get m)(k \<mapsto> v)"
    and get_del: "inv m \<Longrightarrow> get (del k m) = (get m)(k := None)"
    and inv_emp: "inv emp"
    and inv_ins: "inv m \<Longrightarrow> inv (ins k v m)"
    and inv_del: "inv m \<Longrightarrow> inv (del k m)"
begin

lemma fold_ins:
  "inv m \<Longrightarrow> inv (fold (\<lambda>(k, v). ins k v) es m)
     \<and> get (fold (\<lambda>(k, v). ins k v) es m) = get m ++ map_of (rev es)"
proof (induction es arbitrary: m)
  case (Cons e es)
  obtain k v where e: "e = (k, v)" by fastforce
  from Cons.prems have "inv (ins k v m)" by (rule inv_ins)
  from Cons.IH[OF this] show ?case
    by (auto simp: e get_ins[OF Cons.prems] map_add_def fun_eq_iff split: option.splits)
qed simp

lemma from_iter_inv: "inv (fold (\<lambda>(k, v). ins k v) es emp)"
  using fold_ins[OF inv_emp] by simp

lemma from_iter_get: "get (fold (\<lambda>(k, v). ins k v) es emp) = map_of (rev es)"
  using fold_ins[OF inv_emp] by (simp add: get_emp fun_eq_iff map_add_def split: option.splits)

end

section \<open>The implementation meets it\<close>

lemma bt_insert_keys: "set (map fst (bt_insert k v m)) = insert k (set (map fst m))"
  by (induction k v m rule: bt_insert.induct) auto

lemma bt_inv_Nil [simp]: "bt_inv []"
  by (simp add: bt_inv_def)

lemma bt_inv_Cons: "bt_inv ((k, v) # m) \<longleftrightarrow> (\<forall>k'\<in>set (map fst m). k < k') \<and> bt_inv m"
  by (simp add: bt_inv_def)

lemma bt_inv_insert: "bt_inv m \<Longrightarrow> bt_inv (bt_insert k v m)"
proof (induction k v m rule: bt_insert.induct)
  case (2 k v k' v' m)
  then show ?case using bt_insert_keys[of k v m] by (auto simp: bt_inv_Cons)
qed (simp add: bt_inv_def)

lemma bt_get_insert: "bt_inv m \<Longrightarrow> bt_get (bt_insert k v m) = (bt_get m)(k \<mapsto> v)"
proof (induction k v m rule: bt_insert.induct)
  case (2 k v k' v' m)
  then show ?case by (auto simp: bt_inv_Cons)
qed simp

lemma bt_inv_filter: "bt_inv m \<Longrightarrow> bt_inv (filter P m)"
  by (induction m) (auto simp: bt_inv_Cons)

lemma bt_get_remove: "bt_get (bt_remove k m) = (bt_get m)(k := None)"
  by (induction m) (auto simp: bt_remove_def fun_eq_iff)

lemma bt_inv_remove: "bt_inv m \<Longrightarrow> bt_inv (bt_remove k m)"
  by (simp add: bt_remove_def bt_inv_filter)

interpretation bt: ordered_map "[]" bt_get bt_insert bt_remove bt_inv
  by unfold_locales (simp_all add: bt_get_insert bt_get_remove bt_inv_insert bt_inv_remove)

lemmas bt_simps = bt_get_insert bt_get_remove bt_inv_insert

lemma bt_from_iter_inv: "bt_inv (bt_from_iter es)"
  unfolding bt_from_iter_def by (rule bt.from_iter_inv)

lemma bt_from_iter_get: "bt_get (bt_from_iter es) = map_of (rev es)"
  unfolding bt_from_iter_def by (rule bt.from_iter_get)

lemma bt_inv_distinct: "bt_inv m \<Longrightarrow> distinct (map fst m)"
  by (auto simp: bt_inv_def strict_sorted_iff)

lemma bt_inv_set: "bt_inv m \<Longrightarrow> (k, v) \<in> set m \<longleftrightarrow> bt_get m k = Some v"
  by (simp add: bt_inv_distinct)

lemma bt_insert_last:
  "\<forall>k'\<in>set (map fst m). k' < k \<Longrightarrow> bt_insert k v m = m @ [(k, v)]"
  by (induction m) auto

text \<open>Two maps with the same entries are the same list, so that equality of the model is equality
  of maps.\<close>

lemma bt_inv_ext:
  assumes "bt_inv m" "bt_inv m'" "bt_get m = bt_get m'"
  shows "m = m'"
proof -
  have "set m = set m'"
    using assms by (simp add: map_of_inject_set bt_inv_distinct)
  moreover have "sorted (map fst m)" "sorted (map fst m')"
    using assms(1,2) by (simp_all add: bt_inv_def strict_sorted_iff)
  ultimately show ?thesis
    using assms(1,2) bt_inv_distinct map_sorted_distinct_set_unique[of fst m m']
    by (metis distinct_map inj_on_Un sup.idem)
qed

lemma bt_insert_same:
  assumes "bt_inv m" "bt_get m k = Some v"
  shows "bt_insert k v m = m"
  using assms by (intro bt_inv_ext) (auto simp: bt_simps)

end
