(* ===== verification/Json.thy ===== *)
theory Json
  imports Rust_Std BTree_Map
begin

text \<open>
  JSON values as the parser hands them to the deserializers of the code, and the deserializers of
  scalar fields (\<open>core/src/serde/strings.rs\<close>).  Objects keep their entries in text order, with
  repeated keys: structs reject a repeated field, maps keep its last value.  A number without
  fraction and exponent that fits \<open>i64\<close> or \<open>u64\<close> is an integer; every other number is a
  float, of which only the text matters here.
\<close>

datatype json =
    JNull
  | JBool bool
  | JInt int
  | JFloat string
  | JStr string
  | JArr "json list"
  | JObj "(string \<times> json) list"

datatype de_error = DeError

section \<open>Scalars\<close>

definition de_string :: "json \<Rightarrow> de_error + string" where
  "de_string j = (case j of JStr s \<Rightarrow> Inr s | _ \<Rightarrow> Inl DeError)"

definition de_bool :: "json \<Rightarrow> de_error + bool" where
  "de_bool j = (case j of JBool b \<Rightarrow> Inr b | _ \<Rightarrow> Inl DeError)"

definition de_i64 :: "json \<Rightarrow> de_error + int" where
  "de_i64 j =
     (case j of JInt n \<Rightarrow> if i64_min \<le> n \<and> n \<le> i64_max then Inr n else Inl DeError | _ \<Rightarrow> Inl DeError)"

text \<open>Power levels of the first room versions may be strings; \<open>visit_str\<close> drops a plus sign and
  then reads an unsigned number that it casts to \<open>i64\<close>.\<close>

definition v1_visit_str :: "string \<Rightarrow> de_error + int" where
  "v1_visit_str v =
     (let trimmed = trim_str v
      in case strip_prefix ''+'' trimmed of
           Some without \<Rightarrow> ok_or DeError (map_option as_i64 (parse_unsigned u64_max without))
         | None \<Rightarrow> ok_or DeError (parse_i64 trimmed))"

definition deserialize_v1_power_level :: "json \<Rightarrow> de_error + int" where
  "deserialize_v1_power_level j =
     (case j of
        JInt n \<Rightarrow> if i64_min \<le> n \<and> n \<le> i64_max then Inr n else Inl DeError
      | JStr s \<Rightarrow> v1_visit_str s
      | _ \<Rightarrow> Inl DeError)"

definition de_opt :: "(json \<Rightarrow> de_error + 'a) \<Rightarrow> json \<Rightarrow> de_error + 'a option" where
  "de_opt d j = (if j = JNull then Inr None else map_ok Some (d j))"

section \<open>Objects\<close>

text \<open>A derived deserializer of a struct reads the entries of an object, or the elements of an
  array in the order of the fields.  \<open>struct_fields fields j\<close> is the field values found, in the
  order of \<open>fields\<close>, which pairs each name with whether the field has a default.  Unknown keys
  are skipped, repeated ones are an error; an array may only lack trailing fields with a
  default.\<close>

definition field_values :: "string \<Rightarrow> (string \<times> json) list \<Rightarrow> json list" where
  "field_values k es = map snd (filter (\<lambda>e. fst e = k) es)"

definition struct_fields :: "(string \<times> bool) list \<Rightarrow> json \<Rightarrow> de_error + json option list" where
  "struct_fields fields j =
     (case j of
        JObj es \<Rightarrow>
          (if list_ex (\<lambda>f. length (field_values (fst f) es) > 1) fields then Inl DeError
           else Inr (map (\<lambda>f. map_of es (fst f)) fields))
      | JArr vs \<Rightarrow>
          (if length vs \<le> length fields \<and> list_all snd (drop (length vs) fields)
           then Inr (map Some vs @ replicate (length fields - length vs) None)
           else Inl DeError)
      | _ \<Rightarrow> Inl DeError)"

text \<open>Fields that are required, of option type, or with a default.\<close>

definition de_required1 :: "string \<Rightarrow> (json \<Rightarrow> de_error + 'a) \<Rightarrow> json \<Rightarrow> de_error + 'a" where
  "de_required1 name d j =
     and_then (struct_fields [(name, False)] j) (\<lambda>fs.
     case hd fs of None \<Rightarrow> Inl DeError | Some v \<Rightarrow> d v)"

definition de_optional1 :: "string \<Rightarrow> (json \<Rightarrow> de_error + 'a) \<Rightarrow> json \<Rightarrow> de_error + 'a option" where
  "de_optional1 name d j =
     and_then (struct_fields [(name, False)] j) (\<lambda>fs.
     case hd fs of None \<Rightarrow> Inr None | Some v \<Rightarrow> de_opt d v)"

definition or_default :: "'a \<Rightarrow> (json \<Rightarrow> de_error + 'a) \<Rightarrow> json option \<Rightarrow> de_error + 'a" where
  "or_default d f v = (case v of None \<Rightarrow> Inr d | Some j \<Rightarrow> f j)"

text \<open>A \<open>serde_json::Value\<close>: objects are maps, at every depth.\<close>

fun to_value :: "json \<Rightarrow> json" where
  "to_value (JArr vs) = JArr (map to_value vs)"
| "to_value (JObj es) = JObj (bt_from_iter (map (\<lambda>e. (fst e, to_value (snd e))) es))"
| "to_value j = j"

text \<open>Maps and sequences.\<close>

definition de_map ::
  "(string \<Rightarrow> de_error + 'k::linorder) \<Rightarrow> (json \<Rightarrow> de_error + 'v) \<Rightarrow> json \<Rightarrow> de_error + ('k, 'v) btree" where
  "de_map dk dv j =
     (case j of
        JObj es \<Rightarrow>
          map_ok bt_from_iter
            (map_result (\<lambda>e. and_then (dk (fst e)) (\<lambda>k. map_ok (Pair k) (dv (snd e)))) es)
      | _ \<Rightarrow> Inl DeError)"

definition de_seq :: "(json \<Rightarrow> de_error + 'a) \<Rightarrow> json \<Rightarrow> de_error + 'a list" where
  "de_seq d j = (case j of JArr vs \<Rightarrow> map_result d vs | _ \<Rightarrow> Inl DeError)"

definition btreemap_deserialize_v1_power_level_values ::
  "(string \<Rightarrow> de_error + 'k::linorder) \<Rightarrow> json \<Rightarrow> de_error + ('k, int) btree" where
  "btreemap_deserialize_v1_power_level_values dk j = de_map dk deserialize_v1_power_level j"

section \<open>Facts\<close>

lemma de_i64_Inr_iff [res_simps]:
  "de_i64 j = Inr n \<longleftrightarrow> j = JInt n \<and> i64_min \<le> n \<and> n \<le> i64_max"
  by (cases j) (auto simp: de_i64_def)

lemma de_string_Inr_iff [res_simps]: "de_string j = Inr s \<longleftrightarrow> j = JStr s"
  by (cases j) (auto simp: de_string_def)

lemma de_bool_Inr_iff [res_simps]: "de_bool j = Inr b \<longleftrightarrow> j = JBool b"
  by (cases j) (auto simp: de_bool_def)

lemma de_map_inv: "de_map dk dv j = Inr m \<Longrightarrow> bt_inv m"
  by (cases j) (auto simp: de_map_def res_simps bt_from_iter_inv)

lemma as_i64_range: "i64_min \<le> as_i64 n \<and> as_i64 n \<le> i64_max"
proof -
  have "0 \<le> (int n + 2 ^ 63) mod 2 ^ 64" "(int n + 2 ^ 63) mod 2 ^ 64 < (2 ^ 64 :: int)"
    by simp_all
  then show ?thesis unfolding as_i64_eq i64_min_def i64_max_def by simp
qed

lemma deserialize_v1_range:
  "deserialize_v1_power_level j = Inr n \<Longrightarrow> i64_min \<le> n \<and> n \<le> i64_max"
  using as_i64_range parse_i64_range
  by (cases j) (auto simp: deserialize_v1_power_level_def v1_visit_str_def Let_def res_simps
      split: if_splits option.splits)

section \<open>Properties\<close>

text \<open>An integer that fits sixty-four signed bits is read unchanged by both the strict and the
  lenient deserializer of power levels, and one that does not fit is rejected by both; but the
  lenient one reads a string with a plus sign modulo \<open>2^64\<close>, so that the text
  \<open>+18446744073709551615\<close> becomes the level -1.\<close>

theorem v1_power_level_reading:
  "(deserialize_v1_power_level (JInt n) = Inr m \<longleftrightarrow> de_i64 (JInt n) = Inr m)
   \<and> (de_i64 (JInt n) = Inr m \<longleftrightarrow> n = m \<and> i64_min \<le> n \<and> n \<le> i64_max)
   \<and> deserialize_v1_power_level (JStr ''+18446744073709551615'') = Inr (- 1)"
proof -
  have "v1_visit_str ''+18446744073709551615'' = Inr (- 1)"
    by (simp add: v1_visit_str_def trim_str_def is_whitespace_def digits_val_def all_digits_def
        parse_unsigned_def digit_val_def is_ascii_digit_def byte_def u64_max_def as_i64_eq)
  then show ?thesis
    by (auto simp: deserialize_v1_power_level_def de_i64_def)
qed

end
