(* ===== verification/Identifiers.thy ===== *)
theory Identifiers
  imports Rust_Std
begin

text \<open>
  The crate \<open>identifiers-validation\<close> (one \<open>validate\<close> per kind of identifier, with its
  error type) and the accessors of the identifier types in \<open>core/src/identifiers\<close> that
  split a validated identifier into its parts.  The theorems give the grammar each validator
  decides, show that the accessors invert concatenation on validated identifiers, and record
  where the narrowing casts of the byte offsets go wrong.
\<close>

section \<open>Errors\<close>

datatype mxc_uri_error = WrongSchema | MissingSlash | MediaIdMalformed | ServerNameMalformed

datatype matrix_id_error =
    InvalidPartsNumber | MissingRoom | NoIdentifier | TooManyIdentifiers
  | UnknownIdentifier | UnknownIdentifierPair | UnknownType

datatype matrix_to_error = InvalidUrl | WrongBaseUrl | UnknownArgument

datatype matrix_uri_error = WrongScheme | TooManyActions | UnknownQueryItem

datatype voip_version_id_error = WrongUintValue

datatype id_error =
    Empty
  | InvalidCharacters
  | InvalidMatrixId matrix_id_error
  | InvalidMatrixToUri matrix_to_error
  | InvalidMatrixUri matrix_uri_error
  | InvalidMxcUri mxc_uri_error
  | InvalidVoipVersionId voip_version_id_error
  | InvalidServerName
  | InvalidUtf8
  | MaximumLengthExceeded
  | MissingColon
  | MissingLeadingSigil

section \<open>Validators\<close>

definition MAX_BYTES :: nat where "MAX_BYTES = 255"

definition server_name_validate :: "string \<Rightarrow> id_error + unit" where
  "server_name_validate server_name =
     and_then (ensure (server_name \<noteq> []) InvalidServerName) (\<lambda>_.
     and_then
       (if starts_with (CHR ''['') server_name
        then and_then (ok_or InvalidServerName (str_find (CHR '']'') server_name)) (\<lambda>end_of_ipv6.
               if parse_ipv6 (take (end_of_ipv6 - 1) (drop 1 server_name)) = None
               then Inl InvalidServerName
               else Inr (end_of_ipv6 + 1))
        else let end_of_host = unwrap_or (length server_name) (str_find (CHR '':'') server_name)
             in if list_ex (\<lambda>b. \<not> (is_ascii_alphanumeric b \<or> b = CHR ''-'' \<or> b = CHR ''.''))
                  (take end_of_host server_name)
                then Inl InvalidServerName
                else Inr end_of_host)
       (\<lambda>end_of_host.
          and_then (ensure (end_of_host \<noteq> 0) InvalidServerName) (\<lambda>_.
          if length server_name \<noteq> end_of_host
             \<and> (server_name ! end_of_host \<noteq> CHR '':''
                \<or> parse_unsigned u16_max (drop (end_of_host + 1) server_name) = None)
          then Inl InvalidServerName
          else Inr ())))"

definition validate_id :: "string \<Rightarrow> char \<Rightarrow> id_error + unit" where
  "validate_id i first_byte =
     (if length i > MAX_BYTES then Inl MaximumLengthExceeded
      else if \<not> starts_with first_byte i then Inl MissingLeadingSigil
      else Inr ())"

definition parse_id :: "string \<Rightarrow> char \<Rightarrow> id_error + nat" where
  "parse_id i first_byte =
     and_then (validate_id i first_byte) (\<lambda>_.
     and_then (ok_or MissingColon (str_find (CHR '':'') i)) (\<lambda>colon_idx.
     and_then (server_name_validate (drop (colon_idx + 1) i)) (\<lambda>_. Inr colon_idx)))"

definition validate_delimited_id :: "string \<Rightarrow> char \<Rightarrow> id_error + unit" where
  "validate_delimited_id i first_byte = and_then (parse_id i first_byte) (\<lambda>_. Inr ())"

definition localpart_is_backwards_compatible :: "string \<Rightarrow> id_error + unit" where
  "localpart_is_backwards_compatible localpart =
     (if list_ex (\<lambda>c. c = CHR '':'' \<or> c = CHR 0x00) localpart then Inl InvalidCharacters else Inr ())"

definition base64_public_key_validate :: "(nat \<Rightarrow> bool) \<Rightarrow> string \<Rightarrow> id_error + unit" where
  "base64_public_key_validate uni s =
     (if s = [] then Inl Empty
      else if \<not> list_all (\<lambda>c. is_alphanumeric uni c \<or> c = 43 \<or> c = 47 \<or> c = 61) (utf8_chars s)
      then Inl InvalidCharacters
      else Inr ())"

definition client_secret_validate :: "(nat \<Rightarrow> bool) \<Rightarrow> string \<Rightarrow> id_error + unit" where
  "client_secret_validate uni s =
     (if length s > 255 then Inl MaximumLengthExceeded
      else if \<not> list_all (\<lambda>c. is_alphanumeric uni c \<or> c \<in> set (utf8_chars ''.=_-'')) (utf8_chars s)
      then Inl InvalidCharacters
      else if s = [] then Inl Empty
      else Inr ())"

definition device_key_id_validate :: "string \<Rightarrow> id_error + unit" where
  "device_key_id_validate s =
     and_then (ok_or MissingColon (str_find (CHR '':'') s)) (\<lambda>colon_idx.
     if colon_idx = 0 then Inl Empty else Inr ())"

definition event_id_validate :: "string \<Rightarrow> id_error + unit" where
  "event_id_validate s =
     (if CHR '':'' \<in> set s then validate_delimited_id s (CHR ''$'')
      else if \<not> starts_with (CHR ''$'') s then Inl MissingLeadingSigil
      else Inr ())"

text \<open>The offset of the colon is narrowed to a byte before the key name is sliced off.\<close>

definition key_id_validate ::
  "(string \<Rightarrow> id_error + unit) \<Rightarrow> string \<Rightarrow> id_error fault + nat" where
  "key_id_validate key_name_validate s =
     and_then (ok_or (Err MissingColon) (str_find (CHR '':'') s)) (\<lambda>idx.
     and_then (ensure (as_u8 idx \<noteq> 0) (Err MissingColon)) (\<lambda>_.
     and_then (ensure (is_char_boundary s (as_u8 idx + 1)) Panic) (\<lambda>_.
     and_then (map_err Err (key_name_validate (drop (as_u8 idx + 1) s))) (\<lambda>_.
     Inr (as_u8 idx)))))"

definition PROTOCOL :: string where "PROTOCOL = ''mxc://''"

definition media_id_byte :: "char \<Rightarrow> bool" where
  "media_id_byte b \<longleftrightarrow> is_ascii_digit b \<or> is_ascii_lower b \<or> is_ascii_upper b \<or> b = CHR ''-''"

definition mxc_uri_validate :: "string \<Rightarrow> mxc_uri_error fault + nat" where
  "mxc_uri_validate full =
     (case strip_prefix PROTOCOL full of
        None \<Rightarrow> Inl (Err WrongSchema)
      | Some uri \<Rightarrow>
          (case str_find (CHR ''/'') uri of
             None \<Rightarrow> Inl (Err MissingSlash)
           | Some index \<Rightarrow>
               if \<not> list_all media_id_byte (drop (index + 1) uri) then Inl (Err MediaIdMalformed)
               else if \<not> is_ok (server_name_validate (take index uri)) then Inl (Err ServerNameMalformed)
               else if as_u8 (index + 6) = 0 then Inl Panic
               else Inr (as_u8 (index + 6))))"

definition room_alias_id_validate :: "string \<Rightarrow> id_error + unit" where
  "room_alias_id_validate s = validate_delimited_id s (CHR ''#'')"

definition room_id_validate :: "string \<Rightarrow> id_error + unit" where
  "room_id_validate s = validate_id s (CHR ''!'')"

definition room_id_or_alias_id_validate :: "string \<Rightarrow> id_error + unit" where
  "room_id_or_alias_id_validate s =
     (if starts_with (CHR ''#'') s then room_alias_id_validate s
      else if starts_with (CHR ''!'') s then room_id_validate s
      else Inl MissingLeadingSigil)"

definition MAX_CODE_POINTS :: nat where "MAX_CODE_POINTS = 32"

definition room_version_id_validate :: "(nat \<Rightarrow> bool) \<Rightarrow> string \<Rightarrow> id_error + unit" where
  "room_version_id_validate uni s =
     (if s = [] then Inl Empty
      else if length (utf8_chars s) > MAX_CODE_POINTS then Inl MaximumLengthExceeded
      else if \<not> list_all (\<lambda>c. is_alphanumeric uni c \<or> c \<in> set (utf8_chars ''.-'')) (utf8_chars s)
      then Inl InvalidCharacters
      else Inr ())"

definition server_signing_key_version_validate :: "(nat \<Rightarrow> bool) \<Rightarrow> string \<Rightarrow> id_error + unit" where
  "server_signing_key_version_validate uni s =
     (if s = [] then Inl Empty
      else if \<not> list_all (\<lambda>c. is_alphanumeric uni c \<or> c = 95) (utf8_chars s)
      then Inl InvalidCharacters
      else Inr ())"

definition space_child_order_validate :: "string \<Rightarrow> id_error + unit" where
  "space_child_order_validate s =
     (if length s > 50 then Inl MaximumLengthExceeded
      else if \<not> list_all (\<lambda>b. 32 \<le> byte b \<and> byte b \<le> 126) s then Inl InvalidCharacters
      else Inr ())"

definition conforming_byte :: "char \<Rightarrow> bool" where
  "conforming_byte b \<longleftrightarrow>
     is_ascii_digit b \<or> is_ascii_lower b \<or> b \<in> {CHR ''-'', CHR ''.'', CHR ''='', CHR ''_'', CHR ''/'', CHR ''+''}"

definition localpart_is_fully_conforming :: "string \<Rightarrow> id_error + bool" where
  "localpart_is_fully_conforming localpart =
     (let is_fully_conforming = (localpart \<noteq> [] \<and> list_all conforming_byte localpart)
      in if \<not> is_fully_conforming \<and> CHR '':'' \<in> set localpart
         then Inl InvalidCharacters
         else Inr is_fully_conforming)"

definition user_id_validate :: "string \<Rightarrow> id_error + unit" where
  "user_id_validate s =
     and_then (parse_id s (CHR ''@'')) (\<lambda>colon_idx.
     and_then (localpart_is_fully_conforming (take (colon_idx - 1) (drop 1 s))) (\<lambda>_. Inr ()))"

definition voip_version_id_validate :: "nat \<Rightarrow> id_error + unit" where
  "voip_version_id_validate u =
     (if u \<noteq> 0 then Inl (InvalidVoipVersionId WrongUintValue) else Inr ())"

section \<open>Accessors of validated identifiers\<close>

text \<open>The \<open>unwrap\<close>ped colon offset of a user or alias identifier; an identifier without
  colon (never constructed by \<open>parse\<close>) is a panic.\<close>

definition colon_idx :: "string \<Rightarrow> id_error fault + nat" where
  "colon_idx s = ok_or Panic (str_find (CHR '':'') s)"

definition user_localpart :: "string \<Rightarrow> id_error fault + string" where
  "user_localpart s = map_ok (\<lambda>i. take (i - 1) (drop 1 s)) (colon_idx s)"

definition user_server_name :: "string \<Rightarrow> id_error fault + string" where
  "user_server_name s = map_ok (\<lambda>i. drop (i + 1) s) (colon_idx s)"

definition parse_with_server_name :: "string \<Rightarrow> string \<Rightarrow> id_error + string" where
  "parse_with_server_name i server_name =
     (if starts_with (CHR ''@'') i then map_ok (\<lambda>_. i) (user_id_validate i)
      else map_ok (\<lambda>_. ''@'' @ i @ '':'' @ server_name) (localpart_is_fully_conforming i))"

definition validate_fully_conforming :: "string \<Rightarrow> id_error fault + bool" where
  "validate_fully_conforming s =
     (if length s > MAX_BYTES then Inl (Err MaximumLengthExceeded)
      else and_then (user_localpart s) (\<lambda>lp. map_err Err (localpart_is_fully_conforming lp)))"

definition validate_strict :: "string \<Rightarrow> id_error fault + unit" where
  "validate_strict s =
     and_then (validate_fully_conforming s) (\<lambda>ok. if ok then Inr () else Inl (Err InvalidCharacters))"

definition validate_historical :: "string \<Rightarrow> id_error fault + unit" where
  "validate_historical s = and_then (validate_fully_conforming s) (\<lambda>_. Inr ())"

definition is_historical :: "string \<Rightarrow> id_error fault + bool" where
  "is_historical s =
     and_then (user_localpart s) (\<lambda>lp.
     case localpart_is_fully_conforming lp of Inl _ \<Rightarrow> Inl Panic | Inr b \<Rightarrow> Inr (\<not> b))"

definition room_alias :: "string \<Rightarrow> id_error fault + string" where
  "room_alias s = map_ok (\<lambda>i. take (i - 1) (drop 1 s)) (colon_idx s)"

definition room_alias_server_name :: "string \<Rightarrow> id_error fault + string" where
  "room_alias_server_name s = map_ok (\<lambda>i. drop (i + 1) s) (colon_idx s)"

definition event_localpart :: "string \<Rightarrow> string" where
  "event_localpart s = (let idx = unwrap_or (length s) (str_find (CHR '':'') s) in take (idx - 1) (drop 1 s))"

definition event_server_name :: "string \<Rightarrow> string option" where
  "event_server_name s = map_option (\<lambda>idx. drop (idx + 1) s) (str_find (CHR '':'') s)"

text \<open>\<open>RoomOrAliasId::server_name\<close>: the \<open>Err\<close> carries the whole identifier.\<close>

definition room_or_alias_server_name :: "string \<Rightarrow> string + string" where
  "room_or_alias_server_name s =
     and_then (ok_or s (str_find (CHR '':'') s)) (\<lambda>i.
     if is_ok (server_name_validate (drop (i + 1) s)) then Inr (drop (i + 1) s) else Inl s)"

definition room_server_name :: "string \<Rightarrow> string + string" where
  "room_server_name s = room_or_alias_server_name s"

definition room_id_new_v2 :: "string \<Rightarrow> id_error + string" where
  "room_id_new_v2 h = map_ok (\<lambda>_. ''!'' @ h) (room_id_validate (''!'' @ h))"

definition strip_sigil :: "string \<Rightarrow> id_error fault + string" where
  "strip_sigil s = ok_or Panic (strip_prefix ''!'' s)"

definition room_create_event_id :: "string \<Rightarrow> id_error fault + string" where
  "room_create_event_id room_id =
     and_then (strip_sigil room_id) (\<lambda>s.
     map_ok (\<lambda>_. ''$'' @ s) (map_err Err (event_id_validate (''$'' @ s))))"

definition server_host :: "string \<Rightarrow> string" where
  "server_host s =
     (case str_find (CHR '']'') s of
        Some end_of_ipv6 \<Rightarrow> take (end_of_ipv6 + 1) s
      | None \<Rightarrow> take (unwrap_or (length s) (str_find (CHR '':'') s)) s)"

definition server_port :: "string \<Rightarrow> id_error fault + nat option" where
  "server_port s =
     (let end_of_host = (case str_find (CHR '']'') s of
            Some i \<Rightarrow> i + 1
          | None \<Rightarrow> unwrap_or (length s) (str_find (CHR '':'') s))
      in if length s = end_of_host then Inr None
         else if end_of_host < length s \<and> s ! end_of_host = CHR '':''
         then (case parse_unsigned u16_max (drop (end_of_host + 1) s) of
                 None \<Rightarrow> Inl Panic
               | Some p \<Rightarrow> Inr (Some p))
         else Inl Panic)"

record mxc =
  mxc_server_name :: string
  mxc_media_id :: string

text \<open>\<open>MxcUri::parts\<close> slices the URI at the narrowed offset; the slices panic when the
  offset lies before the end of the scheme or inside a character.\<close>

definition mxc_parts :: "string \<Rightarrow> mxc_uri_error fault + mxc" where
  "mxc_parts s =
     and_then (mxc_uri_validate s) (\<lambda>idx.
     and_then (ensure (6 \<le> idx \<and> is_char_boundary s idx \<and> is_char_boundary s (idx + 1)) Panic) (\<lambda>_.
     Inr \<lparr>mxc_server_name = take (idx - 6) (drop 6 s), mxc_media_id = drop (idx + 1) s\<rparr>))"

definition mxc_display :: "mxc \<Rightarrow> string" where
  "mxc_display m = PROTOCOL @ mxc_server_name m @ ''/'' @ mxc_media_id m"

definition key_from_parts :: "string \<Rightarrow> string \<Rightarrow> string" where
  "key_from_parts algorithm key_name = algorithm @ '':'' @ key_name"

definition key_algorithm :: "string \<Rightarrow> id_error fault + string" where
  "key_algorithm s = map_ok (\<lambda>i. take i s) (colon_idx s)"

definition key_name ::
  "(string \<Rightarrow> id_error + unit) \<Rightarrow> string \<Rightarrow> id_error fault + string" where
  "key_name key_name_validate s =
     and_then (colon_idx s) (\<lambda>i.
     if is_ok (key_name_validate (drop (i + 1) s)) then Inr (drop (i + 1) s) else Inl Panic)"

definition any_key_name_validate :: "string \<Rightarrow> id_error + unit" where
  "any_key_name_validate s = Inr ()"

section \<open>The grammar of server names\<close>

definition dns_byte :: "char \<Rightarrow> bool" where
  "dns_byte b \<longleftrightarrow> is_ascii_alphanumeric b \<or> b = CHR ''-'' \<or> b = CHR ''.''"

inductive host_grammar :: "string \<Rightarrow> bool" where
  dns: "h \<noteq> [] \<Longrightarrow> list_all dns_byte h \<Longrightarrow> host_grammar h"
| ipv6: "parse_ipv6 a \<noteq> None \<Longrightarrow> CHR '']'' \<notin> set a \<Longrightarrow> host_grammar (CHR ''['' # a @ [CHR '']''])"

inductive server_name_grammar :: "string \<Rightarrow> bool" where
  bare: "host_grammar h \<Longrightarrow> server_name_grammar h"
| with_port: "host_grammar h \<Longrightarrow> parse_unsigned u16_max p \<noteq> None \<Longrightarrow> server_name_grammar (h @ CHR '':'' # p)"

inductive_cases host_grammarE: "host_grammar h"
inductive_cases server_name_grammarE: "server_name_grammar s"

lemma dns_byte_neq:
  "dns_byte b \<Longrightarrow> b \<noteq> CHR '':''" "dns_byte b \<Longrightarrow> b \<noteq> CHR ''[''" "dns_byte b \<Longrightarrow> b \<noteq> CHR '']''"
  by (auto simp: dns_byte_def is_ascii_alphanumeric_def is_ascii_digit_def is_ascii_lower_def
      is_ascii_upper_def byte_def)

lemma list_all_dns_notin:
  assumes "list_all dns_byte h"
  shows "CHR '':'' \<notin> set h" and "CHR ''['' \<notin> set h" and "CHR '']'' \<notin> set h"
  using assms unfolding list_all_iff by (blast dest: dns_byte_neq)+

lemma digit_not_bracket: "digit_val 10 c \<noteq> None \<Longrightarrow> c \<noteq> CHR '']''"
  by (auto simp: digit_val_def is_ascii_digit_def is_ascii_lower_def is_ascii_upper_def byte_def)

lemma parse_unsigned_no_bracket:
  assumes "parse_unsigned mx p \<noteq> None"
  shows "CHR '']'' \<notin> set p"
proof -
  have digits: "all_digits 10 ds \<Longrightarrow> CHR '']'' \<notin> set ds" for ds
    using digit_not_bracket by (auto simp: all_digits_def list_all_iff)
  from assms have "all_digits 10 (if starts_with (CHR ''+'') p then tl p else p)"
    by (auto simp: parse_unsigned_def Let_def split: if_splits)
  then have "all_digits 10 p \<or> (\<exists>t. p = CHR ''+'' # t \<and> all_digits 10 t)"
    by (cases p) (auto split: if_splits)
  with digits show ?thesis by auto
qed

lemma validate_dns_host:
  assumes "h \<noteq> []" "list_all dns_byte h"
  shows "server_name_validate h = Inr ()"
    and "parse_unsigned u16_max p \<noteq> None \<Longrightarrow> server_name_validate (h @ CHR '':'' # p) = Inr ()"
proof -
  obtain b t where h: "h = b # t" using assms(1) by (cases h) auto
  have nb: "\<not> starts_with (CHR ''['') h" "\<not> starts_with (CHR ''['') (h @ CHR '':'' # p)"
    using assms(2) list_all_dns_notin(2)[OF assms(2)] h by auto
  have nc: "CHR '':'' \<notin> set h" using list_all_dns_notin(1)[OF assms(2)] .
  have ok: "\<not> list_ex (\<lambda>b. \<not> (is_ascii_alphanumeric b \<or> b = CHR ''-'' \<or> b = CHR ''.'')) h"
    using assms(2) by (auto simp: list_all_iff list_ex_iff dns_byte_def)
  have "str_find (CHR '':'') h = None" using nc by simp
  then show "server_name_validate h = Inr ()"
    using assms(1) nb ok by (simp add: server_name_validate_def)
  show "server_name_validate (h @ CHR '':'' # p) = Inr ()" if "parse_unsigned u16_max p \<noteq> None"
    using assms(1) nb ok nc that by (simp add: server_name_validate_def)
qed

lemma str_find_bracket:
  assumes "CHR '']'' \<notin> set a"
  shows "str_find (CHR '']'') (CHR ''['' # a @ CHR '']'' # r) = Some (length a + 1)"
  using assms by simp

lemma validate_ipv6_host:
  assumes "parse_ipv6 a \<noteq> None" "CHR '']'' \<notin> set a"
  shows "server_name_validate (CHR ''['' # a @ [CHR '']'']) = Inr ()"
    and "parse_unsigned u16_max p \<noteq> None
      \<Longrightarrow> server_name_validate ((CHR ''['' # a @ [CHR '']'']) @ CHR '':'' # p) = Inr ()"
  using assms by (simp_all add: server_name_validate_def nth_append)

lemma validate_host: "host_grammar h \<Longrightarrow> server_name_validate h = Inr ()"
  by (erule host_grammarE) (auto intro: validate_dns_host(1) validate_ipv6_host(1))

lemma validate_host_port:
  assumes "host_grammar h" "parse_unsigned u16_max p \<noteq> None"
  shows "server_name_validate (h @ CHR '':'' # p) = Inr ()"
  using assms(1)
proof (cases rule: host_grammar.cases)
  case dns
  then show ?thesis by (intro validate_dns_host(2) assms(2))
next
  case (ipv6 a)
  then show ?thesis using validate_ipv6_host(2)[OF ipv6(2,3) assms(2)] by simp
qed

lemma server_name_validate_complete: "server_name_grammar s \<Longrightarrow> server_name_validate s = Inr ()"
  by (erule server_name_grammarE) (auto simp only: intro: validate_host validate_host_port)

lemma split_at_port:
  assumes "length s \<noteq> n \<longrightarrow> s ! n = CHR '':'' \<and> parse_unsigned u16_max (drop (n + 1) s) \<noteq> None"
    and "n \<le> length s" and "host_grammar (take n s)"
  shows "server_name_grammar s"
proof (cases "length s = n")
  case True
  with assms(3) show ?thesis by (simp add: bare)
next
  case False
  with assms have "s = take n s @ CHR '':'' # drop (n + 1) s"
    using id_take_nth_drop[of n s] by simp
  with assms(1,3) False show ?thesis using with_port by metis
qed

lemma server_name_validate_sound:
  assumes "server_name_validate s = Inr ()"
  shows "server_name_grammar s"
proof (cases "starts_with (CHR ''['') s")
  case True
  then obtain t where s: "s = CHR ''['' # t" by (auto simp: starts_with_iff)
  from assms s have "str_find (CHR '']'') t \<noteq> None"
    by (cases "str_find (CHR '']'') t") (simp_all add: server_name_validate_def)
  then obtain e where e1: "str_find (CHR '']'') t = Some e" by auto
  from assms s e1 have e2: "parse_ipv6 (take e t) \<noteq> None"
    and port: "length s \<noteq> e + 2 \<longrightarrow> s ! (e + 2) = CHR '':'' \<and> parse_unsigned u16_max (drop (e + 2 + 1) s) \<noteq> None"
    by (auto simp: server_name_validate_def split: if_splits)
  note e = e1 e2
  note sp = str_find_split[OF e(1)]
  have "take (e + 2) s = CHR ''['' # take e t @ [CHR '']'']"
    using s sp(3) e(1) by (simp add: take_Suc_conv_app_nth str_find_Some_iff)
  moreover have "host_grammar (CHR ''['' # take e t @ [CHR '']''])"
    using ipv6[OF e(2) sp(2)] by simp
  ultimately show ?thesis
    using split_at_port[OF port] sp(3) s by simp
next
  case False
  define e where "e = unwrap_or (length s) (str_find (CHR '':'') s)"
  have le: "e \<le> length s"
    using str_find_split(3)[of "CHR '':''" s]
    by (cases "str_find (CHR '':'') s") (simp_all add: e_def)
  from assms False have "s \<noteq> []" "e \<noteq> 0" "list_all dns_byte (take e s)"
    and port: "length s \<noteq> e \<longrightarrow> s ! e = CHR '':'' \<and> parse_unsigned u16_max (drop (e + 1) s) \<noteq> None"
    by (auto simp: server_name_validate_def res_simps Let_def e_def dns_byte_def list_all_iff list_ex_iff
        split: if_splits)
  then have "host_grammar (take e s)" by (auto intro: dns)
  with port le show ?thesis by (rule split_at_port)
qed

lemma server_name_validate_iff: "server_name_validate s = Inr () \<longleftrightarrow> server_name_grammar s"
  using server_name_validate_sound server_name_validate_complete by blast

lemma host_grammar_bracket:
  assumes "host_grammar h"
  obtains (dns) "CHR '']'' \<notin> set h" "CHR '':'' \<notin> set h"
    | (ipv6) a where "h = CHR ''['' # a @ [CHR '']'']" "CHR '']'' \<notin> set a"
  using assms
proof (cases rule: host_grammar.cases)
  case dns
  then show thesis by (intro that(1) list_all_dns_notin)
next
  case (ipv6 a)
  from ipv6(1,3) show thesis by (rule that(2))
qed

lemma server_host_port_bare:
  assumes "host_grammar h"
  shows "server_host h = h" and "server_port h = Inr None"
proof -
  from assms have "server_host h = h \<and> server_port h = Inr None"
  proof (cases rule: host_grammar_bracket)
    case dns
    then show ?thesis by (simp add: server_host_def server_port_def)
  next
    case (ipv6 a)
    with str_find_bracket[OF ipv6(2), of "[]"] show ?thesis
      by (simp add: server_host_def server_port_def)
  qed
  then show "server_host h = h" and "server_port h = Inr None" by auto
qed

lemma server_host_port_with_port:
  assumes "host_grammar h" and "parse_unsigned u16_max p = Some n"
  shows "server_host (h @ CHR '':'' # p) = h" and "server_port (h @ CHR '':'' # p) = Inr (Some n)"
proof -
  have nb: "CHR '']'' \<notin> set p" using parse_unsigned_no_bracket[of u16_max p] assms(2) by simp
  from assms(1) have "server_host (h @ CHR '':'' # p) = h \<and> server_port (h @ CHR '':'' # p) = Inr (Some n)"
  proof (cases rule: host_grammar_bracket)
    case dns
    with nb have "str_find (CHR '']'') (h @ CHR '':'' # p) = None" by simp
    with dns assms(2) show ?thesis by (simp add: server_host_def server_port_def)
  next
    case (ipv6 a)
    with str_find_bracket[OF ipv6(2), of "CHR '':'' # p"] assms(2) show ?thesis
      by (simp add: server_host_def server_port_def nth_append)
  qed
  then show "server_host (h @ CHR '':'' # p) = h" and "server_port (h @ CHR '':'' # p) = Inr (Some n)"
    by auto
qed

section \<open>Identifiers with a sigil, a local part and a server name\<close>

text \<open>The contract shared by user identifiers and room aliases: the validator accepts what the
  generic check for delimited identifiers accepts, for its own sigil.\<close>

locale delimited_id =
  fixes valid :: "string \<Rightarrow> id_error + unit" and sigil :: char
  assumes valid_iff: "valid s = Inr () \<longleftrightarrow> validate_delimited_id s sigil = Inr ()"
    and sigil_not_colon: "sigil \<noteq> CHR '':''"
begin

lemma valid_build:
  assumes "CHR '':'' \<notin> set lp" "server_name_validate sn = Inr ()" "length lp + length sn + 2 \<le> MAX_BYTES"
  shows "valid (sigil # lp @ CHR '':'' # sn) = Inr ()"
  using assms sigil_not_colon
  by (simp add: valid_iff validate_delimited_id_def parse_id_def validate_id_def)

lemma valid_split:
  assumes "valid s = Inr ()"
  obtains lp sn where "s = sigil # lp @ CHR '':'' # sn" "CHR '':'' \<notin> set lp"
    "server_name_validate sn = Inr ()" "length s \<le> MAX_BYTES"
    "colon_idx s = Inr (length lp + 1)"
proof -
  from assms obtain i where hd: "length s \<le> MAX_BYTES" "starts_with sigil s"
    and i: "str_find (CHR '':'') s = Some i" "server_name_validate (drop (i + 1) s) = Inr ()"
    by (auto simp: valid_iff validate_delimited_id_def parse_id_def validate_id_def res_simps split: if_splits)
  from hd(2) obtain t where s: "s = sigil # t" by (auto simp: starts_with_iff)
  with i(1) sigil_not_colon obtain j where j: "str_find (CHR '':'') t = Some j" "i = Suc j" by auto
  note sp = str_find_split[OF j(1)]
  show thesis
  proof (rule that[of "take j t" "drop (Suc j) t"])
    show "s = sigil # take j t @ CHR '':'' # drop (Suc j) t" using s sp(1) by simp
    show "colon_idx s = Inr (length (take j t) + 1)" using i(1) j sp(3) by (simp add: colon_idx_def)
  qed (use sp i j s hd in auto)
qed

lemma valid_shape:
  "valid s = Inr () \<longleftrightarrow> length s \<le> MAX_BYTES \<and>
     (\<exists>lp sn. s = sigil # lp @ CHR '':'' # sn \<and> CHR '':'' \<notin> set lp \<and> server_name_validate sn = Inr ())"
proof
  assume "valid s = Inr ()"
  then show "length s \<le> MAX_BYTES \<and>
     (\<exists>lp sn. s = sigil # lp @ CHR '':'' # sn \<and> CHR '':'' \<notin> set lp \<and> server_name_validate sn = Inr ())"
    by (rule valid_split) blast
qed (auto intro: valid_build)

lemma accessors_concat:
  assumes "valid s = Inr ()"
  obtains lp sn where "map_ok (\<lambda>i. take (i - 1) (drop 1 s)) (colon_idx s) = Inr lp"
    "map_ok (\<lambda>i. drop (i + 1) s) (colon_idx s) = Inr sn" "s = sigil # lp @ CHR '':'' # sn"
    "server_name_validate sn = Inr ()" "CHR '':'' \<notin> set lp"
proof -
  from assms obtain lp sn where *: "s = sigil # lp @ CHR '':'' # sn" "CHR '':'' \<notin> set lp"
    "server_name_validate sn = Inr ()" "colon_idx s = Inr (length lp + 1)"
    by (rule valid_split)
  show thesis by (rule that[of lp sn]) (use * in simp_all)
qed

end

lemma localpart_without_colon:
  "CHR '':'' \<notin> set lp \<Longrightarrow> \<exists>b. localpart_is_fully_conforming lp = Inr b"
  by (simp add: localpart_is_fully_conforming_def)

interpretation uid: delimited_id user_id_validate "CHR ''@''"
proof unfold_locales
  fix s :: string
  show "user_id_validate s = Inr () \<longleftrightarrow> validate_delimited_id s (CHR ''@'') = Inr ()"
  proof (cases "parse_id s (CHR ''@'')")
    case (Inr i)
    then have f: "starts_with (CHR ''@'') s" "str_find (CHR '':'') s = Some i"
      by (auto simp: parse_id_def validate_id_def res_simps split: if_splits)
    then obtain t j where "s = CHR ''@'' # t" "str_find (CHR '':'') t = Some j" "i = Suc j"
      by (auto simp: starts_with_iff)
    then have "CHR '':'' \<notin> set (take (i - 1) (drop 1 s))" using str_find_split(2) by auto
    then obtain b where "localpart_is_fully_conforming (take (i - 1) (drop 1 s)) = Inr b"
      using localpart_without_colon by blast
    with Inr show ?thesis by (simp add: user_id_validate_def validate_delimited_id_def)
  qed (simp add: user_id_validate_def validate_delimited_id_def)
qed simp

interpretation ralias: delimited_id room_alias_id_validate "CHR ''#''"
  by unfold_locales (simp_all add: room_alias_id_validate_def)

section \<open>Properties\<close>

text \<open>C38: A server name is accepted exactly when it is a host, optionally followed by a colon
  and a port that fits sixteen bits, where a host is a non-empty sequence of ASCII letters,
  digits, dots and hyphens or a bracketed IPv6 address.\<close>

theorem server_name_validate_grammar:
  "server_name_validate s = Inr () \<longleftrightarrow> server_name_grammar s"
  by (rule server_name_validate_iff)

text \<open>On every accepted server name \<open>port()\<close> returns without panicking, and the name is its
  \<open>host()\<close> alone or its host, a colon and a text that parses to the returned port.\<close>

theorem server_name_host_port:
  assumes "server_name_validate s = Inr ()"
  shows "(s = server_host s \<and> server_port s = Inr None) \<or>
    (\<exists>p n. s = server_host s @ CHR '':'' # p \<and> parse_unsigned u16_max p = Some n
       \<and> n \<le> u16_max \<and> server_port s = Inr (Some n))"
proof -
  from assms have "server_name_grammar s" by (simp add: server_name_validate_iff)
  then show ?thesis
  proof (cases rule: server_name_grammar.cases)
    case bare
    then show ?thesis using server_host_port_bare[of s] by simp
  next
    case (with_port h p)
    then obtain n where n: "parse_unsigned u16_max p = Some n" by auto
    from server_host_port_with_port[OF with_port(2) n] parse_unsigned_le[OF n] with_port(1) n
    show ?thesis by auto
  qed
qed

theorem server_name_host_port_witness:
  "server_name_validate ''a.b:80'' = Inr () \<and>
   (\<exists>p n. ''a.b:80'' = server_host ''a.b:80'' @ CHR '':'' # p \<and> server_port ''a.b:80'' = Inr (Some n))"
proof -
  have v: "server_name_validate ''a.b:80'' = Inr ()"
    by (simp add: server_name_validate_def std_eval)
  have h: "server_host ''a.b:80'' \<noteq> ''a.b:80''" by (simp add: server_host_def)
  show ?thesis using server_name_host_port[OF v] v h by metis
qed

text \<open>C39: A user identifier is accepted exactly when it has at most 255 bytes and is an at sign, a
  local part without colon, a colon and a valid server name; \<open>localpart()\<close> and
  \<open>server_name()\<close> then return these two parts.\<close>

theorem user_id_validate_characterised:
  "user_id_validate s = Inr () \<longleftrightarrow> length s \<le> MAX_BYTES \<and>
     (\<exists>lp sn. s = CHR ''@'' # lp @ CHR '':'' # sn \<and> CHR '':'' \<notin> set lp
        \<and> server_name_validate sn = Inr ()
        \<and> user_localpart s = Inr lp \<and> user_server_name s = Inr sn)"
proof
  assume v: "user_id_validate s = Inr ()"
  then have "length s \<le> MAX_BYTES" by (simp add: uid.valid_shape)
  with v show "length s \<le> MAX_BYTES \<and>
     (\<exists>lp sn. s = CHR ''@'' # lp @ CHR '':'' # sn \<and> CHR '':'' \<notin> set lp
        \<and> server_name_validate sn = Inr ()
        \<and> user_localpart s = Inr lp \<and> user_server_name s = Inr sn)"
    unfolding user_localpart_def user_server_name_def
    by (elim uid.accessors_concat) blast
qed (auto simp: uid.valid_shape)

lemma mxc_validate_concat:
  assumes "CHR ''/'' \<notin> set sn" "list_all media_id_byte m" "server_name_validate sn = Inr ()"
  shows "mxc_uri_validate (PROTOCOL @ sn @ CHR ''/'' # m) =
    (if as_u8 (length sn + 6) = 0 then Inl Panic else Inr (as_u8 (length sn + 6)))"
  using assms by (simp add: mxc_uri_validate_def)

lemma media_id_byte_ascii: "media_id_byte b \<Longrightarrow> byte b < 128"
  by (auto simp: media_id_byte_def is_ascii_digit_def is_ascii_lower_def is_ascii_upper_def byte_def)

lemma PROTOCOL_length: "length PROTOCOL = 6"
  by (simp add: PROTOCOL_def)

text \<open>Printing a content URI and splitting it again returns the same parts, for every valid
  server name shorter than 250 bytes and every media identifier of allowed bytes.\<close>

theorem mxc_parts_display:
  assumes "server_name_validate (mxc_server_name m) = Inr ()" "CHR ''/'' \<notin> set (mxc_server_name m)"
    and "list_all media_id_byte (mxc_media_id m)" "length (mxc_server_name m) < 250"
  shows "mxc_parts (mxc_display m) = Inr m"
proof -
  let ?n = "length (mxc_server_name m)" and ?s = "mxc_display m"
  have s: "?s = (PROTOCOL @ mxc_server_name m) @ CHR ''/'' # mxc_media_id m"
    by (simp add: mxc_display_def)
  have v: "mxc_uri_validate ?s = Inr (?n + 6)"
    using mxc_validate_concat[OF assms(2,3,1)] assms(4) by (simp add: s)
  have n: "?n + 6 = length (PROTOCOL @ mxc_server_name m)" by (simp add: PROTOCOL_length)
  have b1: "is_char_boundary ?s (?n + 6)"
    unfolding s n is_char_boundary_def by (simp add: byte_def)
  have b2: "is_char_boundary ?s (?n + 6 + 1)"
  proof (cases "mxc_media_id m")
    case Nil
    then show ?thesis unfolding s n is_char_boundary_def by simp
  next
    case (Cons b r)
    then have "byte b < 128" using assms(3) media_id_byte_ascii by simp
    with Cons show ?thesis unfolding s n is_char_boundary_def by (simp add: nth_append)
  qed
  have "take ?n (drop 6 ?s) = mxc_server_name m" "drop (?n + 6 + 1) ?s = mxc_media_id m"
    by (simp_all add: s PROTOCOL_length)
  with v b1 b2 show ?thesis by (simp add: mxc_parts_def)
qed

theorem mxc_parts_display_witness:
  "server_name_validate ''a.b'' = Inr () \<and>
   mxc_parts (mxc_display \<lparr>mxc_server_name = ''a.b'', mxc_media_id = ''x-1''\<rparr>)
     = Inr \<lparr>mxc_server_name = ''a.b'', mxc_media_id = ''x-1''\<rparr>"
proof -
  have v: "server_name_validate ''a.b'' = Inr ()" by (simp add: server_name_validate_def std_eval)
  then show ?thesis
    using mxc_parts_display[of "\<lparr>mxc_server_name = ''a.b'', mxc_media_id = ''x-1''\<rparr>"]
    by (simp add: media_id_byte_def std_eval)
qed

text \<open>Validating a content URI whose (valid) server name has exactly 250 bytes panics: the
  offset of the slash, 256, is narrowed to the byte zero and unwrapped as a \<open>NonZeroU8\<close>.\<close>

theorem mxc_uri_validate_panics:
  assumes "server_name_validate sn = Inr ()" "CHR ''/'' \<notin> set sn" "list_all media_id_byte m"
    and "length sn = 250"
  shows "mxc_uri_validate (PROTOCOL @ sn @ CHR ''/'' # m) = Inl Panic"
  using mxc_validate_concat[OF assms(2,3,1)] assms(4) by (simp add: as_u8_mod)

theorem mxc_uri_validate_panics_witness:
  "mxc_uri_validate (PROTOCOL @ replicate 250 (CHR ''a'') @ CHR ''/'' # ''m'') = Inl Panic"
proof (rule mxc_uri_validate_panics)
  show "server_name_validate (replicate 250 (CHR ''a'')) = Inr ()"
    unfolding server_name_validate_iff
    by (intro bare dns) (simp_all add: list_all_iff dns_byte_def std_eval)
qed (simp_all add: media_id_byte_def std_eval)

lemma colon_idx_concat [simp]:
  "CHR '':'' \<notin> set a \<Longrightarrow> colon_idx (a @ CHR '':'' # k) = Inr (length a)"
  by (simp add: colon_idx_def)

text \<open>C40: A key identifier built by \<open>from_parts\<close> from a colon-free algorithm of 1 to 255 bytes and
  a valid key name is accepted, and \<open>algorithm()\<close> and \<open>key_name()\<close> return its parts; with
  an algorithm of 256 bytes the same identifier is rejected with \<open>MissingColon\<close>.\<close>

theorem key_id_from_parts:
  assumes "CHR '':'' \<notin> set a" "kv k = Inr ()" "k = [] \<or> byte (hd k) < 128"
  shows "(0 < length a \<and> length a < 256 \<longrightarrow>
      key_id_validate kv (key_from_parts a k) = Inr (length a)
      \<and> key_algorithm (key_from_parts a k) = Inr a \<and> key_name kv (key_from_parts a k) = Inr k)
    \<and> (length a = 256 \<longrightarrow> key_id_validate kv (key_from_parts a k) = Inl (Err MissingColon))"
proof -
  have "is_char_boundary (a @ CHR '':'' # k) (Suc (length a))"
    using assms(3) by (cases k) (auto simp: is_char_boundary_def nth_append)
  with assms(1,2) show ?thesis
    by (simp add: key_id_validate_def key_from_parts_def key_algorithm_def key_name_def as_u8_mod)
qed

theorem key_id_from_parts_witness:
  "key_id_validate any_key_name_validate (key_from_parts ''ed25519'' ''1'') = Inr 7 \<and>
   key_id_validate any_key_name_validate (key_from_parts (replicate 256 (CHR ''x'')) ''1'')
     = Inl (Err MissingColon)"
  using key_id_from_parts[of "''ed25519''" any_key_name_validate "''1''"]
    key_id_from_parts[of "replicate 256 (CHR ''x'')" any_key_name_validate "''1''"]
  by (simp add: any_key_name_validate_def byte_def)

lemma nth_concat_pairs: "i < n \<Longrightarrow> concat (replicate n [x, y]) ! Suc (2 * i) = y"
proof (induction n arbitrary: i)
  case (Suc n)
  then show ?case by (cases i) simp_all
qed simp

lemma length_concat_pairs: "length (concat (replicate n [x, y])) = 2 * n"
  by (induction n) simp_all

text \<open>Validating a key identifier panics when the position of its colon, cut to eight bits and
  increased by one, falls inside a multi-byte character: any identifier with 150 two-byte
  characters before the colon does.\<close>

theorem key_id_validate_panics:
  assumes "CHR '':'' \<notin> set a" "length a mod 256 \<noteq> 0"
    and "\<not> is_char_boundary (key_from_parts a k) (length a mod 256 + 1)"
  shows "key_id_validate kv (key_from_parts a k) = Inl Panic"
  using assms by (simp add: key_id_validate_def key_from_parts_def as_u8_mod)

theorem key_id_validate_panics_witness:
  "key_id_validate any_key_name_validate
     (key_from_parts (concat (replicate 150 [CHR 0xC3, CHR 0xA9])) ''1'') = Inl Panic"
proof (rule key_id_validate_panics)
  let ?a = "concat (replicate 150 [CHR 0xC3, CHR 0xA9])"
  have "?a ! 45 = CHR 0xA9" using nth_concat_pairs[of 22 150 "CHR 0xC3" "CHR 0xA9"] by simp
  moreover have l: "length ?a = 300" by (simp add: length_concat_pairs)
  ultimately show "\<not> is_char_boundary (key_from_parts ?a ''1'') (length ?a mod 256 + 1)"
    by (simp add: is_char_boundary_def key_from_parts_def nth_append byte_def)
  show "length ?a mod 256 \<noteq> 0" by (simp add: l)
qed simp

end
