(* ===== verification/Room_Versions.thy ===== *)
theory Room_Versions
  imports Identifiers
begin

text \<open>
  Room versions: the identifier type \<open>RoomVersionId\<close>
  (\<open>core/src/identifiers/room_version_id.rs\<close>) and the rules each version selects
  (\<open>core/src/room_version_rules.rs\<close>).  The struct-update expressions of the source
  (\<open>..Self::V1\<close>) are record updates of the earlier constant.  The items behind the feature
  \<open>unstable-msc2870\<close> are included: the server crate enables it.
\<close>

section \<open>Rules\<close>

datatype room_version_disposition = Stable | Unstable

datatype event_id_format_version = EventIdV1 | EventIdV2 | EventIdV3

datatype room_id_format_version = RoomIdV1 | RoomIdV2

record state_resolution_v2_rules =
  begin_iterative_auth_check_with_empty_state_map :: bool
  consider_conflicted_state_subgraph :: bool

datatype state_resolution_version = StateResV1 | StateResV2 state_resolution_v2_rules

fun v2_rules :: "state_resolution_version \<Rightarrow> state_resolution_v2_rules option" where
  "v2_rules StateResV1 = None"
| "v2_rules (StateResV2 rules) = Some rules"

definition StateResolutionV2Rules_V2_0 :: state_resolution_v2_rules where
  "StateResolutionV2Rules_V2_0 =
     \<lparr>begin_iterative_auth_check_with_empty_state_map = False, consider_conflicted_state_subgraph = False\<rparr>"

definition StateResolutionV2Rules_V2_1 :: state_resolution_v2_rules where
  "StateResolutionV2Rules_V2_1 =
     \<lparr>begin_iterative_auth_check_with_empty_state_map = True, consider_conflicted_state_subgraph = True\<rparr>"

record authorization_rules =
  special_case_room_redaction :: bool
  special_case_room_aliases :: bool
  strict_canonical_json :: bool
  limit_notifications_power_levels :: bool
  knocking :: bool
  restricted_join_rule :: bool
  knock_restricted_join_rule :: bool
  integer_power_levels :: bool
  use_room_create_sender :: bool
  explicitly_privilege_room_creators :: bool
  additional_room_creators :: bool
  room_create_event_id_as_room_id :: bool

definition AuthorizationRules_V1 :: authorization_rules where
  "AuthorizationRules_V1 =
     \<lparr>special_case_room_redaction = True,
      special_case_room_aliases = True,
      strict_canonical_json = False,
      limit_notifications_power_levels = False,
      knocking = False,
      restricted_join_rule = False,
      knock_restricted_join_rule = False,
      integer_power_levels = False,
      use_room_create_sender = False,
      explicitly_privilege_room_creators = False,
      additional_room_creators = False,
      room_create_event_id_as_room_id = False\<rparr>"

definition AuthorizationRules_V3 :: authorization_rules where
  "AuthorizationRules_V3 = AuthorizationRules_V1 \<lparr>special_case_room_redaction := False\<rparr>"

definition AuthorizationRules_V6 :: authorization_rules where
  "AuthorizationRules_V6 = AuthorizationRules_V3
     \<lparr>special_case_room_aliases := False,
      strict_canonical_json := True,
      limit_notifications_power_levels := True\<rparr>"

definition AuthorizationRules_V7 :: authorization_rules where
  "AuthorizationRules_V7 = AuthorizationRules_V6 \<lparr>knocking := True\<rparr>"

definition AuthorizationRules_V8 :: authorization_rules where
  "AuthorizationRules_V8 = AuthorizationRules_V7 \<lparr>restricted_join_rule := True\<rparr>"

definition AuthorizationRules_V10 :: authorization_rules where
  "AuthorizationRules_V10 = AuthorizationRules_V8
     \<lparr>knock_restricted_join_rule := True, integer_power_levels := True\<rparr>"

definition AuthorizationRules_V11 :: authorization_rules where
  "AuthorizationRules_V11 = AuthorizationRules_V10 \<lparr>use_room_create_sender := True\<rparr>"

definition AuthorizationRules_V12 :: authorization_rules where
  "AuthorizationRules_V12 = AuthorizationRules_V11
     \<lparr>explicitly_privilege_room_creators := True,
      additional_room_creators := True,
      room_create_event_id_as_room_id := True\<rparr>"

record redaction_rules =
  keep_room_aliases_aliases :: bool
  keep_room_join_rules_allow :: bool
  keep_room_member_join_authorised_via_users_server :: bool
  keep_origin_membership_prev_state :: bool
  keep_room_create_content :: bool
  keep_room_redaction_redacts :: bool
  keep_room_power_levels_invite :: bool
  keep_room_member_third_party_invite_signed :: bool
  content_field_redacts :: bool
  keep_room_server_acl_allow_deny_allow_ip_literals :: bool

definition RedactionRules_V1 :: redaction_rules where
  "RedactionRules_V1 =
     \<lparr>keep_room_aliases_aliases = True,
      keep_room_join_rules_allow = False,
      keep_room_member_join_authorised_via_users_server = False,
      keep_origin_membership_prev_state = True,
      keep_room_create_content = False,
      keep_room_redaction_redacts = False,
      keep_room_power_levels_invite = False,
      keep_room_member_third_party_invite_signed = False,
      content_field_redacts = False,
      keep_room_server_acl_allow_deny_allow_ip_literals = False\<rparr>"

definition RedactionRules_V6 :: redaction_rules where
  "RedactionRules_V6 = RedactionRules_V1 \<lparr>keep_room_aliases_aliases := False\<rparr>"

definition RedactionRules_V8 :: redaction_rules where
  "RedactionRules_V8 = RedactionRules_V6 \<lparr>keep_room_join_rules_allow := True\<rparr>"

definition RedactionRules_V9 :: redaction_rules where
  "RedactionRules_V9 = RedactionRules_V8
     \<lparr>keep_room_member_join_authorised_via_users_server := True\<rparr>"

definition RedactionRules_V11 :: redaction_rules where
  "RedactionRules_V11 = RedactionRules_V9
     \<lparr>keep_origin_membership_prev_state := False,
      keep_room_create_content := True,
      keep_room_redaction_redacts := True,
      keep_room_power_levels_invite := True,
      keep_room_member_third_party_invite_signed := True,
      content_field_redacts := True\<rparr>"

definition RedactionRules_MSC2870 :: redaction_rules where
  "RedactionRules_MSC2870 = RedactionRules_V11
     \<lparr>keep_room_server_acl_allow_deny_allow_ip_literals := True\<rparr>"

record signatures_rules =
  check_event_id_server :: bool
  check_join_authorised_via_users_server :: bool

definition SignaturesRules_V1 :: signatures_rules where
  "SignaturesRules_V1 = \<lparr>check_event_id_server = True, check_join_authorised_via_users_server = False\<rparr>"

definition SignaturesRules_V3 :: signatures_rules where
  "SignaturesRules_V3 = SignaturesRules_V1 \<lparr>check_event_id_server := False\<rparr>"

definition SignaturesRules_V8 :: signatures_rules where
  "SignaturesRules_V8 = SignaturesRules_V3 \<lparr>check_join_authorised_via_users_server := True\<rparr>"

record event_format_rules =
  require_event_id :: bool
  require_room_create_room_id :: bool
  allow_room_create_in_auth_events :: bool

definition EventFormatRules_V1 :: event_format_rules where
  "EventFormatRules_V1 =
     \<lparr>require_event_id = True, require_room_create_room_id = True, allow_room_create_in_auth_events = True\<rparr>"

definition EventFormatRules_V3 :: event_format_rules where
  "EventFormatRules_V3 = EventFormatRules_V1 \<lparr>require_event_id := False\<rparr>"

definition EventFormatRules_V12 :: event_format_rules where
  "EventFormatRules_V12 = EventFormatRules_V3
     \<lparr>require_room_create_room_id := False, allow_room_create_in_auth_events := False\<rparr>"

record room_version_rules =
  disposition :: room_version_disposition
  event_id_format :: event_id_format_version
  room_id_format :: room_id_format_version
  state_resolution :: state_resolution_version
  enforce_key_validity :: bool
  authorization :: authorization_rules
  redaction :: redaction_rules
  signatures_r :: signatures_rules
  event_format :: event_format_rules

definition RoomVersionRules_V1 :: room_version_rules where
  "RoomVersionRules_V1 =
     \<lparr>disposition = Stable,
      event_id_format = EventIdV1,
      room_id_format = RoomIdV1,
      state_resolution = StateResV1,
      enforce_key_validity = False,
      authorization = AuthorizationRules_V1,
      redaction = RedactionRules_V1,
      signatures_r = SignaturesRules_V1,
      event_format = EventFormatRules_V1\<rparr>"

definition RoomVersionRules_V2 :: room_version_rules where
  "RoomVersionRules_V2 = RoomVersionRules_V1 \<lparr>state_resolution := StateResV2 StateResolutionV2Rules_V2_0\<rparr>"

definition RoomVersionRules_V3 :: room_version_rules where
  "RoomVersionRules_V3 = RoomVersionRules_V2
     \<lparr>event_id_format := EventIdV2,
      authorization := AuthorizationRules_V3,
      signatures_r := SignaturesRules_V3,
      event_format := EventFormatRules_V3\<rparr>"

definition RoomVersionRules_V4 :: room_version_rules where
  "RoomVersionRules_V4 = RoomVersionRules_V3 \<lparr>event_id_format := EventIdV3\<rparr>"

definition RoomVersionRules_V5 :: room_version_rules where
  "RoomVersionRules_V5 = RoomVersionRules_V4 \<lparr>enforce_key_validity := True\<rparr>"

definition RoomVersionRules_V6 :: room_version_rules where
  "RoomVersionRules_V6 = RoomVersionRules_V5
     \<lparr>authorization := AuthorizationRules_V6, redaction := RedactionRules_V6\<rparr>"

definition RoomVersionRules_V7 :: room_version_rules where
  "RoomVersionRules_V7 = RoomVersionRules_V6 \<lparr>authorization := AuthorizationRules_V7\<rparr>"

definition RoomVersionRules_V8 :: room_version_rules where
  "RoomVersionRules_V8 = RoomVersionRules_V7
     \<lparr>authorization := AuthorizationRules_V8,
      redaction := RedactionRules_V8,
      signatures_r := SignaturesRules_V8\<rparr>"

definition RoomVersionRules_V9 :: room_version_rules where
  "RoomVersionRules_V9 = RoomVersionRules_V8 \<lparr>redaction := RedactionRules_V9\<rparr>"

definition RoomVersionRules_V10 :: room_version_rules where
  "RoomVersionRules_V10 = RoomVersionRules_V9 \<lparr>authorization := AuthorizationRules_V10\<rparr>"

definition RoomVersionRules_V11 :: room_version_rules where
  "RoomVersionRules_V11 = RoomVersionRules_V10
     \<lparr>authorization := AuthorizationRules_V11, redaction := RedactionRules_V11\<rparr>"

definition RoomVersionRules_V12 :: room_version_rules where
  "RoomVersionRules_V12 = RoomVersionRules_V11
     \<lparr>room_id_format := RoomIdV2,
      authorization := AuthorizationRules_V12,
      event_format := EventFormatRules_V12,
      state_resolution := StateResV2 StateResolutionV2Rules_V2_1\<rparr>"

definition RoomVersionRules_MSC2870 :: room_version_rules where
  "RoomVersionRules_MSC2870 = RoomVersionRules_V11
     \<lparr>disposition := Unstable, redaction := RedactionRules_MSC2870\<rparr>"

section \<open>Identifiers of room versions\<close>

datatype room_version_id =
    V1 | V2 | V3 | V4 | V5 | V6 | V7 | V8 | V9 | V10 | V11 | V12
  | MSC2870
  | CustomRoomVersion string

fun room_version_as_str :: "room_version_id \<Rightarrow> string" where
  "room_version_as_str V1 = ''1''"
| "room_version_as_str V2 = ''2''"
| "room_version_as_str V3 = ''3''"
| "room_version_as_str V4 = ''4''"
| "room_version_as_str V5 = ''5''"
| "room_version_as_str V6 = ''6''"
| "room_version_as_str V7 = ''7''"
| "room_version_as_str V8 = ''8''"
| "room_version_as_str V9 = ''9''"
| "room_version_as_str V10 = ''10''"
| "room_version_as_str V11 = ''11''"
| "room_version_as_str V12 = ''12''"
| "room_version_as_str MSC2870 = ''org.matrix.msc2870''"
| "room_version_as_str (CustomRoomVersion version) = version"

fun room_version_rules_of :: "room_version_id \<Rightarrow> room_version_rules option" where
  "room_version_rules_of V1 = Some RoomVersionRules_V1"
| "room_version_rules_of V2 = Some RoomVersionRules_V2"
| "room_version_rules_of V3 = Some RoomVersionRules_V3"
| "room_version_rules_of V4 = Some RoomVersionRules_V4"
| "room_version_rules_of V5 = Some RoomVersionRules_V5"
| "room_version_rules_of V6 = Some RoomVersionRules_V6"
| "room_version_rules_of V7 = Some RoomVersionRules_V7"
| "room_version_rules_of V8 = Some RoomVersionRules_V8"
| "room_version_rules_of V9 = Some RoomVersionRules_V9"
| "room_version_rules_of V10 = Some RoomVersionRules_V10"
| "room_version_rules_of V11 = Some RoomVersionRules_V11"
| "room_version_rules_of V12 = Some RoomVersionRules_V12"
| "room_version_rules_of MSC2870 = Some RoomVersionRules_MSC2870"
| "room_version_rules_of (CustomRoomVersion _) = None"

text \<open>\<open>RoomVersionId\<close>s are ordered by their strings.\<close>

definition room_version_cmp_le :: "room_version_id \<Rightarrow> room_version_id \<Rightarrow> bool" where
  "room_version_cmp_le a b \<longleftrightarrow> room_version_as_str a \<le> room_version_as_str b"

definition room_version_try_from :: "(nat \<Rightarrow> bool) \<Rightarrow> string \<Rightarrow> id_error + room_version_id" where
  "room_version_try_from uni s =
     (if s = ''1'' then Inr V1
      else if s = ''2'' then Inr V2
      else if s = ''3'' then Inr V3
      else if s = ''4'' then Inr V4
      else if s = ''5'' then Inr V5
      else if s = ''6'' then Inr V6
      else if s = ''7'' then Inr V7
      else if s = ''8'' then Inr V8
      else if s = ''9'' then Inr V9
      else if s = ''10'' then Inr V10
      else if s = ''11'' then Inr V11
      else if s = ''12'' then Inr V12
      else and_then (room_version_id_validate uni s) (\<lambda>_. Inr (CustomRoomVersion s)))"

definition known_versions :: "room_version_id list" where
  "known_versions = [V1, V2, V3, V4, V5, V6, V7, V8, V9, V10, V11, V12]"

text \<open>The versions that parsing can produce: the numbered ones, and custom ones whose name is a
  valid identifier and not a number in use.  \<open>MSC2870\<close> is not among them.\<close>

definition room_version_wf :: "(nat \<Rightarrow> bool) \<Rightarrow> room_version_id \<Rightarrow> bool" where
  "room_version_wf uni v =
     (case v of
        CustomRoomVersion s \<Rightarrow>
          room_version_id_validate uni s = Inr () \<and> s \<notin> set (map room_version_as_str known_versions)
      | MSC2870 \<Rightarrow> False
      | _ \<Rightarrow> True)"

lemmas auth_rules_defs [ver_defs] =
  AuthorizationRules_V1_def AuthorizationRules_V3_def AuthorizationRules_V6_def
  AuthorizationRules_V7_def AuthorizationRules_V8_def AuthorizationRules_V10_def
  AuthorizationRules_V11_def AuthorizationRules_V12_def

lemmas redaction_rules_defs [ver_defs] =
  RedactionRules_V1_def RedactionRules_V6_def RedactionRules_V8_def RedactionRules_V9_def
  RedactionRules_V11_def RedactionRules_MSC2870_def

lemmas other_rules_defs [ver_defs] =
  StateResolutionV2Rules_V2_0_def StateResolutionV2Rules_V2_1_def
  SignaturesRules_V1_def SignaturesRules_V3_def SignaturesRules_V8_def
  EventFormatRules_V1_def EventFormatRules_V3_def EventFormatRules_V12_def

lemmas room_version_rules_defs [ver_defs] =
  RoomVersionRules_V1_def RoomVersionRules_V2_def RoomVersionRules_V3_def RoomVersionRules_V4_def
  RoomVersionRules_V5_def RoomVersionRules_V6_def RoomVersionRules_V7_def RoomVersionRules_V8_def
  RoomVersionRules_V9_def RoomVersionRules_V10_def RoomVersionRules_V11_def RoomVersionRules_V12_def
  RoomVersionRules_MSC2870_def

lemma rules_of_known:
  "(\<exists>r. room_version_rules_of v = Some r) \<longleftrightarrow> v \<in> set known_versions \<or> v = MSC2870"
  by (cases v) (simp_all add: known_versions_def)

section \<open>Features accumulate\<close>

text \<open>The order on authorization rules in which a newer version is above an older one: the added
  checks stay, the special cases of the first versions stay away.\<close>

definition auth_rules_le :: "authorization_rules \<Rightarrow> authorization_rules \<Rightarrow> bool" where
  "auth_rules_le a b \<longleftrightarrow>
     (special_case_room_redaction b \<longrightarrow> special_case_room_redaction a)
     \<and> (special_case_room_aliases b \<longrightarrow> special_case_room_aliases a)
     \<and> (strict_canonical_json a \<longrightarrow> strict_canonical_json b)
     \<and> (limit_notifications_power_levels a \<longrightarrow> limit_notifications_power_levels b)
     \<and> (knocking a \<longrightarrow> knocking b)
     \<and> (restricted_join_rule a \<longrightarrow> restricted_join_rule b)
     \<and> (knock_restricted_join_rule a \<longrightarrow> knock_restricted_join_rule b)
     \<and> (integer_power_levels a \<longrightarrow> integer_power_levels b)
     \<and> (use_room_create_sender a \<longrightarrow> use_room_create_sender b)
     \<and> (explicitly_privilege_room_creators a \<longrightarrow> explicitly_privilege_room_creators b)
     \<and> (additional_room_creators a \<longrightarrow> additional_room_creators b)
     \<and> (room_create_event_id_as_room_id a \<longrightarrow> room_create_event_id_as_room_id b)"

definition known_auth_rules :: "authorization_rules list" where
  "known_auth_rules = map (\<lambda>v. authorization (the (room_version_rules_of v))) known_versions"

lemma auth_rules_le_refl [simp]: "auth_rules_le a a"
  by (simp add: auth_rules_le_def)

lemma auth_rules_le_trans: "auth_rules_le a b \<Longrightarrow> auth_rules_le b c \<Longrightarrow> auth_rules_le a c"
  unfolding auth_rules_le_def by simp

lemma known_auth_rules_eq:
  "known_auth_rules =
     [AuthorizationRules_V1, AuthorizationRules_V1, AuthorizationRules_V3, AuthorizationRules_V3,
      AuthorizationRules_V3, AuthorizationRules_V6, AuthorizationRules_V7, AuthorizationRules_V8,
      AuthorizationRules_V8, AuthorizationRules_V10, AuthorizationRules_V11, AuthorizationRules_V12]"
  by (simp add: known_auth_rules_def known_versions_def room_version_rules_defs)

lemma known_auth_rules_sorted: "sorted_wrt auth_rules_le known_auth_rules"
proof -
  have steps:
    "auth_rules_le AuthorizationRules_V1 AuthorizationRules_V3"
    "auth_rules_le AuthorizationRules_V3 AuthorizationRules_V6"
    "auth_rules_le AuthorizationRules_V6 AuthorizationRules_V7"
    "auth_rules_le AuthorizationRules_V7 AuthorizationRules_V8"
    "auth_rules_le AuthorizationRules_V8 AuthorizationRules_V10"
    "auth_rules_le AuthorizationRules_V10 AuthorizationRules_V11"
    "auth_rules_le AuthorizationRules_V11 AuthorizationRules_V12"
    by (simp_all add: auth_rules_le_def auth_rules_defs)
  have "transp auth_rules_le" using auth_rules_le_trans by (blast intro: transpI)
  then show ?thesis
    by (simp add: known_auth_rules_eq sorted_wrt2 sorted_wrt1 steps del: sorted_wrt.simps(2))
qed

section \<open>Properties\<close>

text \<open>Parsing a string as a room version gives exactly the well-formed version whose string
  form it is, so that parsing and printing are inverse to each other.\<close>

theorem room_version_round_trip:
  "room_version_try_from uni s = Inr v \<longleftrightarrow> room_version_wf uni v \<and> room_version_as_str v = s"
  by (cases v) (auto simp: room_version_try_from_def room_version_wf_def known_versions_def res_simps
      split: if_splits)

text \<open>The variant \<open>MSC2870\<close> has rules, but parsing its own string form gives a custom version
  without rules, so that no room can select them.\<close>

theorem room_version_msc2870_not_parsed:
  "room_version_rules_of MSC2870 = Some RoomVersionRules_MSC2870
   \<and> room_version_try_from uni (room_version_as_str MSC2870)
       = Inr (CustomRoomVersion (room_version_as_str MSC2870))
   \<and> room_version_rules_of (CustomRoomVersion (room_version_as_str MSC2870)) = None"
  by (simp add: room_version_try_from_def room_version_id_validate_def MAX_CODE_POINTS_def std_eval)

text \<open>The authorization rules grow along the list of room versions: for any two known versions
  the later one keeps every check the earlier one introduced and brings back no special case
  that the earlier one dropped.\<close>

theorem auth_rules_monotone:
  assumes "i \<le> j" "j < length known_versions"
  shows "auth_rules_le (authorization (the (room_version_rules_of (known_versions ! i))))
    (authorization (the (room_version_rules_of (known_versions ! j))))"
proof (cases "i = j")
  case False
  with assms have "auth_rules_le (known_auth_rules ! i) (known_auth_rules ! j)"
    using sorted_wrt_nth_less[OF known_auth_rules_sorted, of i j] by (simp add: known_auth_rules_def)
  with assms show ?thesis by (simp add: known_auth_rules_def)
qed simp

theorem auth_rules_monotone_witness:
  "auth_rules_le (authorization RoomVersionRules_V6) (authorization RoomVersionRules_V12)
   \<and> knocking (authorization RoomVersionRules_V12) \<and> \<not> knocking (authorization RoomVersionRules_V6)"
  using auth_rules_monotone[of 5 11]
  by (simp add: known_versions_def ver_defs)

end
