(* ===== verification/Power_Levels.thy ===== *)
theory Power_Levels
  imports Json Room_Versions
begin

text \<open>
  Power levels as clients of the event content see them: the content of
  \<open>m.room.power_levels\<close>, its redacted form and its defaults, the computed
  \<open>RoomPowerLevels\<close> with its permission queries
  (\<open>core/src/events/room/power_levels.rs\<close>), and the shared defaults
  (\<open>core/src/power_levels.rs\<close>).  \<open>UserPowerLevel\<close>, an integer or infinite, is made a
  linear order.  Event types and user identifiers are their strings.
\<close>

section \<open>Levels of users\<close>

datatype user_power_level = Infinite | IntLevel int

fun user_power_level_le :: "user_power_level \<Rightarrow> user_power_level \<Rightarrow> bool" where
  "user_power_level_le _ Infinite \<longleftrightarrow> True"
| "user_power_level_le Infinite (IntLevel _) \<longleftrightarrow> False"
| "user_power_level_le (IntLevel a) (IntLevel b) \<longleftrightarrow> a \<le> b"

instantiation user_power_level :: linorder
begin

definition less_eq_user_power_level :: "user_power_level \<Rightarrow> user_power_level \<Rightarrow> bool" where
  "less_eq_user_power_level a b \<longleftrightarrow> user_power_level_le a b"

lemma user_power_level_le_simps [simp]:
  "x \<le> Infinite" "\<not> Infinite \<le> IntLevel b" "IntLevel a \<le> IntLevel b \<longleftrightarrow> a \<le> b"
  by (simp_all add: less_eq_user_power_level_def)

definition less_user_power_level :: "user_power_level \<Rightarrow> user_power_level \<Rightarrow> bool" where
  "less_user_power_level a b \<longleftrightarrow> a \<le> b \<and> \<not> b \<le> (a :: user_power_level)"

instance
proof
  fix x y z :: user_power_level
  show "x < y \<longleftrightarrow> x \<le> y \<and> \<not> y \<le> x" by (rule less_user_power_level_def)
  show "x \<le> x" by (cases x) auto
  show "x \<le> y \<Longrightarrow> y \<le> z \<Longrightarrow> x \<le> z" by (cases x; cases y; cases z) auto
  show "x \<le> y \<Longrightarrow> y \<le> x \<Longrightarrow> x = y" by (cases x; cases y) auto
  show "x \<le> y \<or> y \<le> x" by (cases x; cases y) auto
qed

end

lemma user_power_level_less [simp]:
  "IntLevel a < IntLevel b \<longleftrightarrow> a < b" "IntLevel a < Infinite" "\<not> Infinite < x"
  by (auto simp: less_user_power_level_def)

text \<open>\<open>level_ge u i\<close> is the mixed comparison \<open>UserPowerLevel >= i64\<close>, \<open>level_gt\<close> the
  strict one.\<close>

definition level_ge :: "user_power_level \<Rightarrow> int \<Rightarrow> bool" where
  "level_ge u i = (case u of Infinite \<Rightarrow> True | IntLevel n \<Rightarrow> n \<ge> i)"

definition level_gt :: "user_power_level \<Rightarrow> int \<Rightarrow> bool" where
  "level_gt u i = (case u of Infinite \<Rightarrow> True | IntLevel n \<Rightarrow> n > i)"

lemma level_ge_iff: "level_ge u i \<longleftrightarrow> u \<ge> IntLevel i"
  by (cases u) (auto simp: level_ge_def)

lemma level_gt_iff: "level_gt u i \<longleftrightarrow> u > IntLevel i"
  by (cases u) (auto simp: level_gt_def)

lemma level_simps [simp]:
  "level_ge Infinite i" "level_gt Infinite i" "level_ge (IntLevel n) i \<longleftrightarrow> n \<ge> i" "level_gt (IntLevel n) i \<longleftrightarrow> n > i"
  by (simp_all add: level_ge_def level_gt_def)

section \<open>Contents\<close>

definition default_power_level :: int where "default_power_level = 50"

record notification_power_levels =
  npl_room :: int

definition notification_new :: notification_power_levels where
  "notification_new = \<lparr>npl_room = default_power_level\<rparr>"

definition notification_get :: "notification_power_levels \<Rightarrow> string \<Rightarrow> int option" where
  "notification_get n key = (if key = ''room'' then Some (npl_room n) else None)"

definition notification_is_default :: "notification_power_levels \<Rightarrow> bool" where
  "notification_is_default n \<longleftrightarrow> npl_room n = default_power_level"

text \<open>The redacted content has all fields but the notification levels; the full content and
  \<open>RoomPowerLevels\<close> extend it.\<close>

record redacted_power_levels =
  pl_ban :: int
  pl_events :: "(string, int) btree"
  pl_events_default :: int
  pl_invite :: int
  pl_kick :: int
  pl_redact :: int
  pl_state_default :: int
  pl_users :: "(string, int) btree"
  pl_users_default :: int

record power_levels_content = redacted_power_levels +
  pl_notifications :: notification_power_levels

record room_power_levels_rules =
  privileged_creators :: "string set option"

record room_power_levels = power_levels_content +
  pl_rules :: room_power_levels_rules

definition RoomTombstone :: string where "RoomTombstone = ''m.room.tombstone''"

definition power_levels_content_new :: "authorization_rules \<Rightarrow> power_levels_content" where
  "power_levels_content_new rules =
     (let pl = \<lparr>pl_ban = default_power_level, pl_events = [], pl_events_default = 0, pl_invite = 50,
                pl_kick = default_power_level, pl_redact = default_power_level,
                pl_state_default = default_power_level, pl_users = [], pl_users_default = 0,
                pl_notifications = notification_new\<rparr>
      in if explicitly_privilege_room_creators rules
         then pl \<lparr>pl_events := bt_insert RoomTombstone 150 (pl_events pl)\<rparr>
         else pl)"

definition power_levels_redact ::
  "power_levels_content \<Rightarrow> redaction_rules \<Rightarrow> redacted_power_levels" where
  "power_levels_redact c rules =
     \<lparr>pl_ban = pl_ban c, pl_events = pl_events c, pl_events_default = pl_events_default c,
      pl_invite = (if keep_room_power_levels_invite rules then pl_invite c else 0),
      pl_kick = pl_kick c, pl_redact = pl_redact c, pl_state_default = pl_state_default c,
      pl_users = pl_users c, pl_users_default = pl_users_default c\<rparr>"

section \<open>Reading contents\<close>

text \<open>Aliases of event types that \<open>TimelineEventType\<close> maps to another name
  (\<open>events/enums.rs\<close>, with the features the server crate enables).\<close>

definition event_type_aliases :: "(string \<times> string) list" where
  "event_type_aliases =
     [(''m.audio'', ''org.matrix.msc1767.audio''),
      (''org.matrix.call.sdp_stream_metadata_changed'', ''m.call.sdp_stream_metadata_changed''),
      (''m.emote'', ''org.matrix.msc1767.emote''),
      (''m.encrypted'', ''org.matrix.msc1767.encrypted''),
      (''m.file'', ''org.matrix.msc1767.file''),
      (''m.image'', ''org.matrix.msc1767.image''),
      (''m.message'', ''org.matrix.msc1767.message''),
      (''m.beacon'', ''org.matrix.msc3672.beacon''),
      (''m.video'', ''org.matrix.msc1767.video''),
      (''m.voice'', ''org.matrix.msc3245.voice.v2''),
      (''m.call.notify'', ''org.matrix.msc4075.call.notify''),
      (''m.rtc.notification'', ''org.matrix.msc4075.rtc.notification''),
      (''m.rtc.decline'', ''org.matrix.msc4310.rtc.decline''),
      (''m.image_pack'', ''m.room.image_pack''),
      (''im.ponies.room_emotes'', ''m.room.image_pack''),
      (''m.beacon_info'', ''org.matrix.msc3672.beacon_info''),
      (''m.call.member'', ''org.matrix.msc3401.call.member''),
      (''m.member_hints'', ''io.element.functional_members'')]"

definition event_type_from_str :: "string \<Rightarrow> string" where
  "event_type_from_str s = unwrap_or s (map_of event_type_aliases s)"

definition de_event_type :: "string \<Rightarrow> de_error + string" where
  "de_event_type s = Inr (event_type_from_str s)"

definition de_user_id :: "string \<Rightarrow> de_error + string" where
  "de_user_id s = (if is_ok (user_id_validate s) then Inr s else Inl DeError)"

definition de_notifications :: "json \<Rightarrow> de_error + notification_power_levels" where
  "de_notifications j =
     and_then (struct_fields [(''room'', True)] j) (\<lambda>fs.
     map_ok (\<lambda>n. \<lparr>npl_room = n\<rparr>) (or_default default_power_level deserialize_v1_power_level (fs ! 0)))"

definition content_field_names :: "string list" where
  "content_field_names =
     [''ban'', ''events'', ''events_default'', ''invite'', ''kick'', ''redact'', ''state_default'',
      ''users'', ''users_default'', ''notifications'']"

definition de_power_levels_content :: "json \<Rightarrow> de_error + power_levels_content" where
  "de_power_levels_content j =
     and_then (struct_fields (map (\<lambda>n. (n, True)) content_field_names) j) (\<lambda>fs.
     and_then (or_default default_power_level deserialize_v1_power_level (fs ! 0)) (\<lambda>ban.
     and_then (or_default [] (btreemap_deserialize_v1_power_level_values de_event_type) (fs ! 1)) (\<lambda>events.
     and_then (or_default 0 deserialize_v1_power_level (fs ! 2)) (\<lambda>events_default.
     and_then (or_default default_power_level deserialize_v1_power_level (fs ! 3)) (\<lambda>invite.
     and_then (or_default default_power_level deserialize_v1_power_level (fs ! 4)) (\<lambda>kick.
     and_then (or_default default_power_level deserialize_v1_power_level (fs ! 5)) (\<lambda>redact.
     and_then (or_default default_power_level deserialize_v1_power_level (fs ! 6)) (\<lambda>state_default.
     and_then (or_default [] (btreemap_deserialize_v1_power_level_values de_user_id) (fs ! 7)) (\<lambda>users.
     and_then (or_default 0 deserialize_v1_power_level (fs ! 8)) (\<lambda>users_default.
     and_then (or_default notification_new de_notifications (fs ! 9)) (\<lambda>notifications.
     Inr \<lparr>pl_ban = ban, pl_events = events, pl_events_default = events_default, pl_invite = invite,
          pl_kick = kick, pl_redact = redact, pl_state_default = state_default, pl_users = users,
          pl_users_default = users_default, pl_notifications = notifications\<rparr>)))))))))))"

section \<open>Room power levels\<close>

definition room_power_levels_rules_new ::
  "authorization_rules \<Rightarrow> string list \<Rightarrow> room_power_levels_rules" where
  "room_power_levels_rules_new rules creators =
     \<lparr>privileged_creators = (if explicitly_privilege_room_creators rules then Some (set creators) else None)\<rparr>"

datatype room_power_levels_source =
    Original power_levels_content
  | Redacted redacted_power_levels
  | NoSource

definition room_power_levels_new ::
  "room_power_levels_source \<Rightarrow> authorization_rules \<Rightarrow> string list \<Rightarrow> room_power_levels" where
  "room_power_levels_new power_levels rules creators =
     (case power_levels of
        Original c \<Rightarrow>
          \<lparr>pl_ban = pl_ban c, pl_events = pl_events c, pl_events_default = pl_events_default c,
           pl_invite = pl_invite c, pl_kick = pl_kick c, pl_redact = pl_redact c,
           pl_state_default = pl_state_default c, pl_users = pl_users c,
           pl_users_default = pl_users_default c, pl_notifications = pl_notifications c,
           pl_rules = room_power_levels_rules_new rules creators\<rparr>
      | Redacted c \<Rightarrow>
          \<lparr>pl_ban = pl_ban c, pl_events = pl_events c, pl_events_default = pl_events_default c,
           pl_invite = pl_invite c, pl_kick = pl_kick c, pl_redact = pl_redact c,
           pl_state_default = pl_state_default c, pl_users = pl_users c,
           pl_users_default = pl_users_default c, pl_notifications = notification_new,
           pl_rules = room_power_levels_rules_new rules creators\<rparr>
      | NoSource \<Rightarrow>
          \<lparr>pl_ban = default_power_level, pl_events = [], pl_events_default = 0,
           pl_invite = 0, pl_kick = default_power_level, pl_redact = default_power_level,
           pl_state_default = default_power_level,
           pl_users = (if explicitly_privilege_room_creators rules then []
                       else bt_from_iter (map (\<lambda>user. (user, 100)) creators)),
           pl_users_default = 0, pl_notifications = notification_new,
           pl_rules = room_power_levels_rules_new rules creators\<rparr>)"

definition is_privileged_creator :: "room_power_levels \<Rightarrow> string \<Rightarrow> bool" where
  "is_privileged_creator pl user_id =
     (case privileged_creators (pl_rules pl) of None \<Rightarrow> False | Some creators \<Rightarrow> user_id \<in> creators)"

definition for_user :: "room_power_levels \<Rightarrow> string \<Rightarrow> user_power_level" where
  "for_user pl user_id =
     (if is_privileged_creator pl user_id then Infinite
      else IntLevel (unwrap_or (pl_users_default pl) (bt_get (pl_users pl) user_id)))"

definition for_message :: "room_power_levels \<Rightarrow> string \<Rightarrow> int" where
  "for_message pl msg_type = unwrap_or (pl_events_default pl) (bt_get (pl_events pl) msg_type)"

definition for_state :: "room_power_levels \<Rightarrow> string \<Rightarrow> int" where
  "for_state pl state_type = unwrap_or (pl_state_default pl) (bt_get (pl_events pl) state_type)"

datatype notification_power_level_type = NotifyRoom

datatype power_level_action =
    ActBan | ActUnban | ActInvite | ActKick | ActRedactOwn | ActRedactOther
  | ActSendMessage string | ActSendState string | ActTriggerNotification notification_power_level_type

datatype power_level_user_action = UserBan | UserUnban | UserInvite | UserKick | UserChangePowerLevel

definition RedactionType :: string where "RedactionType = ''m.room.redaction''"
definition PowerLevelsType :: string where "PowerLevelsType = ''m.room.power_levels''"

fun for_action :: "room_power_levels \<Rightarrow> power_level_action \<Rightarrow> int" where
  "for_action pl ActBan = pl_ban pl"
| "for_action pl ActUnban = max (pl_ban pl) (pl_kick pl)"
| "for_action pl ActInvite = pl_invite pl"
| "for_action pl ActKick = pl_kick pl"
| "for_action pl ActRedactOwn = for_message pl RedactionType"
| "for_action pl ActRedactOther = max (pl_redact pl) (for_message pl RedactionType)"
| "for_action pl (ActSendMessage msg_type) = for_message pl msg_type"
| "for_action pl (ActSendState state_type) = for_state pl state_type"
| "for_action pl (ActTriggerNotification NotifyRoom) = npl_room (pl_notifications pl)"

definition user_can_ban :: "room_power_levels \<Rightarrow> string \<Rightarrow> bool" where
  "user_can_ban pl u \<longleftrightarrow> level_ge (for_user pl u) (pl_ban pl)"

definition user_can_ban_user :: "room_power_levels \<Rightarrow> string \<Rightarrow> string \<Rightarrow> bool" where
  "user_can_ban_user pl acting target \<longleftrightarrow>
     (let acting_pl = for_user pl acting; target_pl = for_user pl target
      in level_ge acting_pl (pl_ban pl) \<and> target_pl < acting_pl)"

definition user_can_unban :: "room_power_levels \<Rightarrow> string \<Rightarrow> bool" where
  "user_can_unban pl u \<longleftrightarrow> (let l = for_user pl u in level_ge l (pl_ban pl) \<and> level_ge l (pl_kick pl))"

definition user_can_unban_user :: "room_power_levels \<Rightarrow> string \<Rightarrow> string \<Rightarrow> bool" where
  "user_can_unban_user pl acting target \<longleftrightarrow>
     (let acting_pl = for_user pl acting; target_pl = for_user pl target
      in level_ge acting_pl (pl_ban pl) \<and> level_ge acting_pl (pl_kick pl) \<and> target_pl < acting_pl)"

definition user_can_invite :: "room_power_levels \<Rightarrow> string \<Rightarrow> bool" where
  "user_can_invite pl u \<longleftrightarrow> level_ge (for_user pl u) (pl_invite pl)"

definition user_can_kick :: "room_power_levels \<Rightarrow> string \<Rightarrow> bool" where
  "user_can_kick pl u \<longleftrightarrow> level_ge (for_user pl u) (pl_kick pl)"

definition user_can_kick_user :: "room_power_levels \<Rightarrow> string \<Rightarrow> string \<Rightarrow> bool" where
  "user_can_kick_user pl acting target \<longleftrightarrow>
     (let acting_pl = for_user pl acting; target_pl = for_user pl target
      in level_ge acting_pl (pl_kick pl) \<and> target_pl < acting_pl)"

definition user_can_send_message :: "room_power_levels \<Rightarrow> string \<Rightarrow> string \<Rightarrow> bool" where
  "user_can_send_message pl u msg_type \<longleftrightarrow> level_ge (for_user pl u) (for_message pl msg_type)"

definition user_can_send_state :: "room_power_levels \<Rightarrow> string \<Rightarrow> string \<Rightarrow> bool" where
  "user_can_send_state pl u state_type \<longleftrightarrow> level_ge (for_user pl u) (for_state pl state_type)"

definition user_can_redact_own_event :: "room_power_levels \<Rightarrow> string \<Rightarrow> bool" where
  "user_can_redact_own_event pl u \<longleftrightarrow> user_can_send_message pl u RedactionType"

definition user_can_redact_event_of_other :: "room_power_levels \<Rightarrow> string \<Rightarrow> bool" where
  "user_can_redact_event_of_other pl u \<longleftrightarrow>
     user_can_redact_own_event pl u \<and> level_ge (for_user pl u) (pl_redact pl)"

definition user_can_trigger_room_notification :: "room_power_levels \<Rightarrow> string \<Rightarrow> bool" where
  "user_can_trigger_room_notification pl u \<longleftrightarrow>
     level_ge (for_user pl u) (npl_room (pl_notifications pl))"

definition user_can_change_user_power_level :: "room_power_levels \<Rightarrow> string \<Rightarrow> string \<Rightarrow> bool" where
  "user_can_change_user_power_level pl acting target =
     (if \<not> user_can_send_state pl acting PowerLevelsType then False
      else if is_privileged_creator pl target then False
      else if acting = target then True
      else case bt_get (pl_users pl) target of
             Some target_pl \<Rightarrow> level_gt (for_user pl acting) target_pl
           | None \<Rightarrow> True)"

fun user_can_do :: "room_power_levels \<Rightarrow> string \<Rightarrow> power_level_action \<Rightarrow> bool" where
  "user_can_do pl u ActBan = user_can_ban pl u"
| "user_can_do pl u ActUnban = user_can_unban pl u"
| "user_can_do pl u ActInvite = user_can_invite pl u"
| "user_can_do pl u ActKick = user_can_kick pl u"
| "user_can_do pl u ActRedactOwn = user_can_redact_own_event pl u"
| "user_can_do pl u ActRedactOther = user_can_redact_event_of_other pl u"
| "user_can_do pl u (ActSendMessage t) = user_can_send_message pl u t"
| "user_can_do pl u (ActSendState t) = user_can_send_state pl u t"
| "user_can_do pl u (ActTriggerNotification NotifyRoom) = user_can_trigger_room_notification pl u"

fun user_can_do_to_user :: "room_power_levels \<Rightarrow> string \<Rightarrow> string \<Rightarrow> power_level_user_action \<Rightarrow> bool" where
  "user_can_do_to_user pl acting target UserBan = user_can_ban_user pl acting target"
| "user_can_do_to_user pl acting target UserUnban = user_can_unban_user pl acting target"
| "user_can_do_to_user pl acting target UserInvite = user_can_invite pl acting"
| "user_can_do_to_user pl acting target UserKick = user_can_kick_user pl acting target"
| "user_can_do_to_user pl acting target UserChangePowerLevel = user_can_change_user_power_level pl acting target"

definition max_level :: "room_power_levels \<Rightarrow> int" where
  "max_level pl = fold (\<lambda>e m. max m (snd e)) (pl_users pl) (pl_users_default pl)"

datatype power_levels_error = CreatorInUsersMap

definition power_levels_try_from ::
  "room_power_levels \<Rightarrow> power_levels_error + power_levels_content" where
  "power_levels_try_from c =
     (if (case privileged_creators (pl_rules c) of
            None \<Rightarrow> False
          | Some creators \<Rightarrow> pl_users c \<noteq> [] \<and> list_ex (\<lambda>e. fst e \<in> creators) (pl_users c))
      then Inl CreatorInUsersMap
      else Inr \<lparr>pl_ban = pl_ban c, pl_events = pl_events c, pl_events_default = pl_events_default c,
                pl_invite = pl_invite c, pl_kick = pl_kick c, pl_redact = pl_redact c,
                pl_state_default = pl_state_default c, pl_users = pl_users c,
                pl_users_default = pl_users_default c, pl_notifications = pl_notifications c\<rparr>)"

section \<open>Facts\<close>

lemma for_user_privileged: "is_privileged_creator pl u \<Longrightarrow> for_user pl u = Infinite"
  by (simp add: for_user_def)

lemma for_user_Infinite_iff: "for_user pl u = Infinite \<longleftrightarrow> is_privileged_creator pl u"
  by (simp add: for_user_def)

lemma level_ge_max [simp]: "level_ge l (max a b) \<longleftrightarrow> level_ge l a \<and> level_ge l b"
  by (cases l) auto

lemmas user_can_defs = user_can_ban_def user_can_unban_def user_can_invite_def user_can_kick_def
  user_can_redact_own_event_def user_can_redact_event_of_other_def user_can_send_message_def
  user_can_send_state_def user_can_trigger_room_notification_def

lemmas user_can_to_user_defs = user_can_ban_user_def user_can_unban_user_def user_can_kick_user_def

lemma fold_max_bounds:
  "m \<le> fold (\<lambda>e m. max m (snd e)) es m \<and> (\<forall>e\<in>set es. snd e \<le> fold (\<lambda>e m. max m (snd e)) es (m :: int))
   \<and> fold (\<lambda>e m. max m (snd e)) es m \<in> insert m (snd ` set es)"
proof (induction es arbitrary: m)
  case (Cons e es)
  from Cons[of "max m (snd e)"] show ?case by (auto simp: max_def split: if_splits)
qed simp

section \<open>Properties\<close>

text \<open>A user may perform an action exactly when their level is at least the level
  \<open>for_action\<close> reports for it, for every action.\<close>

theorem user_can_do_iff_level:
  "user_can_do pl u a \<longleftrightarrow> for_user pl u \<ge> IntLevel (for_action pl a)"
  unfolding level_ge_iff[symmetric]
  by (cases "(pl, u, a)" rule: user_can_do.cases) (auto simp: user_can_defs Let_def)

text \<open>Banning, unbanning and kicking need a strictly higher level than the target has:
  whoever may do one of them to a user cannot suffer any of them from that user, and a
  privileged creator can never be the target.\<close>

theorem moderation_is_strict:
  assumes "act \<in> {UserBan, UserUnban, UserKick}" "act' \<in> {UserBan, UserUnban, UserKick}"
    and "user_can_do_to_user pl a b act"
  shows "for_user pl b < for_user pl a \<and> \<not> user_can_do_to_user pl b a act'
    \<and> \<not> is_privileged_creator pl b"
proof -
  from assms(1,3) have lt: "for_user pl b < for_user pl a"
    by (auto simp: user_can_to_user_defs Let_def)
  moreover from lt assms(2) have "\<not> user_can_do_to_user pl b a act'"
    by (auto simp: user_can_to_user_defs Let_def)
  moreover from lt have "\<not> is_privileged_creator pl b"
    using for_user_privileged[of pl b] by auto
  ultimately show ?thesis by simp
qed

theorem moderation_is_strict_witness:
  "user_can_do_to_user (room_power_levels_new NoSource AuthorizationRules_V11 [''@c:h'']) ''@c:h'' ''@u:h'' UserKick
   \<and> \<not> user_can_do_to_user (room_power_levels_new NoSource AuthorizationRules_V11 [''@c:h'']) ''@u:h'' ''@c:h'' UserBan"
proof -
  let ?pl = "room_power_levels_new NoSource AuthorizationRules_V11 [''@c:h'']"
  have can: "user_can_do_to_user ?pl ''@c:h'' ''@u:h'' UserKick"
    by (simp add: room_power_levels_new_def user_can_kick_user_def for_user_def is_privileged_creator_def
        room_power_levels_rules_new_def bt_from_iter_def default_power_level_def ver_defs)
  with moderation_is_strict[of UserKick UserBan ?pl "''@c:h''" "''@u:h''"] show ?thesis by simp
qed

text \<open>Turning power levels back into event content returns the content they were computed
  from, except in a room version that privileges its creators, where a creator listed among
  the users is an error.\<close>

theorem power_levels_try_from_new:
  "power_levels_try_from (room_power_levels_new (Original c) rules creators) =
     (if explicitly_privilege_room_creators rules \<and> (\<exists>u\<in>set creators. u \<in> fst ` set (pl_users c))
      then Inl CreatorInUsersMap else Inr c)"
  by (auto simp: power_levels_try_from_def room_power_levels_new_def room_power_levels_rules_new_def
      list_ex_iff)

text \<open>\<open>max()\<close> bounds the level of every user that is not a privileged creator, and it is the
  default level or the level of a listed user.\<close>

theorem max_level_is_maximum:
  "(is_privileged_creator pl u \<or> for_user pl u \<le> IntLevel (max_level pl))
   \<and> max_level pl \<in> insert (pl_users_default pl) (snd ` set (pl_users pl))"
proof -
  note b = fold_max_bounds[of "pl_users_default pl" "pl_users pl", folded max_level_def]
  have "unwrap_or (pl_users_default pl) (bt_get (pl_users pl) u) \<le> max_level pl"
    using b by (cases "bt_get (pl_users pl) u") (auto dest!: map_of_SomeD)
  with b show ?thesis by (simp add: for_user_def)
qed

end
