(* ===== verification/Canonical_Json.thy ===== *)
theory Canonical_Json
  imports Json
begin

text \<open>
  Canonical JSON: the value type with its conversions from and to plain JSON values
  (\<open>core/src/serde/canonical_json/value.rs\<close>), the checks of \<open>canonical_json.rs\<close> and the
  serializer applied to a plain JSON value (\<open>serializer.rs\<close>).  Integers of the canonical form
  lie between \<open>-(2^53-1)\<close> and \<open>2^53-1\<close>; \<open>cjson_in_range\<close> states this of every integer
  inside a value.
\<close>

datatype cjson =
    CNull
  | CBool bool
  | CInteger int
  | CString string
  | CArray "cjson list"
  | CObject "(string \<times> cjson) list"

type_synonym cobject = "(string, cjson) btree"

datatype canonical_json_error =
    IntegerOutOfRange
  | InvalidType string
  | InvalidObjectKeyType string
  | DuplicateObjectKey string
  | InvalidRawValue
  | OtherError string

definition CANONICALJSON_MAX_INT :: int where "CANONICALJSON_MAX_INT = 2 ^ 53 - 1"
definition CANONICALJSON_MIN_INT :: int where "CANONICALJSON_MIN_INT = - CANONICALJSON_MAX_INT"

section \<open>Accessors\<close>

fun as_bool :: "cjson \<Rightarrow> bool option" where
  "as_bool (CBool b) = Some b" | "as_bool _ = None"

fun as_integer :: "cjson \<Rightarrow> int option" where
  "as_integer (CInteger n) = Some n" | "as_integer _ = None"

fun as_str :: "cjson \<Rightarrow> string option" where
  "as_str (CString s) = Some s" | "as_str _ = None"

fun as_array :: "cjson \<Rightarrow> cjson list option" where
  "as_array (CArray vs) = Some vs" | "as_array _ = None"

fun as_object :: "cjson \<Rightarrow> cobject option" where
  "as_object (CObject m) = Some m" | "as_object _ = None"

section \<open>Conversions\<close>

text \<open>\<open>TryFrom<JsonValue>\<close>: only floats and integers beyond \<open>i64\<close> are refused.\<close>

fun value_try_from :: "json \<Rightarrow> canonical_json_error + cjson"
  and values_try_from :: "json list \<Rightarrow> canonical_json_error + cjson list"
  and entries_try_from :: "(string \<times> json) list \<Rightarrow> canonical_json_error + (string \<times> cjson) list" where
  "value_try_from JNull = Inr CNull"
| "value_try_from (JBool b) = Inr (CBool b)"
| "value_try_from (JFloat _) = Inl (InvalidType ''float'')"
| "value_try_from (JInt n) = (if i64_min \<le> n \<and> n \<le> i64_max then Inr (CInteger n) else Inl IntegerOutOfRange)"
| "value_try_from (JStr s) = Inr (CString s)"
| "value_try_from (JArr vs) = map_ok CArray (values_try_from vs)"
| "value_try_from (JObj es) = map_ok (\<lambda>cs. CObject (bt_from_iter cs)) (entries_try_from es)"
| "values_try_from [] = Inr []"
| "values_try_from (v # vs) = and_then (value_try_from v) (\<lambda>c. map_ok (Cons c) (values_try_from vs))"
| "entries_try_from [] = Inr []"
| "entries_try_from ((k, v) # es) =
     and_then (value_try_from v) (\<lambda>c. map_ok (Cons (k, c)) (entries_try_from es))"

definition try_from_json_map :: "(string \<times> json) list \<Rightarrow> canonical_json_error + cobject" where
  "try_from_json_map es = map_ok bt_from_iter (entries_try_from es)"

fun value_into_json :: "cjson \<Rightarrow> json" where
  "value_into_json CNull = JNull"
| "value_into_json (CBool b) = JBool b"
| "value_into_json (CInteger n) = JInt n"
| "value_into_json (CString s) = JStr s"
| "value_into_json (CArray vs) = JArr (map value_into_json vs)"
| "value_into_json (CObject m) = JObj (map (\<lambda>e. (fst e, value_into_json (snd e))) m)"

definition cjson_from_u64 :: "nat \<Rightarrow> cjson" where
  "cjson_from_u64 v = CInteger (as_i64 v)"

section \<open>The serializer\<close>

definition serialize_i64 :: "int \<Rightarrow> canonical_json_error + cjson" where
  "serialize_i64 v =
     (if \<not> (CANONICALJSON_MIN_INT \<le> v \<and> v \<le> CANONICALJSON_MAX_INT) then Inl IntegerOutOfRange
      else Inr (CInteger v))"

definition serialize_u64 :: "nat \<Rightarrow> canonical_json_error + cjson" where
  "serialize_u64 v =
     (if int v > CANONICALJSON_MAX_INT then Inl IntegerOutOfRange else Inr (CInteger (as_i64 v)))"

text \<open>Numbers of \<open>serde_json\<close> serialize as \<open>u64\<close> when they are not negative.\<close>

fun to_canonical_value :: "json \<Rightarrow> canonical_json_error + cjson"
  and serialize_elements :: "json list \<Rightarrow> canonical_json_error + cjson list"
  and serialize_entries :: "(string \<times> json) list \<Rightarrow> cobject \<Rightarrow> canonical_json_error + cobject" where
  "to_canonical_value JNull = Inr CNull"
| "to_canonical_value (JBool b) = Inr (CBool b)"
| "to_canonical_value (JFloat _) = Inl (InvalidType ''float'')"
| "to_canonical_value (JInt n) = (if n \<ge> 0 then serialize_u64 (nat n) else serialize_i64 n)"
| "to_canonical_value (JStr s) = Inr (CString s)"
| "to_canonical_value (JArr vs) = map_ok CArray (serialize_elements vs)"
| "to_canonical_value (JObj es) = map_ok CObject (serialize_entries es [])"
| "serialize_elements [] = Inr []"
| "serialize_elements (v # vs) =
     and_then (to_canonical_value v) (\<lambda>c. map_ok (Cons c) (serialize_elements vs))"
| "serialize_entries [] m = Inr m"
| "serialize_entries ((k, v) # es) m =
     (if bt_get m k \<noteq> None then Inl (DuplicateObjectKey k)
      else and_then (to_canonical_value v) (\<lambda>c. serialize_entries es (bt_insert k c m)))"

definition to_canonical_object :: "json \<Rightarrow> canonical_json_error + cobject" where
  "to_canonical_object v =
     and_then (to_canonical_value v) (\<lambda>c.
     case c of CObject obj \<Rightarrow> Inr obj | _ \<Rightarrow> Inl (OtherError ''Value must be an object''))"

section \<open>The check of parsed objects\<close>

fun validate_canonical_json :: "(string \<times> cjson) list \<Rightarrow> canonical_json_error + unit"
  and validate_value :: "cjson \<Rightarrow> canonical_json_error + unit"
  and validate_items :: "cjson list \<Rightarrow> canonical_json_error + unit" where
  "validate_canonical_json [] = Inr ()"
| "validate_canonical_json ((k, v) # es) = and_then (validate_value v) (\<lambda>_. validate_canonical_json es)"
| "validate_value (CObject obj) = validate_canonical_json obj"
| "validate_value (CArray arr) = validate_items arr"
| "validate_value (CInteger n) =
     (if n < CANONICALJSON_MIN_INT \<or> n > CANONICALJSON_MAX_INT then Inl IntegerOutOfRange else Inr ())"
| "validate_value CNull = Inr ()"
| "validate_value (CBool b) = Inr ()"
| "validate_value (CString s) = Inr ()"
| "validate_items [] = Inr ()"
| "validate_items (item # items) =
     (case item of
        CObject obj \<Rightarrow> and_then (validate_canonical_json obj) (\<lambda>_. validate_items items)
      | _ \<Rightarrow> validate_items items)"

section \<open>What canonical means\<close>

fun cjson_in_range :: "cjson \<Rightarrow> bool" where
  "cjson_in_range (CInteger n) \<longleftrightarrow> CANONICALJSON_MIN_INT \<le> n \<and> n \<le> CANONICALJSON_MAX_INT"
| "cjson_in_range (CArray vs) \<longleftrightarrow> list_all cjson_in_range vs"
| "cjson_in_range (CObject m) \<longleftrightarrow> list_all (\<lambda>e. cjson_in_range (snd e)) m"
| "cjson_in_range _ \<longleftrightarrow> True"

fun cjson_wf :: "cjson \<Rightarrow> bool" where
  "cjson_wf (CArray vs) \<longleftrightarrow> list_all cjson_wf vs"
| "cjson_wf (CObject m) \<longleftrightarrow> bt_inv m \<and> list_all (\<lambda>e. cjson_wf (snd e)) m"
| "cjson_wf _ \<longleftrightarrow> True"

lemma serialize_u64_Inr:
  "serialize_u64 v = Inr c \<longleftrightarrow> int v \<le> CANONICALJSON_MAX_INT \<and> c = CInteger (int v)"
  by (auto simp: serialize_u64_def CANONICALJSON_MAX_INT_def as_i64_small)

lemma serialize_i64_Inr:
  "serialize_i64 v = Inr c \<longleftrightarrow> CANONICALJSON_MIN_INT \<le> v \<and> v \<le> CANONICALJSON_MAX_INT \<and> c = CInteger v"
  by (auto simp: serialize_i64_def)

lemma bt_insert_list_all:
  "list_all P m \<Longrightarrow> P (k, v) \<Longrightarrow> list_all P (bt_insert k v m)"
  by (induction k v m rule: bt_insert.induct) auto

lemma to_canonical_value_int:
  "to_canonical_value (JInt n) = Inr c \<longleftrightarrow>
     CANONICALJSON_MIN_INT \<le> n \<and> n \<le> CANONICALJSON_MAX_INT \<and> c = CInteger n"
  by (auto simp: serialize_u64_Inr serialize_i64_Inr CANONICALJSON_MIN_INT_def CANONICALJSON_MAX_INT_def)

lemma serializer_sound:
  "to_canonical_value j = Inr c \<Longrightarrow> cjson_in_range c \<and> cjson_wf c"
  "serialize_elements js = Inr cs \<Longrightarrow> list_all (\<lambda>c. cjson_in_range c \<and> cjson_wf c) cs"
  "serialize_entries es m = Inr m' \<Longrightarrow> bt_inv m \<Longrightarrow> list_all (\<lambda>e. cjson_in_range (snd e) \<and> cjson_wf (snd e)) m
     \<Longrightarrow> bt_inv m' \<and> list_all (\<lambda>e. cjson_in_range (snd e) \<and> cjson_wf (snd e)) m'"
proof (induction j and js and es m arbitrary: c and cs and m'
    rule: to_canonical_value_serialize_elements_serialize_entries.induct)
  case (4 n)
  then show ?case by (auto simp: to_canonical_value_int simp del: to_canonical_value.simps)
next
  case (6 vs)
  then show ?case by (auto simp: res_simps list_all_iff)
next
  case (7 es)
  then obtain m where "serialize_entries es [] = Inr m" "c = CObject m" by (auto simp: res_simps)
  with 7 show ?case by (auto simp: list_all_iff)
next
  case (11 k v es m)
  then show ?case by (auto simp: res_simps bt_inv_insert bt_insert_list_all split: if_splits)
qed (auto simp: res_simps)

lemma in_range_validates:
  "list_all (\<lambda>e. cjson_in_range (snd e)) es \<Longrightarrow> validate_canonical_json es = Inr ()"
  "cjson_in_range c \<Longrightarrow> validate_value c = Inr ()"
  "list_all cjson_in_range cs \<Longrightarrow> validate_items cs = Inr ()"
  by (induction es and c and cs rule: validate_canonical_json_validate_value_validate_items.induct)
    (auto split: cjson.splits)

lemma bt_inv_append_Cons:
  assumes "bt_inv (acc @ (k, v) # m)"
  shows "bt_get acc k = None" and "bt_insert k w acc = acc @ [(k, w)]"
proof -
  from assms have lt: "\<forall>k'\<in>set (map fst acc). k' < k"
    by (auto simp: bt_inv_def sorted_wrt_append)
  then show "bt_insert k w acc = acc @ [(k, w)]" by (rule bt_insert_last)
  from lt show "bt_get acc k = None" by (auto simp: map_of_eq_None_iff)
qed

lemma serialize_entries_sorted:
  assumes "\<forall>e\<in>set m. to_canonical_value (value_into_json (snd e)) = Inr (snd e)" "bt_inv (acc @ m)"
  shows "serialize_entries (map (\<lambda>e. (fst e, value_into_json (snd e))) m) acc = Inr (acc @ m)"
  using assms
proof (induction m arbitrary: acc)
  case (Cons e m)
  obtain k v where e: "e = (k, v)" by fastforce
  from Cons.prems(2) have "bt_inv ((acc @ [e]) @ m)" by simp
  with Cons e bt_inv_append_Cons[of acc k v m] show ?case by simp
qed simp

lemma to_canonical_value_into_json:
  "cjson_in_range c \<Longrightarrow> cjson_wf c \<Longrightarrow> to_canonical_value (value_into_json c) = Inr c"
proof (induction c)
  case (CInteger n)
  then show ?case by (simp add: to_canonical_value_int del: to_canonical_value.simps)
next
  case (CArray vs)
  have "serialize_elements (map value_into_json vs) = Inr vs"
    using CArray by (induction vs) auto
  then show ?case by simp
next
  case (CObject m)
  have "\<forall>e\<in>set m. to_canonical_value (value_into_json (snd e)) = Inr (snd e)"
    using CObject by (fastforce simp: list_all_iff)
  with CObject serialize_entries_sorted[of m "[]"] show ?case by simp
qed simp_all

section \<open>Properties\<close>

text \<open>C37: Whatever JSON value the canonical serializer accepts, its result has only integers in the
  canonical range at every depth and strictly increasing object keys, and serializing the
  result again returns it unchanged.\<close>

theorem to_canonical_value_canonical:
  assumes "to_canonical_value j = Inr c"
  shows "cjson_in_range c \<and> cjson_wf c \<and> to_canonical_value (value_into_json c) = Inr c"
  using serializer_sound(1)[OF assms] to_canonical_value_into_json by blast

theorem to_canonical_value_canonical_witness:
  "to_canonical_value (JObj [(''b'', JInt 1), (''a'', JArr [JInt 9007199254740991])])
     = Inr (CObject [(''a'', CArray [CInteger 9007199254740991]), (''b'', CInteger 1)])
   \<and> cjson_in_range (CObject [(''a'', CArray [CInteger 9007199254740991]), (''b'', CInteger 1)])"
proof -
  have *: "to_canonical_value (JObj [(''b'', JInt 1), (''a'', JArr [JInt 9007199254740991])])
     = Inr (CObject [(''a'', CArray [CInteger 9007199254740991]), (''b'', CInteger 1)])"
    by (simp add: serialize_u64_def CANONICALJSON_MAX_INT_def as_i64_eq)
  from to_canonical_value_canonical[OF *] * show ?thesis by simp
qed

text \<open>An object whose integers are all in the canonical range passes
  \<open>validate_canonical_json\<close>; the converse fails, since integers that are direct elements of an
  array are never looked at.\<close>

theorem validate_canonical_json_gap:
  "(cjson_in_range (CObject obj) \<longrightarrow> validate_canonical_json obj = Inr ())
   \<and> validate_canonical_json [(''depth'', CInteger (2 ^ 53))] = Inl IntegerOutOfRange
   \<and> validate_canonical_json [(''depth'', CArray [CInteger (2 ^ 53)])] = Inr ()
   \<and> \<not> cjson_in_range (CObject [(''depth'', CArray [CInteger (2 ^ 53)])])"
  using in_range_validates(1)[of obj]
  by (simp add: CANONICALJSON_MAX_INT_def)

theorem validate_canonical_json_gap_witness:
  "cjson_in_range (CObject [(''depth'', CInteger 3)])
   \<and> validate_canonical_json [(''depth'', CInteger 3)] = Inr ()"
  using validate_canonical_json_gap[of "[(''depth'', CInteger 3)]"]
  by (simp add: CANONICALJSON_MIN_INT_def CANONICALJSON_MAX_INT_def)

end
