(* ===== verification/Events.thy ===== *)
theory Events
  imports Power_Levels Canonical_Json
begin

text \<open>
  Events as the authorization rules and state resolution see them (\<open>core/src/state/events.rs\<close>),
  the errors of those components (\<open>state/error.rs\<close>) and the helper types that read the fields
  of \<open>m.room.create\<close>, \<open>m.room.member\<close>, \<open>m.room.join_rules\<close> and
  \<open>m.room.third_party_invite\<close> events lazily (\<open>state/events/*.rs\<close>).
  Messages of errors are dropped.  An event type is the string of its \<open>TimelineEventType\<close>.

  Code outside the repository is collected in the record \<open>env\<close>: the Unicode table behind
  \<open>char::is_alphanumeric\<close>, the base64 decoders, the Ed25519 verifier and the JSON printer.
\<close>

section \<open>The environment\<close>

record env =
  unicode_alnum :: "nat \<Rightarrow> bool"
  base64_standard :: "string \<Rightarrow> string option"
  base64_url_safe :: "string \<Rightarrow> string option"
  ed25519_verify :: "string \<Rightarrow> string \<Rightarrow> string \<Rightarrow> bool"
  to_json_string :: "cobject \<Rightarrow> string option"

section \<open>Events and errors\<close>

text \<open>\<open>StatePanic\<close> is not a value of the code: it is the outcome of a call that panics.\<close>

datatype state_error =
    NotFound string
  | Forbidden
  | AuthEvent
  | MissingStateKey
  | FetchConflictedStateSubgraphFailed
  | OtherState
  | StatePanic

record pdu =
  ev_id :: string
  ev_room_id :: string
  ev_sender :: string
  ev_ts :: nat
  ev_type :: string
  ev_content :: json
  ev_state_key :: "string option"
  ev_prev_events :: "string list"
  ev_auth_events :: "string list"
  ev_redacts :: "string option"
  ev_rejected :: bool

type_synonym fetch_event = "string \<Rightarrow> state_error + pdu"
type_synonym fetch_state = "string \<Rightarrow> string \<Rightarrow> state_error + pdu"

definition CreateType :: string where "CreateType = ''m.room.create''"
definition MemberType :: string where "MemberType = ''m.room.member''"
definition JoinRulesType :: string where "JoinRulesType = ''m.room.join_rules''"
definition AliasesType :: string where "AliasesType = ''m.room.aliases''"
definition ThirdPartyInviteType :: string where "ThirdPartyInviteType = ''m.room.third_party_invite''"

lemmas type_defs = CreateType_def MemberType_def JoinRulesType_def AliasesType_def
  ThirdPartyInviteType_def PowerLevelsType_def RedactionType_def

lemma type_distinct:
  "distinct [CreateType, MemberType, JoinRulesType, AliasesType, ThirdPartyInviteType, PowerLevelsType, RedactionType]"
  by (simp add: type_defs)

lemma type_neqs [simp]:
  "CreateType \<noteq> MemberType" "CreateType \<noteq> JoinRulesType" "CreateType \<noteq> AliasesType" "CreateType \<noteq> ThirdPartyInviteType" "CreateType \<noteq> PowerLevelsType" "CreateType \<noteq> RedactionType"
  "MemberType \<noteq> CreateType" "MemberType \<noteq> JoinRulesType" "MemberType \<noteq> AliasesType" "MemberType \<noteq> ThirdPartyInviteType" "MemberType \<noteq> PowerLevelsType" "MemberType \<noteq> RedactionType"
  "JoinRulesType \<noteq> CreateType" "JoinRulesType \<noteq> MemberType" "JoinRulesType \<noteq> AliasesType" "JoinRulesType \<noteq> ThirdPartyInviteType" "JoinRulesType \<noteq> PowerLevelsType" "JoinRulesType \<noteq> RedactionType"
  "AliasesType \<noteq> CreateType" "AliasesType \<noteq> MemberType" "AliasesType \<noteq> JoinRulesType" "AliasesType \<noteq> ThirdPartyInviteType" "AliasesType \<noteq> PowerLevelsType" "AliasesType \<noteq> RedactionType"
  "ThirdPartyInviteType \<noteq> CreateType" "ThirdPartyInviteType \<noteq> MemberType" "ThirdPartyInviteType \<noteq> JoinRulesType" "ThirdPartyInviteType \<noteq> AliasesType" "ThirdPartyInviteType \<noteq> PowerLevelsType" "ThirdPartyInviteType \<noteq> RedactionType"
  "PowerLevelsType \<noteq> CreateType" "PowerLevelsType \<noteq> MemberType" "PowerLevelsType \<noteq> JoinRulesType" "PowerLevelsType \<noteq> AliasesType" "PowerLevelsType \<noteq> ThirdPartyInviteType" "PowerLevelsType \<noteq> RedactionType"
  "RedactionType \<noteq> CreateType" "RedactionType \<noteq> MemberType" "RedactionType \<noteq> JoinRulesType" "RedactionType \<noteq> AliasesType" "RedactionType \<noteq> ThirdPartyInviteType" "RedactionType \<noteq> PowerLevelsType"
  using type_distinct by auto

definition from_content :: "de_error + 'a \<Rightarrow> state_error + 'a" where
  "from_content r = map_err (\<lambda>_. OtherState) r"

definition sender_server_name :: "string \<Rightarrow> state_error + string" where
  "sender_server_name u = map_err (\<lambda>_. StatePanic) (user_server_name u)"

section \<open>String enumerations\<close>

datatype membership_state = Ban | Invite | Join | Knock | Leave | CustomMembership string

definition membership_from_str :: "string \<Rightarrow> membership_state" where
  "membership_from_str s =
     (if s = ''ban'' then Ban else if s = ''invite'' then Invite else if s = ''join'' then Join
      else if s = ''knock'' then Knock else if s = ''leave'' then Leave else CustomMembership s)"

datatype join_rule_kind =
  RuleInvite | RuleKnock | RulePrivate | RuleRestricted | RuleKnockRestricted | RulePublic | RuleCustom string

definition join_rule_from_str :: "string \<Rightarrow> join_rule_kind" where
  "join_rule_from_str s =
     (if s = ''invite'' then RuleInvite else if s = ''knock'' then RuleKnock
      else if s = ''private'' then RulePrivate else if s = ''restricted'' then RuleRestricted
      else if s = ''knock_restricted'' then RuleKnockRestricted
      else if s = ''public'' then RulePublic else RuleCustom s)"

definition de_membership :: "json \<Rightarrow> de_error + membership_state" where
  "de_membership j = map_ok membership_from_str (de_string j)"

definition de_join_rule :: "json \<Rightarrow> de_error + join_rule_kind" where
  "de_join_rule j = map_ok join_rule_from_str (de_string j)"

definition de_user_id_value :: "json \<Rightarrow> de_error + string" where
  "de_user_id_value j = and_then (de_string j) de_user_id"

section \<open>The create event\<close>

definition de_room_version :: "env \<Rightarrow> json \<Rightarrow> de_error + room_version_id" where
  "de_room_version E j =
     and_then (de_string j) (\<lambda>s. map_err (\<lambda>_. DeError) (room_version_try_from (unicode_alnum E) s))"

definition create_room_version :: "env \<Rightarrow> pdu \<Rightarrow> state_error + room_version_id" where
  "create_room_version E ev =
     map_ok (unwrap_or V1) (from_content (de_optional1 ''room_version'' (de_room_version E) (ev_content ev)))"

definition create_version_rules :: "env \<Rightarrow> pdu \<Rightarrow> state_error + room_version_rules" where
  "create_version_rules E ev =
     and_then (create_room_version E ev) (\<lambda>v. ok_or OtherState (room_version_rules_of v))"

definition create_federate :: "pdu \<Rightarrow> state_error + bool" where
  "create_federate ev =
     map_ok (unwrap_or True) (from_content (de_optional1 ''m.federate'' de_bool (ev_content ev)))"

definition create_creator :: "env \<Rightarrow> pdu \<Rightarrow> state_error + string" where
  "create_creator E ev =
     and_then (create_version_rules E ev) (\<lambda>rules.
     if use_room_create_sender (authorization rules) then Inr (ev_sender ev)
     else from_content (de_required1 ''creator'' de_user_id_value (ev_content ev)))"

text \<open>A \<open>HashSet\<close> of user identifiers is the list of its elements; only membership is used.\<close>

definition create_additional_creators :: "env \<Rightarrow> pdu \<Rightarrow> state_error + string list" where
  "create_additional_creators E ev =
     and_then (create_version_rules E ev) (\<lambda>rules.
     if additional_room_creators (authorization rules)
     then from_content (and_then (struct_fields [(''additional_creators'', True)] (ev_content ev)) (\<lambda>fs.
            or_default [] (de_seq de_user_id_value) (hd fs)))
     else Inr [])"

definition create_creators :: "env \<Rightarrow> pdu \<Rightarrow> state_error + string list" where
  "create_creators E ev =
     and_then (create_additional_creators E ev) (\<lambda>additional.
     and_then (create_creator E ev) (\<lambda>creator. Inr (List.insert creator additional)))"

definition create_has_creator :: "pdu \<Rightarrow> state_error + bool" where
  "create_has_creator ev =
     map_ok (\<lambda>c. c \<noteq> None) (from_content (de_optional1 ''creator'' (\<lambda>_. Inr ()) (ev_content ev)))"

section \<open>The member event\<close>

definition content_membership :: "json \<Rightarrow> state_error + membership_state" where
  "content_membership c = from_content (de_required1 ''membership'' de_membership c)"

text \<open>An invalid value is only logged and counts as absent.\<close>

definition content_join_authorised_via_users_server :: "json \<Rightarrow> string option" where
  "content_join_authorised_via_users_server c =
     (case de_optional1 ''join_authorised_via_users_server'' de_user_id_value c of
        Inl e \<Rightarrow> None | Inr u \<Rightarrow> u)"

record third_party_invite =
  tpi_signed :: cobject

definition de_canonical_object :: "json \<Rightarrow> de_error + cobject" where
  "de_canonical_object j = de_map Inr (\<lambda>v. map_err (\<lambda>_. DeError) (value_try_from (to_value v))) j"

definition de_third_party_invite :: "json \<Rightarrow> de_error + third_party_invite" where
  "de_third_party_invite j =
     map_ok (\<lambda>signed. \<lparr>tpi_signed = signed\<rparr>) (de_required1 ''signed'' de_canonical_object j)"

definition content_third_party_invite :: "json \<Rightarrow> state_error + third_party_invite option" where
  "content_third_party_invite c = from_content (de_optional1 ''third_party_invite'' de_third_party_invite c)"

definition invite_token :: "third_party_invite \<Rightarrow> state_error + string" where
  "invite_token i =
     and_then (ok_or OtherState (bt_get (tpi_signed i) ''token'')) (\<lambda>v. ok_or OtherState (as_str v))"

definition invite_mxid :: "third_party_invite \<Rightarrow> state_error + string" where
  "invite_mxid i =
     and_then (ok_or OtherState (bt_get (tpi_signed i) ''mxid'')) (\<lambda>v. ok_or OtherState (as_str v))"

definition invite_signatures :: "third_party_invite \<Rightarrow> state_error + cobject" where
  "invite_signatures i =
     and_then (ok_or OtherState (bt_get (tpi_signed i) ''signatures'')) (\<lambda>v. ok_or OtherState (as_object v))"

definition to_canonical_json_string_with_fields_to_remove ::
  "env \<Rightarrow> cobject \<Rightarrow> string list \<Rightarrow> string option" where
  "to_canonical_json_string_with_fields_to_remove E obj remove =
     to_json_string E (fold bt_remove remove obj)"

definition to_canonical_json_string_for_signing :: "env \<Rightarrow> cobject \<Rightarrow> string option" where
  "to_canonical_json_string_for_signing E obj =
     to_canonical_json_string_with_fields_to_remove E obj [''signatures'', ''unsigned'']"

definition invite_signed_canonical_json :: "env \<Rightarrow> third_party_invite \<Rightarrow> state_error + string" where
  "invite_signed_canonical_json E i =
     ok_or OtherState (to_canonical_json_string_for_signing E (tpi_signed i))"

section \<open>Join rules and third-party invites\<close>

definition event_join_rule :: "pdu \<Rightarrow> state_error + join_rule_kind" where
  "event_join_rule ev = from_content (de_required1 ''join_rule'' de_join_rule (ev_content ev))"

text \<open>A \<open>BTreeSet\<close> of keys is their sorted list without repetitions.\<close>

definition event_public_keys :: "pdu \<Rightarrow> state_error + string list" where
  "event_public_keys ev =
     from_content
      (and_then (struct_fields [(''public_key'', False), (''public_keys'', True)] (ev_content ev)) (\<lambda>fs.
       and_then (or_default None (de_opt de_string) (fs ! 0)) (\<lambda>key.
       and_then (or_default [] (de_seq (de_required1 ''public_key'' de_string)) (fs ! 1)) (\<lambda>keys.
       Inr (sort (remdups ((case key of None \<Rightarrow> [] | Some k \<Rightarrow> [k]) @ keys)))))))"

definition public_key_decode :: "env \<Rightarrow> string \<Rightarrow> string option" where
  "public_key_decode E key =
     (if list_ex (\<lambda>c. c = CHR ''-'' \<or> c = CHR ''_'') key then base64_url_safe E key
      else base64_standard E key)"

text \<open>Only Ed25519 is supported; \<open>True\<close> is a verified signature.\<close>

definition verify_canonical_json_bytes :: "env \<Rightarrow> string \<Rightarrow> string \<Rightarrow> string \<Rightarrow> string \<Rightarrow> bool" where
  "verify_canonical_json_bytes E algorithm public_key signature json \<longleftrightarrow>
     algorithm = ''ed25519'' \<and> ed25519_verify E public_key signature json"

section \<open>State lookups\<close>

text \<open>\<open>FetchStateExt\<close>: errors of the lookup itself count as a missing event, except for the create
  event and the join rules.\<close>

definition state_room_create_event :: "fetch_state \<Rightarrow> state_error + pdu" where
  "state_room_create_event fetch = fetch CreateType ''''"

definition state_user_membership :: "fetch_state \<Rightarrow> string \<Rightarrow> state_error + membership_state" where
  "state_user_membership fetch u =
     (case ok_opt (fetch MemberType u) of
        Some ev \<Rightarrow> content_membership (ev_content ev)
      | None \<Rightarrow> Inr Leave)"

definition state_room_power_levels_event :: "fetch_state \<Rightarrow> pdu option" where
  "state_room_power_levels_event fetch = ok_opt (fetch PowerLevelsType '''')"

definition state_join_rule :: "fetch_state \<Rightarrow> state_error + join_rule_kind" where
  "state_join_rule fetch = and_then (fetch JoinRulesType '''') event_join_rule"

definition state_room_third_party_invite_event :: "fetch_state \<Rightarrow> string \<Rightarrow> pdu option" where
  "state_room_third_party_invite_event fetch token = ok_opt (fetch ThirdPartyInviteType token)"

section \<open>Facts\<close>

lemma from_content_Inr_iff [res_simps]: "from_content r = Inr x \<longleftrightarrow> r = Inr x"
  by (simp add: from_content_def res_simps)

lemma from_content_simps [simp]:
  "from_content (Inr x) = Inr x" "from_content (Inl e) = Inl OtherState"
  by (simp_all add: from_content_def)

lemma create_creators_Inr:
  "create_creators E ev = Inr cs \<Longrightarrow> create_creator E ev = Inr c \<Longrightarrow> c \<in> set cs"
  by (auto simp: create_creators_def res_simps)

end
