(* ===== verification/Power_Levels_Event.thy ===== *)
theory Power_Levels_Event
  imports Events
begin

text \<open>
  The helper type for \<open>m.room.power_levels\<close> events (\<open>state/events/power_levels.rs\<close>).  The
  first part reads the fields of an event; the second part is the type as it is written, with its
  three caches, and shows that the caches are transparent: whatever queries were made before, under
  the same authorization rules every answer is the one read from the event.
\<close>

section \<open>Integer fields\<close>

datatype int_field =
  FUsersDefault | FEventsDefault | FStateDefault | FBan | FRedact | FKick | FInvite

definition int_field_ALL :: "int_field list" where
  "int_field_ALL = [FUsersDefault, FEventsDefault, FStateDefault, FBan, FRedact, FKick, FInvite]"

fun int_field_default_value :: "int_field \<Rightarrow> int" where
  "int_field_default_value FUsersDefault = 0"
| "int_field_default_value FEventsDefault = 0"
| "int_field_default_value FInvite = 0"
| "int_field_default_value FStateDefault = 50"
| "int_field_default_value FKick = 50"
| "int_field_default_value FBan = 50"
| "int_field_default_value FRedact = 50"

fun int_field_as_str :: "int_field \<Rightarrow> string" where
  "int_field_as_str FUsersDefault = ''users_default''"
| "int_field_as_str FEventsDefault = ''events_default''"
| "int_field_as_str FStateDefault = ''state_default''"
| "int_field_as_str FBan = ''ban''"
| "int_field_as_str FRedact = ''redact''"
| "int_field_as_str FKick = ''kick''"
| "int_field_as_str FInvite = ''invite''"

definition DEFAULT_CREATOR_POWER_LEVEL :: int where "DEFAULT_CREATOR_POWER_LEVEL = 100"

section \<open>Reading an event\<close>

type_synonym json_object = "(string, json) btree"

definition deserialized_content :: "pdu \<Rightarrow> state_error + json_object" where
  "deserialized_content ev = from_content (de_map Inr (\<lambda>v. Inr (to_value v)) (ev_content ev))"

definition de_level :: "authorization_rules \<Rightarrow> json \<Rightarrow> de_error + int" where
  "de_level rules v = (if integer_power_levels rules then de_i64 v else deserialize_v1_power_level v)"

definition get_as_int :: "pdu \<Rightarrow> int_field \<Rightarrow> authorization_rules \<Rightarrow> state_error + int option" where
  "get_as_int ev field rules =
     and_then (deserialized_content ev) (\<lambda>content.
     case bt_get content (int_field_as_str field) of
       None \<Rightarrow> Inr None
     | Some v \<Rightarrow> from_content (map_ok Some (de_level rules v)))"

definition get_as_int_or_default :: "pdu \<Rightarrow> int_field \<Rightarrow> authorization_rules \<Rightarrow> state_error + int" where
  "get_as_int_or_default ev field rules =
     map_ok (unwrap_or (int_field_default_value field)) (get_as_int ev field rules)"

definition get_as_int_map ::
  "(string \<Rightarrow> de_error + string) \<Rightarrow> pdu \<Rightarrow> string \<Rightarrow> authorization_rules
    \<Rightarrow> state_error + (string, int) btree option" where
  "get_as_int_map dk ev field rules =
     and_then (deserialized_content ev) (\<lambda>content.
     case bt_get content field of
       None \<Rightarrow> Inr None
     | Some v \<Rightarrow>
         from_content (map_ok Some
           (if integer_power_levels rules then de_map dk de_i64 v
            else btreemap_deserialize_v1_power_level_values dk v)))"

definition pl_event_events :: "pdu \<Rightarrow> authorization_rules \<Rightarrow> state_error + (string, int) btree option" where
  "pl_event_events ev rules = get_as_int_map de_event_type ev ''events'' rules"

definition pl_event_notifications :: "pdu \<Rightarrow> authorization_rules \<Rightarrow> state_error + (string, int) btree option" where
  "pl_event_notifications ev rules = get_as_int_map Inr ev ''notifications'' rules"

definition pl_event_users :: "pdu \<Rightarrow> authorization_rules \<Rightarrow> state_error + (string, int) btree option" where
  "pl_event_users ev rules = get_as_int_map de_user_id ev ''users'' rules"

definition opt_get :: "(string, int) btree option \<Rightarrow> string \<Rightarrow> int option" where
  "opt_get m k = Option.bind m (\<lambda>m. bt_get m k)"

definition pl_event_user_power_level :: "pdu \<Rightarrow> string \<Rightarrow> authorization_rules \<Rightarrow> state_error + int" where
  "pl_event_user_power_level ev u rules =
     and_then (pl_event_users ev rules) (\<lambda>users.
     case opt_get users u of
       Some l \<Rightarrow> Inr l
     | None \<Rightarrow> get_as_int_or_default ev FUsersDefault rules)"

definition default_event_field :: "string option \<Rightarrow> int_field" where
  "default_event_field state_key = (if state_key \<noteq> None then FStateDefault else FEventsDefault)"

definition pl_event_event_power_level ::
  "pdu \<Rightarrow> string \<Rightarrow> string option \<Rightarrow> authorization_rules \<Rightarrow> state_error + int" where
  "pl_event_event_power_level ev event_type state_key rules =
     and_then (pl_event_events ev rules) (\<lambda>events.
     case opt_get events event_type of
       Some l \<Rightarrow> Inr l
     | None \<Rightarrow> get_as_int_or_default ev (default_event_field state_key) rules)"

text \<open>The collected map, in the order of \<open>ALL\<close>; it is only looked up by field.\<close>

definition int_fields_map :: "pdu \<Rightarrow> authorization_rules \<Rightarrow> state_error + (int_field \<times> int) list" where
  "int_fields_map ev rules =
     map_ok concat (map_result (\<lambda>field.
       map_ok (\<lambda>v. case v of None \<Rightarrow> [] | Some l \<Rightarrow> [(field, l)]) (get_as_int ev field rules)) int_field_ALL)"

section \<open>Rooms with or without a power levels event\<close>

definition user_power_level_of ::
  "pdu option \<Rightarrow> string \<Rightarrow> string list \<Rightarrow> authorization_rules \<Rightarrow> state_error + user_power_level" where
  "user_power_level_of pl u creators rules =
     (if explicitly_privilege_room_creators rules \<and> u \<in> set creators then Inr Infinite
      else case pl of
        Some ev \<Rightarrow> map_ok IntLevel (pl_event_user_power_level ev u rules)
      | None \<Rightarrow> Inr (IntLevel (if u \<in> set creators then DEFAULT_CREATOR_POWER_LEVEL
                              else int_field_default_value FUsersDefault)))"

definition int_or_default_of :: "pdu option \<Rightarrow> int_field \<Rightarrow> authorization_rules \<Rightarrow> state_error + int" where
  "int_or_default_of pl field rules =
     (case pl of
        Some ev \<Rightarrow> get_as_int_or_default ev field rules
      | None \<Rightarrow> Inr (int_field_default_value field))"

definition event_power_level_of ::
  "pdu option \<Rightarrow> string \<Rightarrow> string option \<Rightarrow> authorization_rules \<Rightarrow> state_error + int" where
  "event_power_level_of pl event_type state_key rules =
     (case pl of
        Some ev \<Rightarrow> pl_event_event_power_level ev event_type state_key rules
      | None \<Rightarrow> Inr (int_field_default_value (default_event_field state_key)))"

section \<open>The caches\<close>

record room_power_levels_event =
  inner_event :: pdu
  content_cache :: "json_object option"
  int_cache :: "int_field \<rightharpoonup> int option"
  users_cache :: "(string, int) btree option option"

definition room_power_levels_event_new :: "pdu \<Rightarrow> room_power_levels_event" where
  "room_power_levels_event_new ev =
     \<lparr>inner_event = ev, content_cache = None, int_cache = Map.empty, users_cache = None\<rparr>"

definition cached_content ::
  "room_power_levels_event \<Rightarrow> (state_error + json_object) \<times> room_power_levels_event" where
  "cached_content r =
     (case content_cache r of
        Some c \<Rightarrow> (Inr c, r)
      | None \<Rightarrow>
          (case deserialized_content (inner_event r) of
             Inl e \<Rightarrow> (Inl e, r)
           | Inr c \<Rightarrow> (Inr c, r\<lparr>content_cache := Some c\<rparr>)))"

definition cached_get_as_int ::
  "int_field \<Rightarrow> authorization_rules \<Rightarrow> room_power_levels_event
    \<Rightarrow> (state_error + int option) \<times> room_power_levels_event" where
  "cached_get_as_int field rules r =
     (case int_cache r field of
        Some l \<Rightarrow> (Inr l, r)
      | None \<Rightarrow>
          (case cached_content r of
             (Inl e, r1) \<Rightarrow> (Inl e, r1)
           | (Inr content, r1) \<Rightarrow>
               (case bt_get content (int_field_as_str field) of
                  None \<Rightarrow> (Inr None, r1\<lparr>int_cache := (int_cache r1)(field \<mapsto> None)\<rparr>)
                | Some v \<Rightarrow>
                    (case de_level rules v of
                       Inl e \<Rightarrow> (Inl OtherState, r1)
                     | Inr l \<Rightarrow> (Inr (Some l), r1\<lparr>int_cache := (int_cache r1)(field \<mapsto> Some l)\<rparr>)))))"

definition cached_int_map ::
  "(string \<Rightarrow> de_error + string) \<Rightarrow> string \<Rightarrow> authorization_rules \<Rightarrow> room_power_levels_event
    \<Rightarrow> (state_error + (string, int) btree option) \<times> room_power_levels_event" where
  "cached_int_map dk field rules r =
     (case cached_content r of
        (Inl e, r1) \<Rightarrow> (Inl e, r1)
      | (Inr content, r1) \<Rightarrow>
          (case bt_get content field of
             None \<Rightarrow> (Inr None, r1)
           | Some v \<Rightarrow>
               (from_content (map_ok Some
                  (if integer_power_levels rules then de_map dk de_i64 v
                   else btreemap_deserialize_v1_power_level_values dk v)), r1)))"

definition cached_users ::
  "authorization_rules \<Rightarrow> room_power_levels_event
    \<Rightarrow> (state_error + (string, int) btree option) \<times> room_power_levels_event" where
  "cached_users rules r =
     (case users_cache r of
        Some users \<Rightarrow> (Inr users, r)
      | None \<Rightarrow>
          (case cached_int_map de_user_id ''users'' rules r of
             (Inl e, r1) \<Rightarrow> (Inl e, r1)
           | (Inr users, r1) \<Rightarrow> (Inr users, r1\<lparr>users_cache := Some users\<rparr>)))"

definition cached_user_power_level ::
  "string \<Rightarrow> authorization_rules \<Rightarrow> room_power_levels_event
    \<Rightarrow> (state_error + int) \<times> room_power_levels_event" where
  "cached_user_power_level u rules r =
     (case cached_users rules r of
        (Inl e, r1) \<Rightarrow> (Inl e, r1)
      | (Inr users, r1) \<Rightarrow>
          (case opt_get users u of
             Some l \<Rightarrow> (Inr l, r1)
           | None \<Rightarrow>
               (case cached_get_as_int FUsersDefault rules r1 of
                  (l, r2) \<Rightarrow> (map_ok (unwrap_or (int_field_default_value FUsersDefault)) l, r2))))"

text \<open>A sequence of queries on one helper value, and the answers read from the event.\<close>

datatype pl_query = QueryInt int_field | QueryEvents | QueryNotifications | QueryUsers | QueryUser string

datatype pl_answer =
    AnswerInt "state_error + int option"
  | AnswerMap "state_error + (string, int) btree option"
  | AnswerLevel "state_error + int"

fun cached_query ::
  "authorization_rules \<Rightarrow> pl_query \<Rightarrow> room_power_levels_event \<Rightarrow> pl_answer \<times> room_power_levels_event" where
  "cached_query rules (QueryInt f) r = map_prod AnswerInt id (cached_get_as_int f rules r)"
| "cached_query rules QueryEvents r = map_prod AnswerMap id (cached_int_map de_event_type ''events'' rules r)"
| "cached_query rules QueryNotifications r = map_prod AnswerMap id (cached_int_map Inr ''notifications'' rules r)"
| "cached_query rules QueryUsers r = map_prod AnswerMap id (cached_users rules r)"
| "cached_query rules (QueryUser u) r = map_prod AnswerLevel id (cached_user_power_level u rules r)"

fun plain_query :: "authorization_rules \<Rightarrow> pl_query \<Rightarrow> pdu \<Rightarrow> pl_answer" where
  "plain_query rules (QueryInt f) ev = AnswerInt (get_as_int ev f rules)"
| "plain_query rules QueryEvents ev = AnswerMap (pl_event_events ev rules)"
| "plain_query rules QueryNotifications ev = AnswerMap (pl_event_notifications ev rules)"
| "plain_query rules QueryUsers ev = AnswerMap (pl_event_users ev rules)"
| "plain_query rules (QueryUser u) ev = AnswerLevel (pl_event_user_power_level ev u rules)"

fun cached_queries ::
  "authorization_rules \<Rightarrow> pl_query list \<Rightarrow> room_power_levels_event \<Rightarrow> pl_answer list" where
  "cached_queries rules [] r = []"
| "cached_queries rules (q # qs) r =
     (case cached_query rules q r of (a, r') \<Rightarrow> a # cached_queries rules qs r')"

section \<open>The caches hold what the event says\<close>

definition cache_ok :: "authorization_rules \<Rightarrow> pdu \<Rightarrow> room_power_levels_event \<Rightarrow> bool" where
  "cache_ok rules ev r \<longleftrightarrow>
     inner_event r = ev
     \<and> (\<forall>c. content_cache r = Some c \<longrightarrow> deserialized_content ev = Inr c)
     \<and> (\<forall>f l. int_cache r f = Some l \<longrightarrow> get_as_int ev f rules = Inr l)
     \<and> (\<forall>us. users_cache r = Some us \<longrightarrow> pl_event_users ev rules = Inr us)"

lemma cache_ok_new: "cache_ok rules ev (room_power_levels_event_new ev)"
  by (simp add: cache_ok_def room_power_levels_event_new_def)

lemma cached_content_ok:
  assumes "cache_ok rules ev r" "cached_content r = (a, r')"
  shows "deserialized_content ev = a \<and> cache_ok rules ev r'"
  using assms by (auto simp: cache_ok_def cached_content_def split: option.splits sum.splits)

lemma cache_ok_int:
  "cache_ok rules ev r \<Longrightarrow> get_as_int ev f rules = Inr l
    \<Longrightarrow> cache_ok rules ev (r\<lparr>int_cache := (int_cache r)(f \<mapsto> l)\<rparr>)"
  by (auto simp: cache_ok_def)

lemma cached_get_as_int_ok:
  assumes "cache_ok rules ev r" "cached_get_as_int f rules r = (a, r')"
  shows "get_as_int ev f rules = a \<and> cache_ok rules ev r'"
proof (cases "int_cache r f")
  case (Some l)
  with assms show ?thesis by (auto simp: cached_get_as_int_def cache_ok_def)
next
  case None
  obtain c r1 where c: "cached_content r = (c, r1)" by fastforce
  from cached_content_ok[OF assms(1) c] have ok: "deserialized_content ev = c" "cache_ok rules ev r1"
    by simp_all
  show ?thesis
  proof (cases c)
    case (Inl e)
    with None c ok assms(2) show ?thesis by (simp add: cached_get_as_int_def get_as_int_def)
  next
    case (Inr content)
    then have g: "get_as_int ev f rules =
        (case bt_get content (int_field_as_str f) of None \<Rightarrow> Inr None
         | Some v \<Rightarrow> from_content (map_ok Some (de_level rules v)))"
      using ok(1) by (simp add: get_as_int_def)
    show ?thesis
    proof (cases "bt_get content (int_field_as_str f)")
      case n: None
      with g have g': "get_as_int ev f rules = Inr None" by simp
      from cache_ok_int[OF ok(2) g'] None Inr c n g' assms(2) show ?thesis
        by (auto simp: cached_get_as_int_def)
    next
      case s: (Some v)
      show ?thesis
      proof (cases "de_level rules v")
        case (Inl e)
        with None \<open>c = Inr content\<close> c s g ok(2) assms(2) show ?thesis
          by (auto simp: cached_get_as_int_def)
      next
        case l: (Inr l)
        with g s have g': "get_as_int ev f rules = Inr (Some l)" by simp
        from cache_ok_int[OF ok(2) g'] None \<open>c = Inr content\<close> c s l g' assms(2) show ?thesis
          by (auto simp: cached_get_as_int_def)
      qed
    qed
  qed
qed

lemma cached_int_map_ok:
  assumes "cache_ok rules ev r" "cached_int_map dk f rules r = (a, r')"
  shows "get_as_int_map dk ev f rules = a \<and> cache_ok rules ev r'"
proof -
  obtain c r1 where c: "cached_content r = (c, r1)" by fastforce
  from cached_content_ok[OF assms(1) c] have "deserialized_content ev = c" "cache_ok rules ev r1"
    by simp_all
  then show ?thesis using c assms(2)
    by (cases c) (auto simp: cached_int_map_def get_as_int_map_def split: option.splits)
qed

lemma cached_users_ok:
  assumes "cache_ok rules ev r" "cached_users rules r = (a, r')"
  shows "pl_event_users ev rules = a \<and> cache_ok rules ev r'"
proof (cases "users_cache r")
  case (Some us)
  with assms show ?thesis by (auto simp: cached_users_def cache_ok_def)
next
  case None
  obtain m r1 where m: "cached_int_map de_user_id ''users'' rules r = (m, r1)" by fastforce
  from cached_int_map_ok[OF assms(1) m] have "pl_event_users ev rules = m" "cache_ok rules ev r1"
    by (simp_all add: pl_event_users_def)
  then show ?thesis using None m assms(2)
    by (cases m) (auto simp: cached_users_def cache_ok_def)
qed

lemma cached_user_power_level_ok:
  assumes "cache_ok rules ev r" "cached_user_power_level u rules r = (a, r')"
  shows "pl_event_user_power_level ev u rules = a \<and> cache_ok rules ev r'"
proof -
  obtain us r1 where us: "cached_users rules r = (us, r1)" by fastforce
  note ok = cached_users_ok[OF assms(1) us]
  obtain l r2 where l: "cached_get_as_int FUsersDefault rules r1 = (l, r2)" by fastforce
  note ok' = cached_get_as_int_ok[OF conjunct2[OF ok] l]
  from ok ok' show ?thesis using us l assms(2)
    by (cases us) (auto simp: cached_user_power_level_def pl_event_user_power_level_def
        get_as_int_or_default_def split: option.splits)
qed

lemma cached_query_ok:
  assumes "cache_ok rules ev r" "cached_query rules q r = (a, r')"
  shows "plain_query rules q ev = a \<and> cache_ok rules ev r'"
  using assms(2) cached_get_as_int_ok[OF assms(1)] cached_int_map_ok[OF assms(1)]
    cached_users_ok[OF assms(1)] cached_user_power_level_ok[OF assms(1)]
  by (cases q) (auto simp: map_prod_def pl_event_events_def pl_event_notifications_def split: prod.splits)

lemma cached_queries_ok:
  "cache_ok rules ev r \<Longrightarrow> cached_queries rules qs r = map (\<lambda>q. plain_query rules q ev) qs"
proof (induction qs arbitrary: r)
  case (Cons q qs)
  obtain a r' where q: "cached_query rules q r = (a, r')" by fastforce
  from cached_query_ok[OF Cons.prems q] Cons.IH[of r'] q show ?case by simp
qed simp

section \<open>Levels\<close>

lemma int_fields_map_get:
  assumes "int_fields_map ev rules = Inr m"
  shows "get_as_int ev f rules = Inr (map_of m f)"
proof -
  have conc: "map_of (concat xs) f = v"
    if "list_all2 (\<lambda>fld y. map_ok (\<lambda>v. case v of None \<Rightarrow> [] | Some l \<Rightarrow> [(fld, l)]) (g fld) = Inr y) fs xs"
      "distinct fs" "f \<in> set fs" "g f = Inr v" for g fs xs v
    using that
  proof (induction fs xs rule: list_all2_induct)
    case (Cons fld fs y ys)
    show ?case
    proof (cases "fld = f")
      case True
      have "f \<notin> fst ` set (concat ys)"
        using Cons(2) Cons.prems(1) True
        by (fastforce simp: list_all2_conv_all_nth res_simps in_set_conv_nth split: option.splits)
      then have "map_of (concat ys) f = None" by (simp add: map_of_eq_None_iff)
      with True Cons(1) Cons.prems(3) show ?thesis
        by (auto simp: map_add_def split: option.splits)
    next
      case False
      with Cons show ?thesis
        by (auto simp: res_simps map_add_def split: option.splits)
    qed
  qed simp
  have mem: "f \<in> set int_field_ALL" by (cases f) (simp_all add: int_field_ALL_def)
  have dist: "distinct int_field_ALL" by (simp add: int_field_ALL_def)
  from assms obtain xs where
    xs: "list_all2 (\<lambda>fld y. map_ok (\<lambda>v. case v of None \<Rightarrow> [] | Some l \<Rightarrow> [(fld, l)]) (get_as_int ev fld rules) = Inr y)
        int_field_ALL xs" "m = concat xs"
    by (auto simp: int_fields_map_def res_simps)
  from xs(1) mem obtain v where v: "get_as_int ev f rules = Inr v"
    by (fastforce simp: list_all2_conv_all_nth res_simps in_set_conv_nth)
  from conc[OF xs(1) dist mem v] v xs(2) show ?thesis by simp
qed

section \<open>Properties\<close>

text \<open>C26: Whatever the sequence of queries made on a fresh helper value for a power levels event,
  under the same authorization rules the cached answers are exactly those read from the
  event's content.\<close>

theorem power_levels_caches_transparent:
  "cached_queries rules qs (room_power_levels_event_new ev) = map (\<lambda>q. plain_query rules q ev) qs"
  by (rule cached_queries_ok[OF cache_ok_new])

end
