(* ===== verification/Example_Room.thy ===== *)
theory Example_Room
  imports Power_Levels_Event
begin

text \<open>
  A small concrete room on which the theorems of the later theories are instantiated: version 11,
  created by \<open>@a:h\<close>; \<open>@a:h\<close> (level 100) and \<open>@b:h\<close> (level 50) are joined, \<open>@c:h\<close> is
  banned and \<open>@d:h\<close> is invited; the join rule is \<open>invite\<close>.
\<close>

definition ex_env :: env where
  "ex_env = \<lparr>unicode_alnum = (\<lambda>_. False), base64_standard = Some, base64_url_safe = Some,
     ed25519_verify = (\<lambda>key sig _. key = sig), to_json_string = (\<lambda>_. Some '''')\<rparr>"

definition ex_event :: "string \<Rightarrow> string \<Rightarrow> string \<Rightarrow> string option \<Rightarrow> json \<Rightarrow> pdu" where
  "ex_event i sender t key content =
     \<lparr>ev_id = i, ev_room_id = ''!r:h'', ev_sender = sender, ev_ts = 1, ev_type = t, ev_content = content,
      ev_state_key = key, ev_prev_events = [''$p''], ev_auth_events = [], ev_redacts = None, ev_rejected = False\<rparr>"

definition ex_create :: pdu where
  "ex_create = ex_event ''$create'' ''@a:h'' CreateType (Some '''') (JObj [(''room_version'', JStr ''11'')])"

definition ex_member :: "string \<Rightarrow> string \<Rightarrow> string \<Rightarrow> pdu" where
  "ex_member sender target m =
     ex_event (CHR ''$'' # target) sender MemberType (Some target) (JObj [(''membership'', JStr m)])"

definition ex_power_levels :: "string \<Rightarrow> (string \<times> json) list \<Rightarrow> pdu" where
  "ex_power_levels sender users = ex_event ''$pl'' sender PowerLevelsType (Some '''') (JObj [(''users'', JObj users)])"

definition ex_levels :: pdu where
  "ex_levels = ex_power_levels ''@a:h'' [(''@a:h'', JInt 100), (''@b:h'', JInt 50)]"

definition ex_state :: fetch_state where
  "ex_state t key =
     (if t = CreateType then Inr ex_create
      else if t = PowerLevelsType then Inr ex_levels
      else if t = JoinRulesType
      then Inr (ex_event ''$j'' ''@a:h'' JoinRulesType (Some '''') (JObj [(''join_rule'', JStr ''invite'')]))
      else if t = MemberType \<and> (key = ''@a:h'' \<or> key = ''@b:h'') then Inr (ex_member key key ''join'')
      else if t = MemberType \<and> key = ''@c:h'' then Inr (ex_member ''@a:h'' key ''ban'')
      else if t = MemberType \<and> key = ''@d:h'' then Inr (ex_member ''@a:h'' key ''invite'')
      else Inl (NotFound key))"

abbreviation ex_rules :: authorization_rules where "ex_rules \<equiv> AuthorizationRules_V11"

definition ex_name_type :: string where "ex_name_type = ''m.room.name''"

definition ex_name :: pdu where
  "ex_name = ex_event ''$name'' ''@b:h'' ex_name_type (Some '''') (JObj [(''name'', JStr ''n'')])"

section \<open>Evaluation\<close>

lemma ex_name_type_neqs [simp]:
  "ex_name_type \<noteq> CreateType" "ex_name_type \<noteq> MemberType" "ex_name_type \<noteq> JoinRulesType"
  "ex_name_type \<noteq> AliasesType" "ex_name_type \<noteq> ThirdPartyInviteType" "ex_name_type \<noteq> PowerLevelsType"
  "ex_name_type \<noteq> RedactionType"
  by (simp_all add: ex_name_type_def type_defs)

lemma ex_rules_fields [simp]:
  "special_case_room_redaction ex_rules = False" "special_case_room_aliases ex_rules = False"
  "limit_notifications_power_levels ex_rules = True" "knocking ex_rules = True"
  "restricted_join_rule ex_rules = True" "knock_restricted_join_rule ex_rules = True"
  "integer_power_levels ex_rules = True" "use_room_create_sender ex_rules = True"
  "explicitly_privilege_room_creators ex_rules = False" "additional_room_creators ex_rules = False"
  "room_create_event_id_as_room_id ex_rules = False"
  by (simp_all add: ver_defs)

lemmas de_eval = de_optional1_def de_required1_def struct_fields_def field_values_def de_opt_def
  de_string_def de_bool_def de_membership_def de_join_rule_def membership_from_str_def
  join_rule_from_str_def content_membership_def or_default_def

lemma ex_event_simps [simp]:
  "ev_id (ex_event i s t k c) = i" "ev_room_id (ex_event i s t k c) = ''!r:h''"
  "ev_sender (ex_event i s t k c) = s" "ev_type (ex_event i s t k c) = t"
  "ev_content (ex_event i s t k c) = c" "ev_state_key (ex_event i s t k c) = k"
  "ev_prev_events (ex_event i s t k c) = [''$p'']" "ev_redacts (ex_event i s t k c) = None"
  "ev_rejected (ex_event i s t k c) = False" "ev_ts (ex_event i s t k c) = 1"
  "ev_auth_events (ex_event i s t k c) = []"
  by (simp_all add: ex_event_def)

lemma ex_member_simps [simp]:
  "ev_sender (ex_member s t m) = s" "ev_type (ex_member s t m) = MemberType"
  "ev_state_key (ex_member s t m) = Some t" "ev_prev_events (ex_member s t m) = [''$p'']"
  "content_membership (ev_content (ex_member s t m)) = Inr (membership_from_str m)"
  by (simp_all add: ex_member_def de_eval)

lemma ex_name_simps [simp]:
  "ev_id ex_name = ''$name''" "ev_room_id ex_name = ''!r:h''" "ev_sender ex_name = ''@b:h''"
  "ev_type ex_name = ex_name_type" "ev_state_key ex_name = Some ''''" "ev_rejected ex_name = False"
  "ev_auth_events ex_name = []"
  by (simp_all add: ex_name_def)

lemma ex_create_simps [simp]:
  "ev_id ex_create = ''$create''" "ev_room_id ex_create = ''!r:h''" "ev_sender ex_create = ''@a:h''"
  "ev_type ex_create = CreateType" "ev_state_key ex_create = Some ''''" "ev_rejected ex_create = False"
  "ev_auth_events ex_create = []"
  by (simp_all add: ex_create_def)

lemma ex_user_ids [simp]:
  "user_id_validate ''@a:h'' = Inr ()" "user_id_validate ''@b:h'' = Inr ()"
  "user_id_validate ''@c:h'' = Inr ()" "user_id_validate ''@d:h'' = Inr ()"
  by (simp_all add: user_id_validate_def parse_id_def validate_id_def MAX_BYTES_def
      localpart_is_fully_conforming_def conforming_byte_def server_name_validate_def std_eval)

lemma ex_rules_of [simp]: "create_version_rules E ex_create = Inr RoomVersionRules_V11"
  by (simp add: create_version_rules_def create_room_version_def ex_create_def de_room_version_def
      de_eval room_version_try_from_def)

lemma ex_creators [simp]:
  "create_creator E ex_create = Inr ''@a:h''" "create_creators E ex_create = Inr [''@a:h'']"
  "create_federate ex_create = Inr True"
  by (simp_all add: create_creator_def create_creators_def create_additional_creators_def
      create_federate_def ver_defs) (simp_all add: ex_create_def de_eval)

lemma ex_state_create [simp]: "ex_state CreateType '''' = Inr ex_create"
  by (simp add: ex_state_def)

lemma ex_memberships [simp]:
  "state_user_membership ex_state ''@a:h'' = Inr Join" "state_user_membership ex_state ''@b:h'' = Inr Join"
  "state_user_membership ex_state ''@c:h'' = Inr Ban" "state_user_membership ex_state ''@d:h'' = Inr Invite"
  by (simp_all add: state_user_membership_def ex_state_def membership_from_str_def)

lemma ex_join_rule [simp]: "state_join_rule ex_state = Inr RuleInvite"
  by (simp add: state_join_rule_def ex_state_def event_join_rule_def de_eval)

lemma ex_state_levels [simp]: "state_room_power_levels_event ex_state = Some ex_levels"
  by (simp add: state_room_power_levels_event_def ex_state_def)

lemma ex_content [simp]:
  "deserialized_content (ex_power_levels s us)
    = Inr [(''users'', to_value (JObj us))]"
  by (simp add: deserialized_content_def ex_power_levels_def de_map_def bt_from_iter_def)

lemma ex_int [simp]: "get_as_int (ex_power_levels s us) f rules = Inr None"
  by (cases f) (simp_all add: get_as_int_def)

lemma ex_maps [simp]:
  "pl_event_events (ex_power_levels s us) rules = Inr None"
  "pl_event_notifications (ex_power_levels s us) rules = Inr None"
  by (simp_all add: pl_event_events_def pl_event_notifications_def get_as_int_map_def)

lemma ex_users [simp]:
  "pl_event_users (ex_power_levels s [(''@a:h'', JInt 100), (''@b:h'', JInt n)]) rules
    = (if i64_min \<le> n \<and> n \<le> i64_max then Inr (Some [(''@a:h'', 100), (''@b:h'', n)]) else Inl OtherState)"
  by (auto simp: pl_event_users_def get_as_int_map_def bt_from_iter_def de_map_def de_user_id_def de_i64_def
      btreemap_deserialize_v1_power_level_values_def deserialize_v1_power_level_def i64_min_def i64_max_def)

lemma ex_user_levels [simp]:
  "user_power_level_of (Some ex_levels) ''@a:h'' cs ex_rules = Inr (IntLevel 100)"
  "user_power_level_of (Some ex_levels) ''@b:h'' cs ex_rules = Inr (IntLevel 50)"
  "user_power_level_of (Some ex_levels) ''@c:h'' cs ex_rules = Inr (IntLevel 0)"
  "user_power_level_of (Some ex_levels) ''@d:h'' cs ex_rules = Inr (IntLevel 0)"
  by (simp_all add: user_power_level_of_def ex_levels_def pl_event_user_power_level_def opt_get_def
      get_as_int_or_default_def i64_min_def i64_max_def ver_defs)

lemma ex_int_levels [simp]:
  "int_or_default_of (Some ex_levels) f rules = Inr (int_field_default_value f)"
  by (simp add: int_or_default_of_def ex_levels_def get_as_int_or_default_def)

end
