(* ===== verification/Room_Member_Auth.thy ===== *)
theory Room_Member_Auth
  imports Example_Room
begin

text \<open>
  The authorization rules of \<open>m.room.member\<close> events
  (\<open>core/src/state/event_auth/room_member.rs\<close>): one definition per membership, and the rule for
  invites that come from a third-party identifier.
\<close>

section \<open>Joining\<close>

definition check_room_member_join ::
  "env \<Rightarrow> pdu \<Rightarrow> string \<Rightarrow> authorization_rules \<Rightarrow> pdu \<Rightarrow> fetch_state \<Rightarrow> state_error + unit" where
  "check_room_member_join E ev target rules create fetch =
     and_then (create_creator E create) (\<lambda>creator.
     and_then (create_creators E create) (\<lambda>creators.
     if ev_prev_events ev = [ev_id create] \<and> target = creator then Inr () else
     and_then (ensure (ev_sender ev = target) Forbidden) (\<lambda>_.
     and_then (state_user_membership fetch target) (\<lambda>current.
     and_then (ensure (current \<noteq> Ban) Forbidden) (\<lambda>_.
     and_then (state_join_rule fetch) (\<lambda>rule.
     if (rule = RuleInvite \<or> knocking rules \<and> rule = RuleKnock) \<and> (current = Invite \<or> current = Join)
     then Inr ()
     else if restricted_join_rule rules \<and> rule = RuleRestricted
       \<or> knock_restricted_join_rule rules \<and> rule = RuleKnockRestricted
     then (if current = Join \<or> current = Invite then Inr () else
       case content_join_authorised_via_users_server (ev_content ev) of
         None \<Rightarrow> Inl Forbidden
       | Some via \<Rightarrow>
           and_then (state_user_membership fetch via) (\<lambda>via_membership.
           and_then (ensure (via_membership = Join) Forbidden) (\<lambda>_.
           let pl = state_room_power_levels_event fetch in
           and_then (user_power_level_of pl via creators rules) (\<lambda>via_level.
           and_then (int_or_default_of pl FInvite rules) (\<lambda>invite_level.
           ensure (level_ge via_level invite_level) Forbidden)))))
     else ensure (rule = RulePublic) Forbidden))))))"

section \<open>Inviting\<close>

text \<open>A loop body that may return from the function: \<open>None\<close> continues.\<close>

fun first_return :: "('a \<Rightarrow> 'r option) \<Rightarrow> 'a list \<Rightarrow> 'r option" where
  "first_return f [] = None"
| "first_return f (x # xs) = (case f x of Some r \<Rightarrow> Some r | None \<Rightarrow> first_return f xs)"

definition check_invite_signature ::
  "env \<Rightarrow> string list \<Rightarrow> string \<Rightarrow> string \<times> cjson \<Rightarrow> (state_error + unit) option" where
  "check_invite_signature E public_keys json entry =
     (case key_id_validate any_key_name_validate (fst entry) of
        Inl Panic \<Rightarrow> Some (Inl StatePanic)
      | Inl (Err e) \<Rightarrow> None
      | Inr _ \<Rightarrow>
          (case key_algorithm (fst entry) of
             Inl f \<Rightarrow> Some (Inl StatePanic)
           | Inr algorithm \<Rightarrow>
               (case Option.bind (as_str (snd entry)) (base64_standard E) of
                  None \<Rightarrow> None
                | Some signature \<Rightarrow>
                    if list_ex (\<lambda>key. case public_key_decode E key of
                          None \<Rightarrow> False
                        | Some public_key \<Rightarrow> verify_canonical_json_bytes E algorithm public_key signature json)
                        public_keys
                    then Some (Inr ()) else None)))"

definition check_invite_entity ::
  "env \<Rightarrow> string list \<Rightarrow> string \<Rightarrow> cjson \<Rightarrow> (state_error + unit) option" where
  "check_invite_entity E public_keys json signatures =
     (case as_object signatures of
        None \<Rightarrow> Some (Inl OtherState)
      | Some entries \<Rightarrow> first_return (check_invite_signature E public_keys json) entries)"

definition check_third_party_invite ::
  "env \<Rightarrow> pdu \<Rightarrow> third_party_invite \<Rightarrow> string \<Rightarrow> fetch_state \<Rightarrow> state_error + unit" where
  "check_third_party_invite E ev invite target fetch =
     and_then (state_user_membership fetch target) (\<lambda>current.
     and_then (ensure (current \<noteq> Ban) OtherState) (\<lambda>_.
     and_then (invite_token invite) (\<lambda>token.
     and_then (invite_mxid invite) (\<lambda>mxid.
     and_then (ensure (target = mxid) OtherState) (\<lambda>_.
     and_then (ok_or OtherState (state_room_third_party_invite_event fetch token)) (\<lambda>invite_event.
     and_then (ensure (ev_sender ev = ev_sender invite_event) OtherState) (\<lambda>_.
     and_then (event_public_keys invite_event) (\<lambda>public_keys.
     and_then (invite_signatures invite) (\<lambda>signatures.
     and_then (invite_signed_canonical_json E invite) (\<lambda>json.
     unwrap_or (Inl OtherState)
       (first_return (check_invite_entity E public_keys json) (map snd signatures))))))))))))"

definition check_room_member_invite ::
  "env \<Rightarrow> pdu \<Rightarrow> string \<Rightarrow> authorization_rules \<Rightarrow> pdu \<Rightarrow> fetch_state \<Rightarrow> state_error + unit" where
  "check_room_member_invite E ev target rules create fetch =
     and_then (content_third_party_invite (ev_content ev)) (\<lambda>third_party_invite.
     case third_party_invite of
       Some invite \<Rightarrow> check_third_party_invite E ev invite target fetch
     | None \<Rightarrow>
         and_then (state_user_membership fetch (ev_sender ev)) (\<lambda>sender_membership.
         and_then (ensure (sender_membership = Join) Forbidden) (\<lambda>_.
         and_then (state_user_membership fetch target) (\<lambda>current.
         and_then (ensure (\<not> (current = Join \<or> current = Ban)) Forbidden) (\<lambda>_.
         and_then (create_creators E create) (\<lambda>creators.
         let pl = state_room_power_levels_event fetch in
         and_then (user_power_level_of pl (ev_sender ev) creators rules) (\<lambda>sender_level.
         and_then (int_or_default_of pl FInvite rules) (\<lambda>invite_level.
         ensure (level_ge sender_level invite_level) Forbidden))))))))"

section \<open>Leaving, kicking and unbanning\<close>

definition check_room_member_leave ::
  "env \<Rightarrow> pdu \<Rightarrow> string \<Rightarrow> authorization_rules \<Rightarrow> pdu \<Rightarrow> fetch_state \<Rightarrow> state_error + unit" where
  "check_room_member_leave E ev target rules create fetch =
     and_then (state_user_membership fetch (ev_sender ev)) (\<lambda>sender_membership.
     if ev_sender ev = target
     then ensure ((sender_membership = Join \<or> sender_membership = Invite)
            \<or> knocking rules \<and> sender_membership = Knock) Forbidden
     else
     and_then (ensure (sender_membership = Join) Forbidden) (\<lambda>_.
     and_then (create_creators E create) (\<lambda>creators.
     let pl = state_room_power_levels_event fetch in
     and_then (state_user_membership fetch target) (\<lambda>current.
     and_then (user_power_level_of pl (ev_sender ev) creators rules) (\<lambda>sender_level.
     and_then (int_or_default_of pl FBan rules) (\<lambda>ban_level.
     and_then (ensure (\<not> (current = Ban \<and> \<not> level_ge sender_level ban_level)) Forbidden) (\<lambda>_.
     and_then (int_or_default_of pl FKick rules) (\<lambda>kick_level.
     and_then (user_power_level_of pl target creators rules) (\<lambda>target_level.
     ensure (level_ge sender_level kick_level \<and> target_level < sender_level) Forbidden)))))))))"

section \<open>Banning and knocking\<close>

definition check_room_member_ban ::
  "env \<Rightarrow> pdu \<Rightarrow> string \<Rightarrow> authorization_rules \<Rightarrow> pdu \<Rightarrow> fetch_state \<Rightarrow> state_error + unit" where
  "check_room_member_ban E ev target rules create fetch =
     and_then (state_user_membership fetch (ev_sender ev)) (\<lambda>sender_membership.
     and_then (ensure (sender_membership = Join) Forbidden) (\<lambda>_.
     and_then (create_creators E create) (\<lambda>creators.
     let pl = state_room_power_levels_event fetch in
     and_then (user_power_level_of pl (ev_sender ev) creators rules) (\<lambda>sender_level.
     and_then (int_or_default_of pl FBan rules) (\<lambda>ban_level.
     and_then (user_power_level_of pl target creators rules) (\<lambda>target_level.
     ensure (level_ge sender_level ban_level \<and> target_level < sender_level) Forbidden))))))"

definition check_room_member_knock ::
  "pdu \<Rightarrow> string \<Rightarrow> authorization_rules \<Rightarrow> fetch_state \<Rightarrow> state_error + unit" where
  "check_room_member_knock ev target rules fetch =
     and_then (state_join_rule fetch) (\<lambda>rule.
     and_then (ensure (rule = RuleKnock \<or> knock_restricted_join_rule rules \<and> rule = RuleKnockRestricted)
                Forbidden) (\<lambda>_.
     and_then (ensure (ev_sender ev = target) Forbidden) (\<lambda>_.
     and_then (state_user_membership fetch (ev_sender ev)) (\<lambda>sender_membership.
     ensure (\<not> (sender_membership = Ban \<or> sender_membership = Invite \<or> sender_membership = Join))
       Forbidden))))"

section \<open>All membership changes\<close>

definition check_room_member ::
  "env \<Rightarrow> pdu \<Rightarrow> authorization_rules \<Rightarrow> pdu \<Rightarrow> fetch_state \<Rightarrow> state_error + unit" where
  "check_room_member E ev rules create fetch =
     and_then (ok_or Forbidden (ev_state_key ev)) (\<lambda>target.
     and_then (map_err (\<lambda>_. Forbidden) (user_id_validate target)) (\<lambda>_.
     and_then (content_membership (ev_content ev)) (\<lambda>membership.
     case membership of
       Join \<Rightarrow> check_room_member_join E ev target rules create fetch
     | Invite \<Rightarrow> check_room_member_invite E ev target rules create fetch
     | Leave \<Rightarrow> check_room_member_leave E ev target rules create fetch
     | Ban \<Rightarrow> check_room_member_ban E ev target rules create fetch
     | Knock \<Rightarrow> if knocking rules then check_room_member_knock ev target rules fetch else Inl Forbidden
     | CustomMembership _ \<Rightarrow> Inl Forbidden)))"

section \<open>Reading the checks back\<close>

lemma first_return_Some:
  "first_return f xs = Some r \<Longrightarrow> \<exists>x\<in>set xs. f x = Some r"
  by (induction xs) (auto split: option.splits)

lemma check_room_member_state_key:
  "check_room_member E ev rules create fetch = Inr u \<Longrightarrow> \<exists>target. ev_state_key ev = Some target"
  by (auto simp: check_room_member_def res_simps)

lemma check_room_member_membership:
  assumes "check_room_member E ev rules create fetch = Inr u" "ev_state_key ev = Some target"
  shows "content_membership (ev_content ev) = Inr Join \<Longrightarrow> check_room_member_join E ev target rules create fetch = Inr ()"
    and "content_membership (ev_content ev) = Inr Invite \<Longrightarrow> check_room_member_invite E ev target rules create fetch = Inr ()"
    and "content_membership (ev_content ev) = Inr Leave \<Longrightarrow> check_room_member_leave E ev target rules create fetch = Inr ()"
    and "content_membership (ev_content ev) = Inr Ban \<Longrightarrow> check_room_member_ban E ev target rules create fetch = Inr ()"
    and "content_membership (ev_content ev) = Inr Knock \<Longrightarrow> check_room_member_knock ev target rules fetch = Inr ()"
  using assms by (auto simp: check_room_member_def res_simps split: if_splits)

lemma check_room_member_join_Inr:
  assumes "check_room_member_join E ev target rules create fetch = Inr ()"
    and "\<not> (ev_prev_events ev = [ev_id create] \<and> create_creator E create = Inr target)"
  obtains creators current rule where "create_creators E create = Inr creators" "ev_sender ev = target"
    "state_user_membership fetch target = Inr current" "current \<noteq> Ban" "state_join_rule fetch = Inr rule"
    "rule = RulePublic \<or> current = Invite \<or> current = Join
     \<or> (rule = RuleRestricted \<and> restricted_join_rule rules
         \<or> rule = RuleKnockRestricted \<and> knock_restricted_join_rule rules)
       \<and> (\<exists>via l i. content_join_authorised_via_users_server (ev_content ev) = Some via
           \<and> state_user_membership fetch via = Inr Join
           \<and> user_power_level_of (state_room_power_levels_event fetch) via creators rules = Inr l
           \<and> int_or_default_of (state_room_power_levels_event fetch) FInvite rules = Inr i
           \<and> level_ge l i)"
proof -
  let ?pl = "state_room_power_levels_event fetch"
  let ?vouched = "\<lambda>creators via l i. content_join_authorised_via_users_server (ev_content ev) = Some via
    \<and> state_user_membership fetch via = Inr Join \<and> user_power_level_of ?pl via creators rules = Inr l
    \<and> int_or_default_of ?pl FInvite rules = Inr i \<and> level_ge l i"
  from assms(1) obtain creator creators where c: "create_creator E create = Inr creator"
    "create_creators E create = Inr creators"
    by (auto simp only: check_room_member_join_def and_then_Inr_iff)
  with assms(2) have nf: "\<not> (ev_prev_events ev = [ev_id create] \<and> target = creator)" by auto
  from nf assms(1) c obtain current rule where *: "ev_sender ev = target"
    "state_user_membership fetch target = Inr current" "current \<noteq> Ban" "state_join_rule fetch = Inr rule"
    by (simp only: check_room_member_join_def and_then_simps if_False) (auto simp only: res_simps)
  have "rule = RulePublic \<or> current = Invite \<or> current = Join
     \<or> (rule = RuleRestricted \<and> restricted_join_rule rules
         \<or> rule = RuleKnockRestricted \<and> knock_restricted_join_rule rules)
       \<and> (\<exists>via l i. ?vouched creators via l i)"
  proof (rule ccontr)
    assume neg: "\<not> ?thesis"
    then have n: "rule \<noteq> RulePublic" "current \<noteq> Invite" "current \<noteq> Join" by auto
    from assms(1) c nf * n neg show False
      by (cases "content_join_authorised_via_users_server (ev_content ev)")
        (auto simp: check_room_member_join_def res_simps Let_def split: if_splits)
  qed
  from that[OF c(2) * this] show thesis .
qed

lemma check_third_party_invite_Inr:
  assumes "check_third_party_invite E ev invite target fetch = Inr ()"
  obtains token invite_event public_keys signatures json entity entries key_id signature key public_key sig
  where "invite_token invite = Inr token" "invite_mxid invite = Inr target"
    "state_user_membership fetch target \<noteq> Inr Ban"
    "fetch ThirdPartyInviteType token = Inr invite_event" "ev_sender invite_event = ev_sender ev"
    "event_public_keys invite_event = Inr public_keys" "invite_signatures invite = Inr signatures"
    "invite_signed_canonical_json E invite = Inr json"
    "(entity, CObject entries) \<in> set signatures" "(key_id, CString signature) \<in> set entries"
    "key_algorithm key_id = Inr ''ed25519''" "base64_standard E signature = Some sig"
    "key \<in> set public_keys" "public_key_decode E key = Some public_key"
    "ed25519_verify E public_key sig json"
proof -
  from assms obtain token invite_event public_keys signatures json where *:
    "invite_token invite = Inr token" "invite_mxid invite = Inr target"
    "state_user_membership fetch target \<noteq> Inr Ban"
    "fetch ThirdPartyInviteType token = Inr invite_event" "ev_sender invite_event = ev_sender ev"
    "event_public_keys invite_event = Inr public_keys" "invite_signatures invite = Inr signatures"
    "invite_signed_canonical_json E invite = Inr json"
    and r: "unwrap_or (Inl OtherState)
       (first_return (check_invite_entity E public_keys json) (map snd signatures)) = Inr ()"
    by (auto simp: check_third_party_invite_def res_simps state_room_third_party_invite_event_def)
  from r have "first_return (check_invite_entity E public_keys json) (map snd signatures) = Some (Inr ())"
    by (cases "first_return (check_invite_entity E public_keys json) (map snd signatures)") simp_all
  from first_return_Some[OF this] obtain entity v where
    v: "(entity, v) \<in> set signatures" "check_invite_entity E public_keys json v = Some (Inr ())"
    by auto
  then obtain entries where e: "as_object v = Some entries"
    and f: "first_return (check_invite_signature E public_keys json) entries = Some (Inr ())"
    by (auto simp: check_invite_entity_def split: option.splits)
  from e have "v = CObject entries" by (cases v) simp_all
  from first_return_Some[OF f] obtain key_id sv where
    s: "(key_id, sv) \<in> set entries" "check_invite_signature E public_keys json (key_id, sv) = Some (Inr ())"
    by auto
  then obtain alg sig key public_key where a: "key_algorithm key_id = Inr alg"
    "Option.bind (as_str sv) (base64_standard E) = Some sig"
    "key \<in> set public_keys" "public_key_decode E key = Some public_key"
    "verify_canonical_json_bytes E alg public_key sig json"
    by (auto simp: check_invite_signature_def list_ex_iff
        split: sum.splits fault.splits option.splits if_splits)
  then obtain st where "as_str sv = Some st" "base64_standard E st = Some sig"
    by (auto simp: bind_eq_Some_conv)
  moreover from this(1) have "sv = CString st" by (cases sv) simp_all
  ultimately show thesis
    using that[OF * v(1)[unfolded \<open>v = CObject entries\<close>]] s(1) a
    by (auto simp: verify_canonical_json_bytes_def)
qed

section \<open>Properties\<close>

text \<open>C23: A join that is allowed is either the first join of the room's creator, or is sent by the
  joining user, who is not banned; and then the room is public, or the user is already invited or
  joined, or the join rule is restricted and a joined member whose level suffices to invite
  vouches for the join.\<close>

theorem allowed_join:
  assumes "content_membership (ev_content ev) = Inr Join"
    and "check_room_member E ev rules create fetch = Inr ()"
  shows "\<exists>target. ev_state_key ev = Some target \<and>
    (ev_prev_events ev = [ev_id create] \<and> create_creator E create = Inr target
     \<or> ev_sender ev = target \<and> state_user_membership fetch target \<noteq> Inr Ban \<and>
       (state_join_rule fetch = Inr RulePublic
        \<or> state_user_membership fetch target \<in> {Inr Invite, Inr Join}
        \<or> state_join_rule fetch \<in> {Inr RuleRestricted, Inr RuleKnockRestricted} \<and>
          (\<exists>via creators l i. content_join_authorised_via_users_server (ev_content ev) = Some via
            \<and> state_user_membership fetch via = Inr Join \<and> create_creators E create = Inr creators
            \<and> user_power_level_of (state_room_power_levels_event fetch) via creators rules = Inr l
            \<and> int_or_default_of (state_room_power_levels_event fetch) FInvite rules = Inr i
            \<and> level_ge l i)))"
proof -
  from check_room_member_state_key[OF assms(2)] obtain target where
    k: "ev_state_key ev = Some target" by blast
  note t = k check_room_member_membership(1)[OF assms(2) k assms(1)]
  show ?thesis
  proof (cases "ev_prev_events ev = [ev_id create] \<and> create_creator E create = Inr target")
    case True
    with t show ?thesis by blast
  next
    case False
    show ?thesis
      by (rule check_room_member_join_Inr[OF t(2) False], rule exI[of _ target])
        (use t(1) in auto)
  qed
qed

theorem allowed_join_witness:
  "check_room_member ex_env (ex_member ''@d:h'' ''@d:h'' ''join'') ex_rules ex_create ex_state = Inr ()
   \<and> state_user_membership ex_state ''@d:h'' \<noteq> Inr Ban"
proof -
  let ?ev = "ex_member ''@d:h'' ''@d:h'' ''join''"
  have m: "content_membership (ev_content ?ev) = Inr Join" by (simp add: membership_from_str_def)
  have c: "check_room_member ex_env ?ev ex_rules ex_create ex_state = Inr ()"
    by (simp add: check_room_member_def membership_from_str_def check_room_member_join_def)
  from allowed_join[OF m c] c show ?thesis by auto
qed

text \<open>C24: Removing another user, by a ban, a kick or the end of a ban, is only allowed to a joined
  user whose level is strictly higher than the target's and reaches the ban or kick level of the
  room; a ban is only lifted by a user who reaches the ban level as well.\<close>

theorem allowed_removal:
  assumes "content_membership (ev_content ev) = Inr m" "m \<in> {Leave, Ban}"
    and "ev_state_key ev = Some target" "m = Ban \<or> ev_sender ev \<noteq> target"
    and "check_room_member E ev rules create fetch = Inr ()"
  shows "\<exists>creators s t ban kick. create_creators E create = Inr creators
    \<and> state_user_membership fetch (ev_sender ev) = Inr Join
    \<and> user_power_level_of (state_room_power_levels_event fetch) (ev_sender ev) creators rules = Inr s
    \<and> user_power_level_of (state_room_power_levels_event fetch) target creators rules = Inr t
    \<and> t < s
    \<and> int_or_default_of (state_room_power_levels_event fetch) FBan rules = Inr ban
    \<and> (level_ge s ban \<or> m = Leave \<and> state_user_membership fetch target \<noteq> Inr Ban)
    \<and> (m = Ban \<or> int_or_default_of (state_room_power_levels_event fetch) FKick rules = Inr kick \<and> level_ge s kick)"
proof (cases "m = Ban")
  case True
  from check_room_member_membership(4)[OF assms(5,3)] True assms(1)
  have "check_room_member_ban E ev target rules create fetch = Inr ()" by simp
  with True show ?thesis
    by (auto simp: check_room_member_ban_def res_simps Let_def)
next
  case False
  with assms have m: "m = Leave" "ev_sender ev \<noteq> target" by auto
  from check_room_member_membership(3)[OF assms(5,3)] m assms(1)
  have "check_room_member_leave E ev target rules create fetch = Inr ()" by simp
  with m show ?thesis
    by (auto simp: check_room_member_leave_def res_simps Let_def)
qed

theorem allowed_removal_witness:
  "check_room_member ex_env (ex_member ''@a:h'' ''@b:h'' ''ban'') ex_rules ex_create ex_state = Inr ()
   \<and> (\<exists>s t. user_power_level_of (Some ex_levels) ''@a:h'' [''@a:h''] ex_rules = Inr s
        \<and> user_power_level_of (Some ex_levels) ''@b:h'' [''@a:h''] ex_rules = Inr t \<and> t < s)"
proof -
  let ?ev = "ex_member ''@a:h'' ''@b:h'' ''ban''"
  have m: "content_membership (ev_content ?ev) = Inr Ban" by (simp add: membership_from_str_def)
  have c: "check_room_member ex_env ?ev ex_rules ex_create ex_state = Inr ()"
    by (simp add: check_room_member_def membership_from_str_def check_room_member_ban_def)
  from allowed_removal[OF m _ _ _ c] c show ?thesis by auto
qed



end
