(* ===== verification/Event_Auth.thy ===== *)
theory Event_Auth
  imports Room_Member_Auth
begin

text \<open>
  The authorization rules of events (\<open>core/src/state/event_auth.rs\<close>): the selection of auth
  events, the state-independent and the state-dependent checks, and the rules of create, power
  levels and redaction events.
\<close>

section \<open>Auth events selection\<close>

definition push_new :: "'a \<Rightarrow> 'a list \<Rightarrow> 'a list" where
  "push_new k ks = (if k \<in> set ks then ks else ks @ [k])"

definition base_auth_types :: "string \<Rightarrow> authorization_rules \<Rightarrow> (string \<times> string) list" where
  "base_auth_types sender rules =
     [(PowerLevelsType, ''''), (MemberType, sender)]
     @ (if \<not> room_create_event_id_as_room_id rules then [(CreateType, '''')] else [])"

definition auth_types_for_event ::
  "string \<Rightarrow> string \<Rightarrow> string option \<Rightarrow> json \<Rightarrow> authorization_rules \<Rightarrow> state_error + (string \<times> string) list" where
  "auth_types_for_event event_type sender state_key content rules =
     (if event_type = CreateType then Inr [] else
      let types = base_auth_types sender rules in
      if event_type = MemberType then
        and_then (ok_or OtherState state_key) (\<lambda>key.
        let types = push_new (MemberType, key) types in
        and_then (content_membership content) (\<lambda>membership.
        let types = (if membership \<in> {Join, Invite, Knock} then push_new (JoinRulesType, '''') types else types) in
        and_then (if membership = Invite
          then and_then (content_third_party_invite content) (\<lambda>invite.
               case invite of
                 None \<Rightarrow> Inr types
               | Some i \<Rightarrow> map_ok (\<lambda>token. push_new (ThirdPartyInviteType, token) types) (invite_token i))
          else Inr types) (\<lambda>types.
        Inr (if membership = Join \<and> restricted_join_rule rules
             then case content_join_authorised_via_users_server content of
                    None \<Rightarrow> types
                  | Some u \<Rightarrow> push_new (MemberType, u) types
             else types))))
      else Inr types)"

section \<open>The create event\<close>

definition check_room_create :: "env \<Rightarrow> pdu \<Rightarrow> authorization_rules \<Rightarrow> state_error + unit" where
  "check_room_create E ev rules =
     and_then (ensure (ev_prev_events ev = []) OtherState) (\<lambda>_.
     and_then (if room_create_event_id_as_room_id rules then Inr () else
       and_then (map_err (\<lambda>_. OtherState) (room_server_name (ev_room_id ev))) (\<lambda>room_server.
       and_then (sender_server_name (ev_sender ev)) (\<lambda>sender_server.
       ensure (room_server = sender_server) OtherState))) (\<lambda>_.
     and_then (if use_room_create_sender rules then Inr () else
       and_then (create_has_creator ev) (\<lambda>has. ensure has OtherState)) (\<lambda>_.
     and_then (create_additional_creators E ev) (\<lambda>_. Inr ()))))"

section \<open>State-independent rules\<close>

definition check_auth_event ::
  "pdu \<Rightarrow> (string \<times> string) list \<Rightarrow> fetch_event \<Rightarrow> (string \<times> string) list \<Rightarrow> string
    \<Rightarrow> state_error + (string \<times> string) list" where
  "check_auth_event ev expected fetch seen auth_id =
     and_then (map_err (\<lambda>_. OtherState) (fetch auth_id)) (\<lambda>auth_event.
     and_then (ensure (ev_room_id auth_event = ev_room_id ev) AuthEvent) (\<lambda>_.
     and_then (ok_or AuthEvent (ev_state_key auth_event)) (\<lambda>state_key.
     let key = (ev_type auth_event, state_key) in
     and_then (ensure (key \<notin> set seen) AuthEvent) (\<lambda>_.
     and_then (ensure (key \<in> set expected) AuthEvent) (\<lambda>_.
     and_then (ensure (\<not> ev_rejected auth_event) AuthEvent) (\<lambda>_.
     Inr (key # seen)))))))"

definition check_state_independent_auth_rules ::
  "env \<Rightarrow> authorization_rules \<Rightarrow> pdu \<Rightarrow> fetch_event \<Rightarrow> state_error + unit" where
  "check_state_independent_auth_rules E rules ev fetch =
     (if ev_type ev = CreateType then check_room_create E ev rules else
      and_then (auth_types_for_event (ev_type ev) (ev_sender ev) (ev_state_key ev) (ev_content ev) rules) (\<lambda>expected.
      and_then (fold_result (check_auth_event ev expected fetch) [] (ev_auth_events ev)) (\<lambda>seen.
      and_then (ensure (room_create_event_id_as_room_id rules \<or> list_ex (\<lambda>k. fst k = CreateType) seen) AuthEvent) (\<lambda>_.
      if room_create_event_id_as_room_id rules then
        and_then (map_err (\<lambda>f. case f of Panic \<Rightarrow> StatePanic | Err _ \<Rightarrow> AuthEvent)
          (room_create_event_id (ev_room_id ev))) (\<lambda>create_id.
        and_then (fetch create_id) (\<lambda>create. ensure (\<not> ev_rejected create) AuthEvent))
      else Inr ()))))"

section \<open>Power levels events\<close>

definition opt_keys :: "(string, int) btree option \<Rightarrow> string list" where
  "opt_keys m = (case m of None \<Rightarrow> [] | Some m \<Rightarrow> map fst m)"

definition check_power_level_maps ::
  "(string, int) btree option \<Rightarrow> (string, int) btree option \<Rightarrow> user_power_level
    \<Rightarrow> (string \<Rightarrow> int \<Rightarrow> bool) \<Rightarrow> state_error + unit" where
  "check_power_level_maps current new sender_level reject_current =
     each_ok (\<lambda>key.
       let cur = opt_get current key; nxt = opt_get new key in
       if cur = nxt then Inr () else
       ensure (\<not> ((case cur of None \<Rightarrow> False | Some l \<Rightarrow> reject_current key l)
                 \<or> (case nxt of None \<Rightarrow> False | Some l \<Rightarrow> \<not> level_ge sender_level l))) OtherState)
      (sort (remdups (opt_keys current @ opt_keys new)))"

definition check_int_field ::
  "pdu \<Rightarrow> (int_field \<times> int) list \<Rightarrow> authorization_rules \<Rightarrow> user_power_level \<Rightarrow> int_field \<Rightarrow> state_error + unit" where
  "check_int_field current new_int_fields rules sender_level field =
     and_then (get_as_int current field rules) (\<lambda>cur.
     let nxt = map_of new_int_fields field in
     if cur = nxt then Inr () else
     ensure (\<not> (\<not> level_ge sender_level (unwrap_or (int_field_default_value field) cur)
               \<or> \<not> level_ge sender_level (unwrap_or (int_field_default_value field) nxt))) OtherState)"

definition check_room_power_levels ::
  "pdu \<Rightarrow> pdu option \<Rightarrow> authorization_rules \<Rightarrow> user_power_level \<Rightarrow> string list \<Rightarrow> state_error + unit" where
  "check_room_power_levels ev current rules sender_level creators =
     and_then (int_fields_map ev rules) (\<lambda>new_int_fields.
     and_then (pl_event_events ev rules) (\<lambda>new_events.
     and_then (pl_event_notifications ev rules) (\<lambda>new_notifications.
     and_then (pl_event_users ev rules) (\<lambda>new_users.
     and_then (ensure (\<not> (explicitly_privilege_room_creators rules
         \<and> (case new_users of None \<Rightarrow> False
            | Some users \<Rightarrow> list_ex (\<lambda>c. bt_get users c \<noteq> None) creators))) OtherState) (\<lambda>_.
     case current of
       None \<Rightarrow> Inr ()
     | Some cur \<Rightarrow>
         and_then (each_ok (check_int_field cur new_int_fields rules sender_level) int_field_ALL) (\<lambda>_.
         and_then (pl_event_events cur rules) (\<lambda>current_events.
         and_then (check_power_level_maps current_events new_events sender_level
            (\<lambda>_ l. \<not> level_ge sender_level l)) (\<lambda>_.
         and_then (if limit_notifications_power_levels rules then
            and_then (pl_event_notifications cur rules) (\<lambda>current_notifications.
            check_power_level_maps current_notifications new_notifications sender_level
              (\<lambda>_ l. \<not> level_ge sender_level l))
           else Inr ()) (\<lambda>_.
         and_then (pl_event_users cur rules) (\<lambda>current_users.
         check_power_level_maps current_users new_users sender_level
           (\<lambda>u l. u \<noteq> ev_sender ev \<and> \<not> level_gt sender_level l)))))))))))"

section \<open>Redaction events\<close>

definition check_room_redaction ::
  "pdu \<Rightarrow> pdu option \<Rightarrow> authorization_rules \<Rightarrow> user_power_level \<Rightarrow> state_error + unit" where
  "check_room_redaction ev current rules sender_level =
     and_then (int_or_default_of current FRedact rules) (\<lambda>redact_level.
     if level_ge sender_level redact_level then Inr ()
     else ensure (event_server_name (ev_id ev) = Option.bind (ev_redacts ev) event_server_name) OtherState)"

section \<open>State-dependent rules\<close>

text \<open>The rules that remain once the type is neither create, aliases nor membership.\<close>

definition check_sender_power ::
  "authorization_rules \<Rightarrow> pdu \<Rightarrow> pdu option \<Rightarrow> string list \<Rightarrow> user_power_level \<Rightarrow> state_error + unit" where
  "check_sender_power rules ev pl creators sender_level =
     (if ev_type ev = ThirdPartyInviteType then
         and_then (int_or_default_of pl FInvite rules) (\<lambda>invite_level.
         ensure (level_ge sender_level invite_level) Forbidden)
      else
      and_then (event_power_level_of pl (ev_type ev) (ev_state_key ev) rules) (\<lambda>required.
      and_then (ensure (level_ge sender_level required) Forbidden) (\<lambda>_.
      and_then (ensure (\<not> ((case ev_state_key ev of None \<Rightarrow> False | Some k \<Rightarrow> starts_with (CHR ''@'') k)
                 \<and> ev_state_key ev \<noteq> Some (ev_sender ev))) Forbidden) (\<lambda>_.
      if ev_type ev = PowerLevelsType then check_room_power_levels ev pl rules sender_level creators
      else if special_case_room_redaction rules \<and> ev_type ev = RedactionType
      then check_room_redaction ev pl rules sender_level
      else Inr ()))))"

definition check_sender ::
  "env \<Rightarrow> authorization_rules \<Rightarrow> pdu \<Rightarrow> pdu \<Rightarrow> fetch_state \<Rightarrow> state_error + unit" where
  "check_sender E rules ev create fetch =
     and_then (state_user_membership fetch (ev_sender ev)) (\<lambda>sender_membership.
     and_then (ensure (sender_membership = Join) Forbidden) (\<lambda>_.
     and_then (create_creators E create) (\<lambda>creators.
     let pl = state_room_power_levels_event fetch in
     and_then (user_power_level_of pl (ev_sender ev) creators rules) (\<lambda>sender_level.
     check_sender_power rules ev pl creators sender_level))))"

definition check_federation :: "pdu \<Rightarrow> pdu \<Rightarrow> state_error + unit" where
  "check_federation ev create =
     and_then (create_federate create) (\<lambda>federate.
     if federate then Inr () else
       and_then (sender_server_name (ev_sender create)) (\<lambda>create_server.
       and_then (sender_server_name (ev_sender ev)) (\<lambda>sender_server.
       ensure (create_server = sender_server) Forbidden)))"

definition check_state_dependent_auth_rules ::
  "env \<Rightarrow> authorization_rules \<Rightarrow> pdu \<Rightarrow> fetch_state \<Rightarrow> state_error + unit" where
  "check_state_dependent_auth_rules E rules ev fetch =
     (if ev_type ev = CreateType then Inr () else
      and_then (state_room_create_event fetch) (\<lambda>create.
      and_then (check_federation ev create) (\<lambda>_.
      if special_case_room_aliases rules \<and> ev_type ev = AliasesType then
         and_then (sender_server_name (ev_sender ev)) (\<lambda>sender_server.
         ensure (ev_state_key ev = Some sender_server) Forbidden)
      else if ev_type ev = MemberType then check_room_member E ev rules create fetch
      else check_sender E rules ev create fetch)))"

definition auth_check ::
  "env \<Rightarrow> authorization_rules \<Rightarrow> pdu \<Rightarrow> fetch_event \<Rightarrow> fetch_state \<Rightarrow> state_error + unit" where
  "auth_check E rules ev fetch_event fetch_state =
     and_then (check_state_dependent_auth_rules E rules ev fetch_state) (\<lambda>_.
     check_state_independent_auth_rules E rules ev fetch_event)"

section \<open>Selected auth events\<close>

lemma push_new_simps [simp]:
  "set (push_new k ks) = insert k (set ks)" "distinct (push_new k ks) \<longleftrightarrow> distinct ks"
  by (auto simp: push_new_def)

text \<open>The keys the selection adds for a membership event.\<close>

definition member_auth_types ::
  "string \<Rightarrow> json \<Rightarrow> authorization_rules \<Rightarrow> membership_state \<Rightarrow> (string \<times> string) set" where
  "member_auth_types key content rules m =
     {(MemberType, key)}
     \<union> (if m \<in> {Join, Invite, Knock} then {(JoinRulesType, '''')} else {})
     \<union> (if m = Invite then {(ThirdPartyInviteType, t) | t i.
           content_third_party_invite content = Inr (Some i) \<and> invite_token i = Inr t} else {})
     \<union> (if m = Join \<and> restricted_join_rule rules
        then {(MemberType, u) | u. content_join_authorised_via_users_server content = Some u} else {})"

lemma base_auth_types_simps:
  "set (base_auth_types sender rules) = {(PowerLevelsType, ''''), (MemberType, sender)}
     \<union> (if room_create_event_id_as_room_id rules then {} else {(CreateType, '''')})"
  "distinct (base_auth_types sender rules)"
  by (auto simp: base_auth_types_def)

lemma auth_types_distinct:
  assumes "auth_types_for_event t sender key content rules = Inr ts"
  shows "distinct ts"
  using assms
  by (auto simp: auth_types_for_event_def Let_def res_simps base_auth_types_simps(2)
      split: if_splits option.splits)

lemma auth_types_other:
  assumes "t \<noteq> CreateType" "t \<noteq> MemberType"
  shows "auth_types_for_event t sender key content rules = Inr (base_auth_types sender rules)"
  using assms by (simp add: auth_types_for_event_def)

lemma auth_types_member:
  assumes "auth_types_for_event MemberType sender key content rules = Inr ts"
  obtains k m where "key = Some k" "content_membership content = Inr m"
    "set ts = set (base_auth_types sender rules) \<union> member_auth_types k content rules m"
    "m = Invite \<Longrightarrow> \<exists>i. content_third_party_invite content = Inr i"
proof -
  from assms obtain k m where k: "key = Some k" "content_membership content = Inr m"
    by (auto simp: auth_types_for_event_def Let_def res_simps)
  note defs = auth_types_for_event_def member_auth_types_def Let_def
  have "set ts = set (base_auth_types sender rules) \<union> member_auth_types k content rules m"
  proof (cases "m = Invite")
    case True
    with assms k obtain i where "content_third_party_invite content = Inr i"
      by (auto simp: auth_types_for_event_def Let_def res_simps)
    with True assms k show ?thesis
      by (cases i) (auto simp: defs res_simps)
  next
    case False
    with assms k show ?thesis
      by (cases m; cases "content_join_authorised_via_users_server content")
        (auto simp: defs split: if_splits)
  qed
  moreover from assms k have "m = Invite \<Longrightarrow> \<exists>i. content_third_party_invite content = Inr i"
    by (auto simp: auth_types_for_event_def Let_def res_simps)
  ultimately show thesis using that[OF k] by blast
qed

lemma auth_types_create_key:
  assumes "auth_types_for_event t sender key content rules = Inr ts" "t \<noteq> CreateType"
    and "(CreateType, k) \<in> set ts"
  shows "k = ''''"
proof (cases "t = MemberType")
  case True
  from auth_types_member[OF assms(1)[unfolded True]] obtain j m where
    "set ts = set (base_auth_types sender rules) \<union> member_auth_types j content rules m" by metis
  with assms(3) show ?thesis
    by (auto simp: base_auth_types_simps member_auth_types_def split: if_splits)
next
  case False
  with assms show ?thesis by (auto simp: auth_types_other base_auth_types_simps split: if_splits)
qed

section \<open>The selected events decide\<close>

text \<open>Two views of the room state that agree on the looked-up events give the same lookups.\<close>

lemma state_user_membership_cong:
  "fetch MemberType u = fetch' MemberType u \<Longrightarrow> state_user_membership fetch u = state_user_membership fetch' u"
  by (simp add: state_user_membership_def)

lemma state_room_power_levels_event_cong:
  "fetch PowerLevelsType '''' = fetch' PowerLevelsType ''''
    \<Longrightarrow> state_room_power_levels_event fetch = state_room_power_levels_event fetch'"
  by (simp add: state_room_power_levels_event_def)

lemma state_join_rule_cong:
  "fetch JoinRulesType '''' = fetch' JoinRulesType '''' \<Longrightarrow> state_join_rule fetch = state_join_rule fetch'"
  by (simp add: state_join_rule_def)

lemma check_room_member_join_cong:
  assumes "state_user_membership fetch target = state_user_membership fetch' target"
    and "state_join_rule fetch = state_join_rule fetch'"
    and "state_room_power_levels_event fetch = state_room_power_levels_event fetch'"
    and "\<And>u. content_join_authorised_via_users_server (ev_content ev) = Some u \<Longrightarrow> restricted_join_rule rules
       \<Longrightarrow> state_user_membership fetch u = state_user_membership fetch' u"
    and "knock_restricted_join_rule rules \<Longrightarrow> restricted_join_rule rules"
  shows "check_room_member_join E ev target rules create fetch = check_room_member_join E ev target rules create fetch'"
proof (cases "restricted_join_rule rules")
  case True
  with assms(1-4) show ?thesis
    by (cases "content_join_authorised_via_users_server (ev_content ev)")
      (simp_all add: check_room_member_join_def cong: if_cong)
next
  case False
  with assms(5) have "\<not> knock_restricted_join_rule rules" by blast
  with False assms(1,2) show ?thesis
    by (simp add: check_room_member_join_def cong: if_cong)
qed

lemma check_third_party_invite_cong:
  assumes "state_user_membership fetch target = state_user_membership fetch' target"
    and "\<And>t. invite_token invite = Inr t \<Longrightarrow> fetch ThirdPartyInviteType t = fetch' ThirdPartyInviteType t"
  shows "check_third_party_invite E ev invite target fetch = check_third_party_invite E ev invite target fetch'"
  using assms
  by (cases "invite_token invite")
    (simp_all add: check_third_party_invite_def state_room_third_party_invite_event_def)

lemma check_room_member_cong:
  assumes ts: "auth_types_for_event MemberType (ev_sender ev) (ev_state_key ev) (ev_content ev) rules = Inr ts"
    and eq: "\<And>t k. (t, k) \<in> set ts \<Longrightarrow> fetch t k = fetch' t k"
    and rr: "knock_restricted_join_rule rules \<Longrightarrow> restricted_join_rule rules"
  shows "check_room_member E ev rules create fetch = check_room_member E ev rules create fetch'"
proof -
  from auth_types_member[OF ts] obtain target m where k: "ev_state_key ev = Some target"
    and m: "content_membership (ev_content ev) = Inr m"
    and set: "set ts = set (base_auth_types (ev_sender ev) rules) \<union> member_auth_types target (ev_content ev) rules m"
    and tpi: "m = Invite \<Longrightarrow> \<exists>i. content_third_party_invite (ev_content ev) = Inr i"
    by blast
  have st: "state_user_membership fetch target = state_user_membership fetch' target"
    by (rule state_user_membership_cong, rule eq) (simp add: set member_auth_types_def)
  have ss: "state_user_membership fetch (ev_sender ev) = state_user_membership fetch' (ev_sender ev)"
    by (rule state_user_membership_cong, rule eq) (simp add: set base_auth_types_simps)
  have pl: "state_room_power_levels_event fetch = state_room_power_levels_event fetch'"
    by (rule state_room_power_levels_event_cong, rule eq) (simp add: set base_auth_types_simps)
  have jr: "state_join_rule fetch = state_join_rule fetch'" if "m \<in> {Join, Invite, Knock}"
    by (rule state_join_rule_cong, rule eq) (use that in \<open>auto simp: set member_auth_types_def\<close>)
  show ?thesis
  proof (cases m)
    case Join
    have "check_room_member_join E ev target rules create fetch = check_room_member_join E ev target rules create fetch'"
    proof (rule check_room_member_join_cong[OF st jr pl _ rr])
      fix u assume "content_join_authorised_via_users_server (ev_content ev) = Some u" "restricted_join_rule rules"
      with Join show "state_user_membership fetch u = state_user_membership fetch' u"
        by (intro state_user_membership_cong eq) (simp add: set member_auth_types_def)
    qed (use Join in auto)
    with Join k m show ?thesis by (simp add: check_room_member_def)
  next
    case Invite
    have "check_third_party_invite E ev i target fetch = check_third_party_invite E ev i target fetch'"
      if "content_third_party_invite (ev_content ev) = Inr (Some i)" for i
      by (rule check_third_party_invite_cong[OF st], rule eq)
        (use that Invite in \<open>auto simp: set member_auth_types_def\<close>)
    with Invite tpi have "check_room_member_invite E ev target rules create fetch
        = check_room_member_invite E ev target rules create fetch'"
      by (auto simp: check_room_member_invite_def st ss pl split: option.split)
    with Invite k m show ?thesis by (simp add: check_room_member_def)
  next
    case Knock
    with k m jr show ?thesis by (simp add: check_room_member_def check_room_member_knock_def ss cong: if_cong)
  qed (simp_all add: check_room_member_def k m check_room_member_leave_def check_room_member_ban_def st ss pl cong: if_cong)
qed

lemma check_state_dependent_cong:
  assumes ts: "auth_types_for_event (ev_type ev) (ev_sender ev) (ev_state_key ev) (ev_content ev) rules = Inr ts"
    and eq: "\<And>t k. (t, k) \<in> set ts \<Longrightarrow> fetch t k = fetch' t k"
    and create: "fetch CreateType '''' = fetch' CreateType ''''"
    and rr: "knock_restricted_join_rule rules \<Longrightarrow> restricted_join_rule rules"
  shows "check_state_dependent_auth_rules E rules ev fetch = check_state_dependent_auth_rules E rules ev fetch'"
proof -
  have cr: "state_room_create_event fetch = state_room_create_event fetch'"
    by (simp add: state_room_create_event_def create)
  consider "ev_type ev = CreateType" | "ev_type ev = MemberType"
    | "ev_type ev \<noteq> CreateType" "ev_type ev \<noteq> MemberType" by blast
  then show ?thesis
  proof cases
    case 1
    then show ?thesis by (simp add: check_state_dependent_auth_rules_def)
  next
    case 2
    note m = check_room_member_cong[OF ts[unfolded 2] eq rr]
    from 2 show ?thesis
      by (simp add: check_state_dependent_auth_rules_def cr m cong: if_cong)
  next
    case 3
    with ts have ts': "ts = base_auth_types (ev_sender ev) rules" by (simp add: auth_types_other)
    have ss: "state_user_membership fetch (ev_sender ev) = state_user_membership fetch' (ev_sender ev)"
      by (rule state_user_membership_cong, rule eq) (simp add: ts' base_auth_types_simps)
    have pl: "state_room_power_levels_event fetch = state_room_power_levels_event fetch'"
      by (rule state_room_power_levels_event_cong, rule eq) (simp add: ts' base_auth_types_simps)
    from 3 show ?thesis
      by (simp add: check_state_dependent_auth_rules_def check_sender_def cr ss pl cong: if_cong)
  qed
qed

section \<open>Changes of power levels\<close>

lemma opt_get_keys: "opt_get m k \<noteq> None \<Longrightarrow> k \<in> set (opt_keys m)"
  by (cases m) (auto simp: opt_get_def opt_keys_def dom_map_of_conv_image_fst[symmetric])

text \<open>The loop over the keys of both maps covers every key.\<close>

lemma check_power_level_maps_Inr:
  "check_power_level_maps current new s reject = Inr u \<longleftrightarrow>
     (\<forall>k. opt_get current k = opt_get new k
        \<or> (\<forall>l. opt_get current k = Some l \<longrightarrow> \<not> reject k l)
          \<and> (\<forall>l. opt_get new k = Some l \<longrightarrow> level_ge s l))"
proof -
  have "check_power_level_maps current new s reject = Inr u \<longleftrightarrow>
      (\<forall>k \<in> set (opt_keys current) \<union> set (opt_keys new). opt_get current k = opt_get new k
        \<or> (\<forall>l. opt_get current k = Some l \<longrightarrow> \<not> reject k l)
          \<and> (\<forall>l. opt_get new k = Some l \<longrightarrow> level_ge s l))"
    unfolding check_power_level_maps_def each_ok_Inr_iff set_sort set_remdups set_append
    by (intro ball_cong refl) (simp add: Let_def ensure_Inr_iff split: option.split)
  also have "\<dots> \<longleftrightarrow> (\<forall>k. opt_get current k = opt_get new k
        \<or> (\<forall>l. opt_get current k = Some l \<longrightarrow> \<not> reject k l)
          \<and> (\<forall>l. opt_get new k = Some l \<longrightarrow> level_ge s l))"
    using opt_get_keys by (metis UnI1 UnI2)
  finally show ?thesis .
qed

lemma check_int_field_Inr:
  assumes "int_fields_map ev rules = Inr m"
  shows "check_int_field cur m rules s f = Inr u \<longleftrightarrow>
    (\<exists>c n. get_as_int cur f rules = Inr c \<and> get_as_int ev f rules = Inr n
      \<and> (c = n \<or> level_ge s (unwrap_or (int_field_default_value f) c)
               \<and> level_ge s (unwrap_or (int_field_default_value f) n)))"
  using int_fields_map_get[OF assms, of f] by (auto simp: check_int_field_def res_simps Let_def)

lemma all_int_fields: "f \<in> set int_field_ALL"
  by (cases f) (simp_all add: int_field_ALL_def)

lemma check_room_power_levels_Inr:
  assumes "check_room_power_levels ev (Some cur) rules s creators = Inr u"
  obtains cur_users new_users where
    "pl_event_users cur rules = Inr cur_users" "pl_event_users ev rules = Inr new_users"
    "\<And>f. \<exists>c n. get_as_int cur f rules = Inr c \<and> get_as_int ev f rules = Inr n
      \<and> (c = n \<or> level_ge s (unwrap_or (int_field_default_value f) c)
               \<and> level_ge s (unwrap_or (int_field_default_value f) n))"
    "\<And>k. opt_get cur_users k = opt_get new_users k
        \<or> (\<forall>l. opt_get cur_users k = Some l \<longrightarrow> k = ev_sender ev \<or> level_gt s l)
          \<and> (\<forall>l. opt_get new_users k = Some l \<longrightarrow> level_ge s l)"
proof -
  from assms obtain m nu cu where m: "int_fields_map ev rules = Inr m"
    and u: "pl_event_users ev rules = Inr nu" "pl_event_users cur rules = Inr cu"
    and f: "\<forall>f \<in> set int_field_ALL. check_int_field cur m rules s f = Inr ()"
    and k: "check_power_level_maps cu nu s (\<lambda>u l. u \<noteq> ev_sender ev \<and> \<not> level_gt s l) = Inr u"
    by (auto simp: check_room_power_levels_def res_simps)
  show thesis
  proof (rule that[OF u(2,1)])
    fix f' show "\<exists>c n. get_as_int cur f' rules = Inr c \<and> get_as_int ev f' rules = Inr n
      \<and> (c = n \<or> level_ge s (unwrap_or (int_field_default_value f') c)
               \<and> level_ge s (unwrap_or (int_field_default_value f') n))"
      using f all_int_fields check_int_field_Inr[OF m] by blast
  next
    fix k' show "opt_get cu k' = opt_get nu k'
        \<or> (\<forall>l. opt_get cu k' = Some l \<longrightarrow> k' = ev_sender ev \<or> level_gt s l)
          \<and> (\<forall>l. opt_get nu k' = Some l \<longrightarrow> level_ge s l)"
      using k unfolding check_power_level_maps_Inr by blast
  qed
qed

lemma user_level_read:
  assumes "user_power_level_of (Some ev) u creators rules = Inr l"
    and "\<not> (explicitly_privilege_room_creators rules \<and> u \<in> set creators)"
    and "pl_event_users ev rules = Inr us" "get_as_int ev FUsersDefault rules = Inr d"
  shows "l = IntLevel (case opt_get us u of Some n \<Rightarrow> n | None \<Rightarrow> unwrap_or 0 d)"
  using assms
  by (auto simp: user_power_level_of_def pl_event_user_power_level_def get_as_int_or_default_def
      split: option.splits if_splits)

section \<open>Accepted auth events\<close>

lemma check_auth_event_Inr:
  assumes "check_auth_event ev expected fetch seen i = Inr seen'"
  obtains a k where "fetch i = Inr a" "ev_room_id a = ev_room_id ev" "ev_state_key a = Some k"
    "(ev_type a, k) \<notin> set seen" "(ev_type a, k) \<in> set expected" "\<not> ev_rejected a"
    "seen' = (ev_type a, k) # seen"
  using assms by (auto simp: check_auth_event_def res_simps Let_def)

definition auth_event_ok :: "pdu \<Rightarrow> (string \<times> string) set \<Rightarrow> fetch_event \<Rightarrow> string \<Rightarrow> (string \<times> string) \<Rightarrow> bool" where
  "auth_event_ok ev expected fetch i key \<longleftrightarrow>
     (\<exists>a. fetch i = Inr a \<and> ev_room_id a = ev_room_id ev \<and> ev_type a = fst key
        \<and> ev_state_key a = Some (snd key) \<and> key \<in> expected \<and> \<not> ev_rejected a)"

lemma check_auth_events_Inr:
  assumes "fold_result (check_auth_event ev expected fetch) seen ids = Inr seen'" "distinct seen"
  shows "\<exists>keys. seen' = rev keys @ seen \<and> distinct seen'
    \<and> list_all2 (auth_event_ok ev (set expected) fetch) ids keys"
  using assms
proof (induction ids arbitrary: seen)
  case (Cons i ids)
  then obtain s1 where s1: "check_auth_event ev expected fetch seen i = Inr s1"
    "fold_result (check_auth_event ev expected fetch) s1 ids = Inr seen'"
    by (auto simp: res_simps)
  from check_auth_event_Inr[OF s1(1)] obtain a k where a: "fetch i = Inr a" "ev_room_id a = ev_room_id ev"
    "ev_state_key a = Some k" "(ev_type a, k) \<notin> set seen" "(ev_type a, k) \<in> set expected" "\<not> ev_rejected a"
    "s1 = (ev_type a, k) # seen" .
  with Cons.prems(2) have "distinct s1" by simp
  from Cons.IH[OF s1(2) this] obtain keys where keys: "seen' = rev keys @ s1" "distinct seen'"
    "list_all2 (auth_event_ok ev (set expected) fetch) ids keys" by blast
  from a have "auth_event_ok ev (set expected) fetch i (ev_type a, k)" by (simp add: auth_event_ok_def)
  with keys a(7) show ?case by (intro exI[of _ "(ev_type a, k) # keys"]) simp
qed simp

lemma auth_event_ok_keys: "list_all2 (auth_event_ok ev expected fetch) ids keys \<Longrightarrow> set keys \<subseteq> expected"
  by (induction ids keys rule: list_all2_induct) (auto simp: auth_event_ok_def)

section \<open>Properties\<close>

text \<open>The selection of auth events is duplicate-free and is exactly the power levels, the
  sender's membership and, before version 12, the create event; for a membership event also the
  target's membership, the join rules for joins, invites and knocks, the third-party invite of the
  token, and the authorising user of a restricted join.\<close>

theorem auth_types_selection:
  assumes "auth_types_for_event t sender key content rules = Inr ts"
  shows "distinct ts \<and> set ts =
    (if t = CreateType then {}
     else {(PowerLevelsType, ''''), (MemberType, sender)}
       \<union> (if room_create_event_id_as_room_id rules then {} else {(CreateType, '''')})
       \<union> (if t = MemberType then \<Union>{member_auth_types k content rules m | k m.
              key = Some k \<and> content_membership content = Inr m} else {}))"
proof (cases "t = MemberType")
  case True
  with assms obtain k m where "key = Some k" "content_membership content = Inr m"
    "set ts = set (base_auth_types sender rules) \<union> member_auth_types k content rules m"
    using auth_types_member by metis
  with True auth_types_distinct[OF assms] show ?thesis
    by (simp add: base_auth_types_simps)
next
  case False
  with assms auth_types_distinct[OF assms] show ?thesis
    by (cases "t = CreateType") (auto simp: auth_types_other base_auth_types_simps auth_types_for_event_def)
qed

theorem auth_types_selection_witness:
  "distinct [(PowerLevelsType, ''''), (MemberType, ''@a:h''), (CreateType, '''')]
   \<and> auth_types_for_event ''m.room.name'' ''@a:h'' (Some '''') (JObj []) AuthorizationRules_V1
     = Inr [(PowerLevelsType, ''''), (MemberType, ''@a:h''), (CreateType, '''')]"
proof -
  have a: "auth_types_for_event ''m.room.name'' ''@a:h'' (Some '''') (JObj []) AuthorizationRules_V1
     = Inr [(PowerLevelsType, ''''), (MemberType, ''@a:h''), (CreateType, '''')]"
    by (simp add: auth_types_for_event_def base_auth_types_def type_defs ver_defs)
  from auth_types_selection[OF a] a show ?thesis by blast
qed

text \<open>C21: The state-dependent rules only look at the selected auth events and the create event: two
  room states that agree on those authorise the same events.\<close>

theorem selected_auth_events_decide:
  assumes "auth_types_for_event (ev_type ev) (ev_sender ev) (ev_state_key ev) (ev_content ev) rules = Inr ts"
    and "\<forall>k\<in>insert (CreateType, '''') (set ts). fetch (fst k) (snd k) = fetch' (fst k) (snd k)"
    and "knock_restricted_join_rule rules \<Longrightarrow> restricted_join_rule rules"
  shows "check_state_dependent_auth_rules E rules ev fetch = check_state_dependent_auth_rules E rules ev fetch'"
  by (rule check_state_dependent_cong[OF assms(1) _ _ assms(3)]) (use assms(2) in auto)

theorem selected_auth_events_decide_witness:
  "check_state_dependent_auth_rules ex_env ex_rules ex_name ex_state
   = check_state_dependent_auth_rules ex_env ex_rules ex_name
       (\<lambda>t k. if t = MemberType \<and> k = ''@d:h'' then Inl (NotFound k) else ex_state t k)"
  by (rule selected_auth_events_decide[where ts = "base_auth_types ''@b:h'' ex_rules"])
    (simp_all add: auth_types_other base_auth_types_def)

text \<open>C22: An event other than a create event passes the state-independent rules only if its auth
  events can all be found, are in its room, were not rejected, have pairwise different type and
  state key, each one among those selected; before version 12 one of them is the create event,
  from version 12 on the create event named by the room identifier was not rejected.\<close>

theorem accepted_auth_events:
  assumes "check_state_independent_auth_rules E rules ev fetch = Inr ()" "ev_type ev \<noteq> CreateType"
  shows "\<exists>ts keys. auth_types_for_event (ev_type ev) (ev_sender ev) (ev_state_key ev) (ev_content ev) rules = Inr ts
    \<and> distinct keys \<and> list_all2 (auth_event_ok ev (set ts) fetch) (ev_auth_events ev) keys
    \<and> (if room_create_event_id_as_room_id rules
       then \<exists>i create. room_create_event_id (ev_room_id ev) = Inr i \<and> fetch i = Inr create \<and> \<not> ev_rejected create
       else (CreateType, '''') \<in> set keys)"
proof -
  from assms obtain ts seen where
    ts: "auth_types_for_event (ev_type ev) (ev_sender ev) (ev_state_key ev) (ev_content ev) rules = Inr ts"
    and f: "fold_result (check_auth_event ev ts fetch) [] (ev_auth_events ev) = Inr seen"
    and c: "room_create_event_id_as_room_id rules \<or> (\<exists>k\<in>set seen. fst k = CreateType)"
    and v: "room_create_event_id_as_room_id rules \<Longrightarrow>
      \<exists>i create. room_create_event_id (ev_room_id ev) = Inr i \<and> fetch i = Inr create \<and> \<not> ev_rejected create"
    by (auto simp: check_state_independent_auth_rules_def res_simps list_ex_iff split: if_splits)
  from check_auth_events_Inr[OF f] obtain keys where keys: "seen = rev keys" "distinct seen"
    "list_all2 (auth_event_ok ev (set ts) fetch) (ev_auth_events ev) keys" by auto
  have "(CreateType, '''') \<in> set keys" if "\<not> room_create_event_id_as_room_id rules"
  proof -
    from that c keys(1) obtain sk where sk: "(CreateType, sk) \<in> set keys" by auto
    with auth_event_ok_keys[OF keys(3)] have "(CreateType, sk) \<in> set ts" by blast
    from auth_types_create_key[OF ts assms(2) this] sk show ?thesis by simp
  qed
  with ts keys v show ?thesis by (intro exI[of _ ts] exI[of _ keys]) simp
qed

theorem accepted_auth_events_witness:
  "check_state_independent_auth_rules ex_env ex_rules (ex_name\<lparr>ev_auth_events := [''$create'']\<rparr>)
     (\<lambda>i. if i = ''$create'' then Inr ex_create else Inl (NotFound i)) = Inr ()
   \<and> auth_event_ok (ex_name\<lparr>ev_auth_events := [''$create'']\<rparr>) (set (base_auth_types ''@b:h'' ex_rules))
       (\<lambda>i. if i = ''$create'' then Inr ex_create else Inl (NotFound i)) ''$create'' (CreateType, '''')"
proof -
  let ?ev = "ex_name\<lparr>ev_auth_events := [''$create'']\<rparr>"
  let ?fetch = "\<lambda>i. if i = ''$create'' then Inr ex_create else Inl (NotFound i)"
  have t: "ev_type ?ev \<noteq> CreateType" "ev_type ?ev \<noteq> MemberType" by simp_all
  have a: "check_state_independent_auth_rules ex_env ex_rules ?ev ?fetch = Inr ()"
    by (simp add: check_state_independent_auth_rules_def auth_types_other check_auth_event_def
        base_auth_types_def)
  from accepted_auth_events[OF a t(1)] obtain keys where
    "list_all2 (auth_event_ok ?ev (set (base_auth_types ''@b:h'' ex_rules)) ?fetch) [''$create''] keys"
    "(CreateType, '''') \<in> set keys"
    by (auto simp: auth_types_other)
  with a show ?thesis by (auto simp: list_all2_Cons1)
qed





text \<open>Under the rules of the first two room versions a redaction is allowed exactly when the
  sender's level reaches the redact level, or the identifiers of the redaction and of the redacted
  event have the same server name; the latter also holds when neither has one, in particular for
  a redaction without a target whose identifier has no server name.\<close>

theorem redaction_allowed_iff:
  "check_room_redaction ev pl rules s = Inr () \<longleftrightarrow>
     (\<exists>r. int_or_default_of pl FRedact rules = Inr r
       \<and> (level_ge s r
          \<or> (\<exists>sn i. event_server_name (ev_id ev) = Some sn \<and> ev_redacts ev = Some i \<and> event_server_name i = Some sn)
          \<or> CHR '':'' \<notin> set (ev_id ev)
            \<and> (ev_redacts ev = None \<or> (\<exists>i. ev_redacts ev = Some i \<and> CHR '':'' \<notin> set i))))"
proof -
  have none: "event_server_name i = None \<longleftrightarrow> CHR '':'' \<notin> set i" for i
    by (simp add: event_server_name_def str_find_None_iff)
  have "event_server_name (ev_id ev) = Option.bind (ev_redacts ev) event_server_name \<longleftrightarrow>
      (\<exists>sn i. event_server_name (ev_id ev) = Some sn \<and> ev_redacts ev = Some i \<and> event_server_name i = Some sn)
      \<or> event_server_name (ev_id ev) = None \<and> (ev_redacts ev = None \<or> (\<exists>i. ev_redacts ev = Some i \<and> event_server_name i = None))"
    by (cases "ev_redacts ev"; cases "event_server_name (ev_id ev)") auto
  note eq = this[unfolded none]
  show ?thesis
  proof (cases "int_or_default_of pl FRedact rules")
    case (Inr r)
    then show ?thesis
      by (cases "level_ge s r") (simp_all only: check_room_redaction_def and_then_simps if_True if_False
          ensure_Inr_iff eq sum.inject simp_thms ex_simps)
  qed (simp add: check_room_redaction_def)
qed

end
