(* ===== verification/Kahn_Sort.thy ===== *)
theory Kahn_Sort
  imports Power_Levels_Event
begin

text \<open>
  The reverse topological power ordering (\<open>reverse_topological_power_sort\<close> of
  \<open>core/src/state.rs\<close>): Kahn's algorithm with a heap of candidates.  A graph is the list of the
  entries of the \<open>HashMap\<close>, in the order its iterator happens to visit them.  The results
  show that this order is irrelevant: the sort is the one list that picks, at every step, the
  least candidate.
\<close>

section \<open>The tie-breaker\<close>

datatype tie_breaker = TieBreaker (tb_level: user_power_level) (tb_ts: nat) (tb_id: string)

text \<open>The comparison of power levels is backwards, as in the code.\<close>

definition tie_breaker_le :: "tie_breaker \<Rightarrow> tie_breaker \<Rightarrow> bool" where
  "tie_breaker_le x y \<longleftrightarrow>
     tb_level y < tb_level x
     \<or> tb_level y = tb_level x \<and> (tb_ts x < tb_ts y \<or> tb_ts x = tb_ts y \<and> tb_id x \<le> tb_id y)"

instantiation tie_breaker :: linorder
begin

definition less_eq_tie_breaker :: "tie_breaker \<Rightarrow> tie_breaker \<Rightarrow> bool" where
  "less_eq_tie_breaker x y \<longleftrightarrow> tie_breaker_le x y"

definition less_tie_breaker :: "tie_breaker \<Rightarrow> tie_breaker \<Rightarrow> bool" where
  "less_tie_breaker x y \<longleftrightarrow> x \<le> y \<and> \<not> y \<le> x"

instance
  by standard (auto simp: less_eq_tie_breaker_def tie_breaker_le_def less_tie_breaker_def intro: tie_breaker.expand)

end

section \<open>The algorithm\<close>

type_synonym graph = "(string \<times> string list) list"
type_synonym details_fn = "string \<Rightarrow> state_error + user_power_level \<times> nat"

record kahn =
  k_outgoing :: "(string \<times> string list) list"
  k_incoming :: "(string, string list) btree"
  k_heap :: "tie_breaker list"
  k_sorted :: "string list"

definition push_candidate :: "details_fn \<Rightarrow> string \<Rightarrow> kahn \<Rightarrow> state_error + kahn" where
  "push_candidate details e st =
     map_ok (\<lambda>(level, ts). st\<lparr>k_heap := insort (TieBreaker level ts e) (k_heap st)\<rparr>) (details e)"

definition add_incoming :: "string \<Rightarrow> string \<Rightarrow> (string, string list) btree \<Rightarrow> (string, string list) btree" where
  "add_incoming e auth m = bt_insert auth (List.insert e (unwrap_or [] (bt_get m auth))) m"

definition populate :: "details_fn \<Rightarrow> kahn \<Rightarrow> string \<times> string list \<Rightarrow> state_error + kahn" where
  "populate details st entry =
     (if snd entry = [] then push_candidate details (fst entry) st
      else Inr (st\<lparr>k_incoming := fold (add_incoming (fst entry)) (snd entry) (k_incoming st),
                   k_outgoing := k_outgoing st @ [entry]\<rparr>))"

definition modify_entry :: "'k \<Rightarrow> ('v \<Rightarrow> 'v) \<Rightarrow> ('k \<times> 'v) list \<Rightarrow> ('k \<times> 'v) list" where
  "modify_entry k f m = map (\<lambda>(a, b). if a = k then (a, f b) else (a, b)) m"

definition visit_parent :: "details_fn \<Rightarrow> string \<Rightarrow> kahn \<Rightarrow> string \<Rightarrow> state_error + kahn" where
  "visit_parent details e st parent =
     (case map_of (k_outgoing st) parent of
        None \<Rightarrow> Inl StatePanic
      | Some edges \<Rightarrow>
          let st1 = st\<lparr>k_outgoing := modify_entry parent (removeAll e) (k_outgoing st)\<rparr> in
          if removeAll e edges = []
          then push_candidate details parent (st1\<lparr>k_outgoing := bt_remove parent (k_outgoing st1)\<rparr>)
          else Inr st1)"

definition kahn_step :: "details_fn \<Rightarrow> kahn \<Rightarrow> state_error + kahn" where
  "kahn_step details st =
     (case k_heap st of
        [] \<Rightarrow> Inr st
      | candidate # rest \<Rightarrow>
          let e = tb_id candidate in
          and_then (fold_result (visit_parent details e) (st\<lparr>k_heap := rest\<rparr>)
             (unwrap_or [] (bt_get (k_incoming st) e))) (\<lambda>st'.
          Inr (st'\<lparr>k_sorted := k_sorted st' @ [e]\<rparr>)))"

definition kahn_size :: "kahn \<Rightarrow> nat" where
  "kahn_size st = 2 * length (k_outgoing st) + length (k_heap st)"

lemma bt_remove_length: "map_of m k = Some v \<Longrightarrow> length (bt_remove k m) < length m"
  unfolding bt_remove_def by (rule length_filter_less[of "(k, v)"]) (auto dest: map_of_SomeD)

lemma modify_entry_length [simp]: "length (modify_entry k f m) = length m"
  by (simp add: modify_entry_def)

lemma map_of_modify_entry:
  "map_of (modify_entry k f m) a = (if a = k then map_option f (map_of m a) else map_of m a)"
  by (induction m) (auto simp: modify_entry_def)

lemma visit_parent_size: "visit_parent details e st p = Inr st' \<Longrightarrow> kahn_size st' \<le> kahn_size st"
  using bt_remove_length[of "modify_entry p (removeAll e) (k_outgoing st)" p]
  by (fastforce simp: visit_parent_def push_candidate_def kahn_size_def Let_def res_simps map_of_modify_entry
      split: option.splits if_splits)

lemma kahn_step_size:
  assumes "kahn_step details st = Inr st'" "k_heap st \<noteq> []"
  shows "kahn_size st' < kahn_size st"
proof -
  from assms(2) obtain c rest where h: "k_heap st = c # rest" by (cases "k_heap st") auto
  from assms(1) h obtain s where
    s: "fold_result (visit_parent details (tb_id c)) (st\<lparr>k_heap := rest\<rparr>)
          (unwrap_or [] (bt_get (k_incoming st) (tb_id c))) = Inr s"
    "st' = s\<lparr>k_sorted := k_sorted s @ [tb_id c]\<rparr>"
    by (auto simp: kahn_step_def Let_def res_simps)
  have "kahn_size s \<le> kahn_size (st\<lparr>k_heap := rest\<rparr>)"
    by (rule fold_result_invariant[OF s(1)]) (auto dest: visit_parent_size)
  with s(2) h show ?thesis by (simp add: kahn_size_def)
qed

function kahn_loop :: "details_fn \<Rightarrow> kahn \<Rightarrow> state_error + kahn" where
  "kahn_loop details st =
     (if k_heap st = [] then Inr st else and_then (kahn_step details st) (\<lambda>st'. kahn_loop details st'))"
  by pat_completeness auto
termination
  by (relation "measure (\<lambda>(_, st). kahn_size st)") (auto simp: kahn_step_size)

definition kahn_empty :: kahn where
  "kahn_empty = \<lparr>k_outgoing = [], k_incoming = [], k_heap = [], k_sorted = []\<rparr>"

definition reverse_topological_power_sort :: "graph \<Rightarrow> details_fn \<Rightarrow> state_error + string list" where
  "reverse_topological_power_sort graph details =
     and_then (fold_result (populate details) kahn_empty graph) (\<lambda>st.
     map_ok k_sorted (kahn_loop details st))"

declare kahn_loop.simps [simp del]

section \<open>The reference ordering\<close>

definition edges_of :: "graph \<Rightarrow> string \<Rightarrow> string set" where
  "edges_of g e = set (unwrap_or [] (map_of g e))"

definition ready :: "graph \<Rightarrow> string set \<Rightarrow> string set" where
  "ready g done = {e \<in> fst ` set g. e \<notin> done \<and> edges_of g e \<subseteq> done}"

definition candidate :: "details_fn \<Rightarrow> string \<Rightarrow> tie_breaker" where
  "candidate details e =
     (case details e of Inr (level, ts) \<Rightarrow> TieBreaker level ts e | Inl _ \<Rightarrow> TieBreaker (IntLevel 0) 0 e)"

lemma candidate_inj: "candidate details e = candidate details e' \<Longrightarrow> e = e'"
  by (auto simp: candidate_def split: sum.splits prod.splits)

text \<open>Lists that take the least ready event at every step.\<close>

inductive greedy :: "graph \<Rightarrow> details_fn \<Rightarrow> string list \<Rightarrow> bool" for g details where
  greedy_Nil: "greedy g details []"
| greedy_snoc: "greedy g details xs \<Longrightarrow> e \<in> ready g (set xs)
    \<Longrightarrow> (\<And>e'. e' \<in> ready g (set xs) \<Longrightarrow> candidate details e \<le> candidate details e')
    \<Longrightarrow> greedy g details (xs @ [e])"

inductive_cases greedy_snocE: "greedy g details (xs @ [e])"

lemma greedy_distinct: "greedy g details xs \<Longrightarrow> distinct xs \<and> set xs \<subseteq> fst ` set g"
  by (induction rule: greedy.induct) (auto simp: ready_def)

lemma greedy_prefix: "greedy g details (xs @ ys) \<Longrightarrow> greedy g details xs"
proof (induction ys rule: rev_induct)
  case (snoc y ys)
  then show ?case using greedy_snocE[of g details "xs @ ys" y] by auto
qed simp

lemma greedy_edges_before: "greedy g details (xs @ e # ys) \<Longrightarrow> edges_of g e \<subseteq> set xs"
  using greedy_prefix[of g details "xs @ [e]" ys] by (auto elim!: greedy_snocE simp: ready_def)

lemma greedy_unique_prefix:
  "greedy g details xs \<Longrightarrow> greedy g details ys \<Longrightarrow> length xs \<le> length ys \<Longrightarrow> xs = take (length xs) ys"
proof (induction xs rule: rev_induct)
  case (snoc x xs)
  from snoc.prems(1) have x: "greedy g details xs" "x \<in> ready g (set xs)"
    "\<And>e'. e' \<in> ready g (set xs) \<Longrightarrow> candidate details x \<le> candidate details e'"
    by (auto elim: greedy_snocE)
  from snoc.IH[OF x(1) snoc.prems(2)] snoc.prems(3) have p: "xs = take (length xs) ys" by simp
  from snoc.prems(3) have "length xs < length ys" by simp
  then obtain y zs where ys: "ys = xs @ y # zs"
    using p id_take_nth_drop[of "length xs" ys] by auto
  with snoc.prems(2) have "greedy g details (xs @ [y])"
    using greedy_prefix[of g details "xs @ [y]" zs] by simp
  then have y: "y \<in> ready g (set xs)" "\<And>e'. e' \<in> ready g (set xs) \<Longrightarrow> candidate details y \<le> candidate details e'"
    by (auto elim: greedy_snocE)
  from x(3)[OF y(1)] y(2)[OF x(2)] have "x = y" by (intro candidate_inj) (rule antisym)
  with ys show ?case by simp
qed simp

text \<open>A maximal greedy list is unique.\<close>

lemma greedy_unique:
  assumes "greedy g details xs" "ready g (set xs) = {}" "greedy g details ys" "ready g (set ys) = {}"
  shows "xs = ys"
proof -
  have le: "length ys \<le> length xs"
    if "greedy g details xs" "ready g (set xs) = {}" "greedy g details ys" for xs ys
  proof (rule ccontr)
    assume "\<not> length ys \<le> length xs"
    then have "length xs < length ys" by simp
    with greedy_unique_prefix[OF that(1,3)] obtain y zs where "ys = xs @ y # zs"
      using id_take_nth_drop[of "length xs" ys] by auto
    with that(3) greedy_prefix[of g details "xs @ [y]" zs] have "greedy g details (xs @ [y])" by simp
    then have "y \<in> ready g (set xs)" by (auto elim: greedy_snocE)
    with that(2) show False by simp
  qed
  from le[OF assms(1-3)] le[OF assms(3,4,1)] have "length xs = length ys" by simp
  with greedy_unique_prefix[OF assms(1,3)] show ?thesis by simp
qed

lemma greedy_cong:
  assumes "fst ` set g = fst ` set g'" "edges_of g = edges_of g'"
  shows "ready g = ready g'" "greedy g details xs \<longleftrightarrow> greedy g' details xs"
proof -
  show r: "ready g = ready g'" using assms by (auto simp: ready_def fun_eq_iff)
  show "greedy g details xs \<longleftrightarrow> greedy g' details xs"
  proof
    show "greedy g details xs \<Longrightarrow> greedy g' details xs"
      by (induction rule: greedy.induct) (auto intro: greedy.intros simp: r)
    show "greedy g' details xs \<Longrightarrow> greedy g details xs"
      by (induction rule: greedy.induct) (auto intro: greedy.intros simp: r)
  qed
qed

text \<open>In a closed graph without cycles nothing is left over.\<close>

lemma greedy_complete:
  assumes "wf R" "\<And>e a. e \<in> fst ` set g \<Longrightarrow> a \<in> edges_of g e \<Longrightarrow> (a, e) \<in> R \<and> a \<in> fst ` set g"
    and "ready g (set xs) = {}"
  shows "fst ` set g \<subseteq> set xs"
proof
  fix e assume "e \<in> fst ` set g"
  with assms(1) show "e \<in> set xs"
  proof (induction e rule: wf_induct_rule)
    case (less e)
    then have "edges_of g e \<subseteq> set xs" using assms(2) by blast
    with less.prems assms(3) show ?case by (auto simp: ready_def)
  qed
qed

section \<open>The algorithm computes the reference ordering\<close>

text \<open>\<open>kahn_inv g details H D st\<close>: the events \<open>H\<close> have been taken from the heap and the edges
  \<open>D p\<close> of \<open>p\<close> have been removed.\<close>

definition outgoing_inv :: "graph \<Rightarrow> (string \<Rightarrow> string set) \<Rightarrow> (string \<times> string list) list \<Rightarrow> bool" where
  "outgoing_inv g D out \<longleftrightarrow>
     (\<forall>p es. map_of out p = Some es \<longrightarrow> es \<noteq> [] \<and> p \<in> fst ` set g \<and> set es = edges_of g p - D p)
     \<and> (\<forall>p\<in>fst ` set g. edges_of g p \<subseteq> D p \<or> map_of out p \<noteq> None)"

definition heap_inv :: "graph \<Rightarrow> details_fn \<Rightarrow> string set \<Rightarrow> (string \<Rightarrow> string set) \<Rightarrow> tie_breaker list \<Rightarrow> bool" where
  "heap_inv g details H D heap \<longleftrightarrow>
     sorted heap \<and> distinct (map tb_id heap)
     \<and> (\<forall>c\<in>set heap. details (tb_id c) = Inr (tb_level c, tb_ts c))
     \<and> tb_id ` set heap = {p \<in> fst ` set g. p \<notin> H \<and> edges_of g p \<subseteq> D p}"

definition kahn_inv :: "graph \<Rightarrow> details_fn \<Rightarrow> string set \<Rightarrow> (string \<Rightarrow> string set) \<Rightarrow> kahn \<Rightarrow> bool" where
  "kahn_inv g details H D st \<longleftrightarrow>
     outgoing_inv g D (k_outgoing st) \<and> heap_inv g details H D (k_heap st) \<and> (\<forall>q\<in>H. edges_of g q \<subseteq> D q)"

lemma heap_candidate:
  "heap_inv g details H D heap \<Longrightarrow> c \<in> set heap \<Longrightarrow> candidate details (tb_id c) = c"
  by (cases c) (auto simp: heap_inv_def candidate_def)

lemma distinct_map_insort: "distinct (map f (insort x xs)) \<longleftrightarrow> f x \<notin> f ` set xs \<and> distinct (map f xs)"
  by (induction xs) (auto simp: set_insort_key)

lemma heap_inv_push:
  assumes "heap_inv g details H D heap" "details p = Inr (l, ts)" "p \<in> fst ` set g" "p \<notin> H"
    and "\<not> edges_of g p \<subseteq> D p" "edges_of g p \<subseteq> insert e (D p)"
  shows "heap_inv g details H (D(p := insert e (D p))) (insort (TieBreaker l ts p) heap)"
proof -
  have "p \<notin> tb_id ` set heap" using assms(1,5) by (auto simp: heap_inv_def)
  with assms show ?thesis
    by (auto simp: heap_inv_def sorted_insort set_insort_key distinct_map_insort)
qed

lemma heap_inv_skip:
  assumes "heap_inv g details H D heap" "\<not> edges_of g p \<subseteq> insert e (D p)"
  shows "heap_inv g details H (D(p := insert e (D p))) heap"
  using assms by (auto simp: heap_inv_def)

lemma map_of_bt_remove: "map_of (bt_remove p m) a = (if a = p then None else map_of m a)"
  by (simp add: bt_get_remove)

lemma outgoing_inv_visit:
  assumes "outgoing_inv g D out" "map_of out p = Some es" "e \<in> edges_of g p"
  shows "removeAll e es \<noteq> [] \<Longrightarrow> outgoing_inv g (D(p := insert e (D p))) (modify_entry p (removeAll e) out)"
    and "removeAll e es = [] \<Longrightarrow>
      outgoing_inv g (D(p := insert e (D p))) (bt_remove p (modify_entry p (removeAll e) out))"
    and "removeAll e es = [] \<longleftrightarrow> edges_of g p \<subseteq> insert e (D p)"
proof -
  from assms have es: "set es = edges_of g p - D p" "p \<in> fst ` set g" by (auto simp: outgoing_inv_def)
  have "set (removeAll e es) = edges_of g p - insert e (D p)" using es by auto
  then show iff: "removeAll e es = [] \<longleftrightarrow> edges_of g p \<subseteq> insert e (D p)"
    by (metis Diff_eq_empty_iff set_empty)
  show "removeAll e es \<noteq> [] \<Longrightarrow> outgoing_inv g (D(p := insert e (D p))) (modify_entry p (removeAll e) out)"
    using assms es by (auto simp: outgoing_inv_def map_of_modify_entry split: if_splits)
  show "removeAll e es = [] \<Longrightarrow>
      outgoing_inv g (D(p := insert e (D p))) (bt_remove p (modify_entry p (removeAll e) out))"
    using assms iff unfolding outgoing_inv_def map_of_bt_remove map_of_modify_entry by (auto split: if_splits)
qed

lemma visit_parent_inv:
  assumes "kahn_inv g details H D st" "p \<in> fst ` set g" "e \<in> edges_of g p" "e \<notin> D p"
  shows "visit_parent details e st p \<noteq> Inl StatePanic \<or> details p = Inl StatePanic"
    and "visit_parent details e st p = Inr st' \<Longrightarrow> kahn_inv g details H (D(p := insert e (D p))) st'
      \<and> k_incoming st' = k_incoming st \<and> k_sorted st' = k_sorted st"
    and "\<exists>x. details p = Inr x \<Longrightarrow> \<exists>st'. visit_parent details e st p = Inr st'"
proof -
  from assms obtain es where es: "map_of (k_outgoing st) p = Some es"
    by (fastforce simp: kahn_inv_def outgoing_inv_def)
  from assms have nH: "p \<notin> H" "\<not> edges_of g p \<subseteq> D p" by (auto simp: kahn_inv_def)
  from assms(1) have out: "outgoing_inv g D (k_outgoing st)" by (simp add: kahn_inv_def)
  note v = outgoing_inv_visit[OF out es assms(3)]
  show "visit_parent details e st p \<noteq> Inl StatePanic \<or> details p = Inl StatePanic"
    using es by (cases "details p") (auto simp: visit_parent_def push_candidate_def Let_def)
  show "\<exists>x. details p = Inr x \<Longrightarrow> \<exists>st'. visit_parent details e st p = Inr st'"
    using es by (auto simp: visit_parent_def push_candidate_def Let_def)
  show "kahn_inv g details H (D(p := insert e (D p))) st'
      \<and> k_incoming st' = k_incoming st \<and> k_sorted st' = k_sorted st"
    if st': "visit_parent details e st p = Inr st'"
  proof (cases "removeAll e es = []")
    case True
    with st' es obtain l ts where d: "details p = Inr (l, ts)"
      and st'': "st' = st\<lparr>k_outgoing := bt_remove p (modify_entry p (removeAll e) (k_outgoing st)),
        k_heap := insort (TieBreaker l ts p) (k_heap st)\<rparr>"
      by (auto simp: visit_parent_def push_candidate_def Let_def res_simps)
    from assms(1) have "heap_inv g details H D (k_heap st)" by (simp add: kahn_inv_def)
    from heap_inv_push[OF this d assms(2) nH] v(3) True v(2)[OF True] assms(1) st'' nH(1) show ?thesis
      by (auto simp: kahn_inv_def)
  next
    case False
    with st' es have st'': "st' = st\<lparr>k_outgoing := modify_entry p (removeAll e) (k_outgoing st)\<rparr>"
      by (auto simp: visit_parent_def Let_def)
    from assms(1) have "heap_inv g details H D (k_heap st)" by (simp add: kahn_inv_def)
    from heap_inv_skip[OF this] v(3) False v(1)[OF False] assms(1) st'' nH(1) show ?thesis
      by (auto simp: kahn_inv_def)
  qed
qed

lemma visit_parents_inv:
  assumes "kahn_inv g details H D st" "distinct ps"
    and "\<And>p. p \<in> set ps \<Longrightarrow> p \<in> fst ` set g \<and> e \<in> edges_of g p \<and> e \<notin> D p"
  shows "(\<forall>st'. fold_result (visit_parent details e) st ps = Inr st' \<longrightarrow>
      kahn_inv g details H (\<lambda>p. if p \<in> set ps then insert e (D p) else D p) st'
      \<and> k_incoming st' = k_incoming st \<and> k_sorted st' = k_sorted st)
    \<and> ((\<forall>p\<in>fst ` set g. \<exists>x. details p = Inr x) \<longrightarrow>
         (\<exists>st'. fold_result (visit_parent details e) st ps = Inr st'))"
  using assms
proof (induction ps arbitrary: st D)
  case (Cons p ps)
  from Cons.prems have p: "p \<in> fst ` set g" "e \<in> edges_of g p" "e \<notin> D p" "p \<notin> set ps" by auto
  note v = visit_parent_inv[OF Cons.prems(1) p(1-3)]
  let ?D = "D(p := insert e (D p))"
  have eq: "(\<lambda>q. if q \<in> set ps then insert e (?D q) else ?D q) = (\<lambda>q. if q \<in> set (p # ps) then insert e (D q) else D q)"
    using p(4) by (auto simp: fun_eq_iff)
  have pre: "q \<in> fst ` set g \<and> e \<in> edges_of g q \<and> e \<notin> ?D q" if "q \<in> set ps" for q
    using Cons.prems(3)[of q] that p(4) by auto
  have IH: "(\<forall>st'. fold_result (visit_parent details e) s ps = Inr st' \<longrightarrow>
        kahn_inv g details H (\<lambda>q. if q \<in> set (p # ps) then insert e (D q) else D q) st'
        \<and> k_incoming st' = k_incoming s \<and> k_sorted st' = k_sorted s)
      \<and> ((\<forall>p\<in>fst ` set g. \<exists>x. details p = Inr x) \<longrightarrow>
           (\<exists>st'. fold_result (visit_parent details e) s ps = Inr st'))"
    if "kahn_inv g details H ?D s" for s
    using Cons.IH[OF that _ pre] Cons.prems(2) unfolding eq by simp
  show ?case
  proof (cases "visit_parent details e st p")
    case (Inl x)
    with v(3) have "\<nexists>x. details p = Inr x" by fastforce
    with p(1) have "\<not> (\<forall>p\<in>fst ` set g. \<exists>x. details p = Inr x)" by blast
    with Inl show ?thesis by simp
  next
    case (Inr s)
    with v(2)[OF this] IH[of s] show ?thesis by simp
  qed
qed simp

definition incoming_inv :: "graph \<Rightarrow> (string, string list) btree \<Rightarrow> bool" where
  "incoming_inv g inc \<longleftrightarrow>
     (\<forall>a. distinct (unwrap_or [] (bt_get inc a))
        \<and> set (unwrap_or [] (bt_get inc a)) = {e \<in> fst ` set g. a \<in> edges_of g e})"

definition loop_inv :: "graph \<Rightarrow> details_fn \<Rightarrow> kahn \<Rightarrow> bool" where
  "loop_inv g details st \<longleftrightarrow>
     kahn_inv g details (set (k_sorted st)) (\<lambda>_. set (k_sorted st)) st
     \<and> incoming_inv g (k_incoming st) \<and> greedy g details (k_sorted st)"

lemma kahn_inv_cong:
  assumes "\<And>p. p \<in> fst ` set g \<Longrightarrow> edges_of g p - D p = edges_of g p - D' p" "H \<subseteq> fst ` set g"
    and "kahn_inv g details H D st"
  shows "kahn_inv g details H D' st"
proof -
  have sub: "edges_of g p \<subseteq> D p \<longleftrightarrow> edges_of g p \<subseteq> D' p" if "p \<in> fst ` set g" for p
    using assms(1)[OF that] by blast
  have "outgoing_inv g D' (k_outgoing st)"
    using assms(1,3) sub unfolding kahn_inv_def outgoing_inv_def by metis
  moreover have "{p \<in> fst ` set g. p \<notin> H \<and> edges_of g p \<subseteq> D p} = {p \<in> fst ` set g. p \<notin> H \<and> edges_of g p \<subseteq> D' p}"
    using sub by blast
  ultimately show ?thesis
    using assms(2,3) sub unfolding kahn_inv_def heap_inv_def by (metis subsetD)
qed

lemma kahn_step_inv:
  assumes inv: "loop_inv g details st" and h: "k_heap st = c # rest"
  shows "kahn_step details st = Inr st' \<Longrightarrow> loop_inv g details st'"
    and "(\<forall>p\<in>fst ` set g. \<exists>x. details p = Inr x) \<Longrightarrow> \<exists>st'. kahn_step details st = Inr st'"
proof -
  let ?S = "set (k_sorted st)" and ?e = "tb_id c" and ?st = "st\<lparr>k_heap := rest\<rparr>"
  let ?ps = "unwrap_or [] (bt_get (k_incoming st) ?e)"
  let ?D = "\<lambda>p. if p \<in> set ?ps then insert ?e ?S else ?S"
  from inv have hi: "heap_inv g details ?S (\<lambda>_. ?S) (c # rest)"
    and gr: "greedy g details (k_sorted st)" and inc: "incoming_inv g (k_incoming st)"
    by (simp_all add: loop_inv_def kahn_inv_def h)
  have e: "?e \<in> ready g ?S" using hi by (auto simp: heap_inv_def ready_def)
  have ps: "distinct ?ps" "set ?ps = {p \<in> fst ` set g. ?e \<in> edges_of g p}"
    using inc by (simp_all add: incoming_inv_def)
  have "?e \<notin> tb_id ` set rest" using hi by (simp add: heap_inv_def)
  then have "tb_id ` set rest = tb_id ` set (c # rest) - {?e}" by simp
  also have "\<dots> = {p \<in> fst ` set g. p \<notin> ?S \<and> edges_of g p \<subseteq> ?S} - {?e}"
    using hi unfolding heap_inv_def by (simp only:)
  also have "\<dots> = {p \<in> fst ` set g. p \<notin> insert ?e ?S \<and> edges_of g p \<subseteq> ?S}" by blast
  finally have "heap_inv g details (insert ?e ?S) (\<lambda>_. ?S) rest"
    using hi unfolding heap_inv_def by simp
  then have start: "kahn_inv g details (insert ?e ?S) (\<lambda>_. ?S) ?st"
    using inv e by (auto simp: loop_inv_def kahn_inv_def ready_def)
  have pre: "p \<in> fst ` set g \<and> ?e \<in> edges_of g p \<and> ?e \<notin> ?S" if "p \<in> set ?ps" for p
    using that ps(2) e by (auto simp: ready_def)
  note v = visit_parents_inv[OF start ps(1) pre]
  show "\<exists>st'. kahn_step details st = Inr st'" if "\<forall>p\<in>fst ` set g. \<exists>x. details p = Inr x"
  proof -
    from mp[OF conjunct2[OF v] that] obtain s where "fold_result (visit_parent details ?e) ?st ?ps = Inr s" ..
    then show ?thesis by (simp add: kahn_step_def Let_def h)
  qed
  assume "kahn_step details st = Inr st'"
  then obtain s where s: "fold_result (visit_parent details ?e) ?st ?ps = Inr s"
    and st': "st' = s\<lparr>k_sorted := k_sorted s @ [?e]\<rparr>"
    by (auto simp: kahn_step_def Let_def h res_simps)
  from mp[OF spec[OF conjunct1[OF v]] s]
  have sv: "kahn_inv g details (insert ?e ?S) ?D s" "k_incoming s = k_incoming st" "k_sorted s = k_sorted st"
    by simp_all
  have "kahn_inv g details (insert ?e ?S) (\<lambda>_. insert ?e ?S) s"
    by (rule kahn_inv_cong[OF _ _ sv(1)]) (use ps(2) e greedy_distinct[OF gr] in \<open>auto simp: ready_def\<close>)
  moreover have "greedy g details (k_sorted st @ [?e])"
  proof (rule greedy_snoc[OF gr e])
    fix e' assume "e' \<in> ready g ?S"
    moreover have "ready g ?S = tb_id ` set (c # rest)"
      using hi unfolding heap_inv_def ready_def by (simp only:)
    ultimately have "e' \<in> tb_id ` set (c # rest)" by (simp only:)
    then obtain c' where c': "c' \<in> set (c # rest)" "tb_id c' = e'" by (rule imageE) (rule that, assumption, rule sym)
    from hi c'(1) have "c \<le> c'" by (auto simp: heap_inv_def)
    with heap_candidate[OF hi list.set_intros(1)] heap_candidate[OF hi c'(1)] c'(2)
    show "candidate details ?e \<le> candidate details e'" by simp
  qed
  ultimately show "loop_inv g details st'"
    using st' sv(2,3) inc by (simp add: loop_inv_def kahn_inv_def)
qed

lemma kahn_loop_inv:
  assumes "loop_inv g details st"
  shows "(\<forall>st'. kahn_loop details st = Inr st' \<longrightarrow> loop_inv g details st' \<and> k_heap st' = [])
    \<and> ((\<forall>p\<in>fst ` set g. \<exists>x. details p = Inr x) \<longrightarrow> (\<exists>st'. kahn_loop details st = Inr st'))"
  using assms
proof (induction details st rule: kahn_loop.induct)
  case (1 details st)
  show ?case
  proof (cases "k_heap st")
    case Nil
    with "1.prems" show ?thesis by (simp add: kahn_loop.simps[of details st])
  next
    case (Cons c rest)
    note step = kahn_step_inv[OF "1.prems" Cons]
    show ?thesis
    proof (cases "kahn_step details st")
      case (Inl x)
      with step(2) have "\<not> (\<forall>p\<in>fst ` set g. \<exists>x. details p = Inr x)" by fastforce
      with Inl Cons show ?thesis by (simp add: kahn_loop.simps[of details st])
    next
      case (Inr s)
      with "1.IH"[OF _ Inr step(1)[OF Inr]] Cons show ?thesis by (simp add: kahn_loop.simps[of details st])
    qed
  qed
qed

lemma fold_add_incoming:
  "bt_inv m \<Longrightarrow> bt_inv (fold (add_incoming k) es m) \<and>
     unwrap_or [] (bt_get (fold (add_incoming k) es m) a) =
       (if a \<in> set es then List.insert k (unwrap_or [] (bt_get m a)) else unwrap_or [] (bt_get m a))"
proof (induction es arbitrary: m)
  case (Cons x es)
  then have "bt_inv (add_incoming k x m)" by (simp add: add_incoming_def bt_inv_insert)
  from Cons.IH[OF this] Cons.prems show ?case
    by (auto simp: add_incoming_def bt_get_insert)
qed simp

lemma edges_of_snoc:
  "k \<notin> fst ` set g \<Longrightarrow> edges_of (g @ [(k, es)]) p = (if p = k then set es else edges_of g p)"
  using map_of_eq_None_iff[of g k]
  by (cases "map_of g p") (auto simp: edges_of_def map_add_def split: option.splits)

lemma edges_of_outside: "p \<notin> fst ` set g \<Longrightarrow> edges_of g p = {}"
  by (simp add: edges_of_def map_of_eq_None_iff[THEN iffD2])

definition start_inv :: "graph \<Rightarrow> details_fn \<Rightarrow> kahn \<Rightarrow> bool" where
  "start_inv g details st \<longleftrightarrow>
     kahn_inv g details {} (\<lambda>_. {}) st \<and> incoming_inv g (k_incoming st) \<and> bt_inv (k_incoming st) \<and> k_sorted st = []"

lemma populate_inv:
  assumes "start_inv g details st" "k \<notin> fst ` set g" "populate details st (k, es) = Inr st'"
  shows "start_inv (g @ [(k, es)]) details st'"
proof (cases "es = []")
  case True
  from assms True obtain l ts where d: "details k = Inr (l, ts)"
    and st': "st' = st\<lparr>k_heap := insort (TieBreaker l ts k) (k_heap st)\<rparr>"
    by (auto simp: populate_def push_candidate_def res_simps)
  have e: "edges_of (g @ [(k, es)]) = edges_of g"
    using True assms(2) edges_of_outside[OF assms(2)] by (auto simp: fun_eq_iff edges_of_snoc)
  have h: "heap_inv (g @ [(k, es)]) details {} (\<lambda>_. {}) (insort (TieBreaker l ts k) (k_heap st))"
  proof -
    from assms(1) have hi: "heap_inv g details {} (\<lambda>_. {}) (k_heap st)" by (simp add: start_inv_def kahn_inv_def)
    then have ids: "tb_id ` set (k_heap st) = {p \<in> fst ` set g. edges_of g p = {}}" by (simp add: heap_inv_def)
    with assms(2) have "k \<notin> tb_id ` set (k_heap st)" by (simp only: ids) blast
    moreover have "tb_id ` set (insort (TieBreaker l ts k) (k_heap st)) = {p \<in> fst ` set (g @ [(k, es)]). edges_of g p = {}}"
      using ids edges_of_outside[OF assms(2)] by (auto simp: set_insort_key)
    ultimately show ?thesis
      using hi d by (simp add: heap_inv_def sorted_insort set_insort_key distinct_map_insort e)
  qed
  have o: "outgoing_inv (g @ [(k, es)]) (\<lambda>_. {}) (k_outgoing st)"
    using assms(1) edges_of_outside[OF assms(2)] by (auto simp: start_inv_def kahn_inv_def outgoing_inv_def e)
  have i: "incoming_inv (g @ [(k, es)]) (k_incoming st)"
    using assms(1) edges_of_outside[OF assms(2)] by (auto simp: start_inv_def incoming_inv_def e)
  from h o i assms(1) st' show ?thesis by (simp add: start_inv_def kahn_inv_def)
next
  case False
  from assms False have st': "st' = st\<lparr>k_incoming := fold (add_incoming k) es (k_incoming st),
      k_outgoing := k_outgoing st @ [(k, es)]\<rparr>"
    by (auto simp: populate_def)
  note e = edges_of_snoc[OF assms(2)]
  have o0: "outgoing_inv g (\<lambda>_. {}) (k_outgoing st)" and h0: "heap_inv g details {} (\<lambda>_. {}) (k_heap st)"
    and i0: "incoming_inv g (k_incoming st)" and b0: "bt_inv (k_incoming st)"
    using assms(1) by (simp_all add: start_inv_def kahn_inv_def)
  have nk: "map_of (k_outgoing st) k = None"
    using o0 assms(2) by (cases "map_of (k_outgoing st) k") (auto simp: outgoing_inv_def)
  have m: "map_of (k_outgoing st @ [(k, es)]) p = (if p = k then Some es else map_of (k_outgoing st) p)" for p
    using nk by (auto simp: map_add_def split: option.splits)
  have o: "outgoing_inv (g @ [(k, es)]) (\<lambda>_. {}) (k_outgoing st @ [(k, es)])"
    unfolding outgoing_inv_def m e using o0 False assms(2) by (auto simp: outgoing_inv_def)
  have "{p \<in> fst ` set (g @ [(k, es)]). edges_of (g @ [(k, es)]) p = {}} = {p \<in> fst ` set g. edges_of g p = {}}"
    using False assms(2) by (auto simp: e)
  with h0 have h: "heap_inv (g @ [(k, es)]) details {} (\<lambda>_. {}) (k_heap st)" by (simp add: heap_inv_def)
  note f = fold_add_incoming[OF b0, of k es]
  have i: "incoming_inv (g @ [(k, es)]) (fold (add_incoming k) es (k_incoming st))"
    unfolding incoming_inv_def e using f i0 assms(2) edges_of_outside[OF assms(2)]
    by (auto simp: incoming_inv_def)
  from h o i f assms(1) st' show ?thesis by (simp add: start_inv_def kahn_inv_def)
qed

lemma populate_all_inv:
  assumes "distinct (map fst g)"
  shows "(\<forall>st. fold_result (populate details) kahn_empty g = Inr st \<longrightarrow> start_inv g details st)
    \<and> ((\<forall>p\<in>fst ` set g. \<exists>x. details p = Inr x) \<longrightarrow> (\<exists>st. fold_result (populate details) kahn_empty g = Inr st))"
  using assms
proof (induction g rule: rev_induct)
  case Nil
  show ?case
    by (simp add: kahn_empty_def start_inv_def kahn_inv_def outgoing_inv_def heap_inv_def incoming_inv_def)
next
  case (snoc x g)
  obtain k es where x: "x = (k, es)" by fastforce
  from snoc.prems have d: "distinct (map fst g)" "k \<notin> fst ` set g" by (auto simp: x)
  note IH = snoc.IH[OF d(1)]
  have "start_inv (g @ [(k, es)]) details st'" if st': "fold_result (populate details) kahn_empty (g @ [(k, es)]) = Inr st'" for st'
  proof -
    from st' obtain s where s: "fold_result (populate details) kahn_empty g = Inr s" "populate details s (k, es) = Inr st'"
      by (auto simp: fold_result_append res_simps)
    from mp[OF spec[OF conjunct1[OF IH]] s(1)] show ?thesis by (rule populate_inv[OF _ d(2) s(2)])
  qed
  moreover have "\<exists>st. fold_result (populate details) kahn_empty (g @ [(k, es)]) = Inr st"
    if ok: "\<forall>p\<in>fst ` set (g @ [(k, es)]). \<exists>x. details p = Inr x"
  proof -
    from ok have "\<forall>p\<in>fst ` set g. \<exists>x. details p = Inr x" and k: "\<exists>x. details k = Inr x" by auto
    from mp[OF conjunct2[OF IH] this(1)] obtain s where "fold_result (populate details) kahn_empty g = Inr s" ..
    with k show ?thesis by (auto simp: fold_result_append populate_def push_candidate_def)
  qed
  ultimately show ?case unfolding x by blast
qed

lemma start_loop_inv: "start_inv g details st \<Longrightarrow> loop_inv g details st"
  by (simp add: start_inv_def loop_inv_def greedy_Nil)

lemma sort_greedy:
  assumes "distinct (map fst g)" "reverse_topological_power_sort g details = Inr xs"
  shows "greedy g details xs \<and> ready g (set xs) = {}"
proof -
  from assms(2) obtain st st' where st: "fold_result (populate details) kahn_empty g = Inr st"
    "kahn_loop details st = Inr st'" "xs = k_sorted st'"
    by (auto simp: reverse_topological_power_sort_def res_simps)
  from mp[OF spec[OF conjunct1[OF populate_all_inv[OF assms(1)]]] st(1)] have "loop_inv g details st"
    by (rule start_loop_inv)
  from mp[OF spec[OF conjunct1[OF kahn_loop_inv[OF this]]] st(2)]
  have "greedy g details xs" "heap_inv g details (set xs) (\<lambda>_. set xs) []"
    by (auto simp: loop_inv_def kahn_inv_def st(3))
  then show ?thesis by (simp add: heap_inv_def ready_def)
qed

lemma sort_total:
  assumes "distinct (map fst g)" "\<forall>p\<in>fst ` set g. \<exists>x. details p = Inr x"
  shows "\<exists>xs. reverse_topological_power_sort g details = Inr xs"
proof -
  note p = populate_all_inv[OF assms(1), of details]
  from mp[OF conjunct2[OF p] assms(2)] obtain st where st: "fold_result (populate details) kahn_empty g = Inr st" ..
  from mp[OF spec[OF conjunct1[OF p]] st] have "loop_inv g details st" by (rule start_loop_inv)
  from mp[OF conjunct2[OF kahn_loop_inv[OF this]] assms(2)] st show ?thesis
    by (auto simp: reverse_topological_power_sort_def)
qed

lemma sort_order_independent:
  assumes "distinct (map fst g)" "distinct (map fst g')" "fst ` set g = fst ` set g'" "edges_of g = edges_of g'"
    and "\<forall>p\<in>fst ` set g. \<exists>x. details p = Inr x"
  shows "reverse_topological_power_sort g details = reverse_topological_power_sort g' details"
proof -
  from assms(3,5) have ok: "\<forall>p\<in>fst ` set g'. \<exists>x. details p = Inr x" by simp
  from sort_total[OF assms(1,5)] obtain xs where xs: "reverse_topological_power_sort g details = Inr xs" ..
  from sort_total[OF assms(2) ok] obtain ys where ys: "reverse_topological_power_sort g' details = Inr ys" ..
  from sort_greedy[OF assms(1) xs] sort_greedy[OF assms(2) ys] have "xs = ys"
    using greedy_unique[of g' details xs ys] greedy_cong[OF assms(3,4)] by simp
  with xs ys show ?thesis by simp
qed

lemmas kahn_eval = reverse_topological_power_sort_def populate_def push_candidate_def kahn_empty_def
  kahn_step_def visit_parent_def add_incoming_def modify_entry_def bt_remove_def Let_def

section \<open>Properties\<close>



text \<open>C16: On a graph without cycles whose edges stay inside the graph, the sort succeeds, never
  panics, and returns every event exactly once, each after all of its auth events.\<close>

theorem power_sort_topological:
  assumes "distinct (map fst g)" "\<forall>p\<in>fst ` set g. \<exists>x. details p = Inr x"
    and "wf {(a, e). e \<in> fst ` set g \<and> a \<in> edges_of g e}"
    and "\<forall>e\<in>fst ` set g. edges_of g e \<subseteq> fst ` set g"
  shows "\<exists>xs. reverse_topological_power_sort g details = Inr xs \<and> distinct xs \<and> set xs = fst ` set g
    \<and> (\<forall>ys e zs. xs = ys @ e # zs \<longrightarrow> edges_of g e \<subseteq> set ys)"
proof -
  from sort_total[OF assms(1,2)] obtain xs where xs: "reverse_topological_power_sort g details = Inr xs" ..
  note g = sort_greedy[OF assms(1) xs]
  have "fst ` set g \<subseteq> set xs"
    by (rule greedy_complete[OF assms(3) _ conjunct2[OF g]]) (use assms(4) in blast)
  with greedy_distinct[OF conjunct1[OF g]] have "distinct xs" "set xs = fst ` set g" by auto
  moreover have "edges_of g e \<subseteq> set ys" if "xs = ys @ e # zs" for ys e zs
    by (rule greedy_edges_before[of g details ys e zs]) (use g that in simp)
  ultimately show ?thesis using xs by (intro exI[of _ xs]) simp
qed

theorem power_sort_topological_witness:
  "\<exists>xs. reverse_topological_power_sort [(''$b'', [''$a'']), (''$a'', [])] (\<lambda>_. Inr (IntLevel 0, 1)) = Inr xs
    \<and> set xs = {''$a'', ''$b''}"
proof -
  let ?g = "[(''$b'', [''$a'']), (''$a'', [])]"
  have e: "edges_of ?g x = (if x = ''$b'' then {''$a''} else {})" for x by (simp add: edges_of_def)
  have "wf {(a, e). e \<in> fst ` set ?g \<and> a \<in> edges_of ?g e}"
    by (rule wf_subset[OF wf_measure[of "\<lambda>x. if x = ''$b'' then 1 else 0"]]) (auto simp: e split: if_splits)
  then have "\<exists>xs. reverse_topological_power_sort ?g (\<lambda>_. Inr (IntLevel 0, 1)) = Inr xs \<and> distinct xs
      \<and> set xs = fst ` set ?g \<and> (\<forall>ys e zs. xs = ys @ e # zs \<longrightarrow> edges_of ?g e \<subseteq> set ys)"
    by (intro power_sort_topological) (simp_all add: e)
  then show ?thesis by (auto simp: insert_commute)
qed

text \<open>The order in which the hash map yields its entries does not matter: two lists of entries
  with the same events and the same edges are sorted alike.\<close>

theorem power_sort_order_independent:
  assumes "distinct (map fst g)" "distinct (map fst g')" "fst ` set g = fst ` set g'" "edges_of g = edges_of g'"
    and "\<forall>p\<in>fst ` set g. \<exists>x. details p = Inr x"
  shows "reverse_topological_power_sort g details = reverse_topological_power_sort g' details"
  by (rule sort_order_independent[OF assms])

theorem power_sort_order_independent_witness:
  "reverse_topological_power_sort [(''$b'', [''$a'']), (''$a'', [])] (\<lambda>_. Inr (IntLevel 0, 1))
   = reverse_topological_power_sort [(''$a'', []), (''$b'', [''$a''])] (\<lambda>_. Inr (IntLevel 0, 1))"
  by (rule power_sort_order_independent) (auto simp: edges_of_def fun_eq_iff)

end
