(* ===== verification/Auth_Graph.thy ===== *)
theory Auth_Graph
  imports Kahn_Sort Example_Room
begin

text \<open>
  Power events and the first ordering of state resolution (\<open>sort_power_events\<close>,
  \<open>power_level_for_sender\<close>, \<open>add_event_and_auth_chain_to_graph\<close>, \<open>is_power_event\<close> of
  \<open>core/src/state.rs\<close>).  The order in which the keys of the graph are visited is that of a hash
  map; it is the argument \<open>iter\<close>.
\<close>

section \<open>Power events\<close>

definition is_type_and_key :: "pdu \<Rightarrow> string \<Rightarrow> string \<Rightarrow> bool" where
  "is_type_and_key ev t key \<longleftrightarrow> ev_type ev = t \<and> ev_state_key ev = Some key"

definition is_power_event :: "pdu \<Rightarrow> bool" where
  "is_power_event ev \<longleftrightarrow>
     (if ev_type ev \<in> {PowerLevelsType, JoinRulesType, CreateType} then ev_state_key ev = Some ''''
      else if ev_type ev = MemberType
      then (case content_membership (ev_content ev) of
              Inr m \<Rightarrow> (m = Leave \<or> m = Ban) \<and> Some (ev_sender ev) \<noteq> ev_state_key ev
            | Inl _ \<Rightarrow> False)
      else False)"

definition is_power_event_id :: "fetch_event \<Rightarrow> string \<Rightarrow> bool" where
  "is_power_event_id fetch i = (case fetch i of Inr ev \<Rightarrow> is_power_event ev | Inl _ \<Rightarrow> False)"

section \<open>The graph\<close>

definition graph_entry :: "string \<Rightarrow> graph \<Rightarrow> graph" where
  "graph_entry e g = (if e \<in> fst ` set g then g else g @ [(e, [])])"

definition fetched_auth_events :: "fetch_event \<Rightarrow> string \<Rightarrow> string list" where
  "fetched_auth_events fetch e = (case fetch e of Inr ev \<Rightarrow> ev_auth_events ev | Inl _ \<Rightarrow> [])"

definition visit_auth_event :: "string list \<Rightarrow> string \<Rightarrow> string \<Rightarrow> graph \<times> string list \<Rightarrow> graph \<times> string list" where
  "visit_auth_event full_conflicted_set e auth st =
     (if auth \<in> set full_conflicted_set
      then (modify_entry e (List.insert auth) (fst st),
            if auth \<notin> fst ` set (fst st) then auth # snd st else snd st)
      else st)"

lemma modify_entry_keys [simp]: "map fst (modify_entry k f m) = map fst m"
  by (induction m) (auto simp: modify_entry_def)

lemma modify_entry_fst [simp]: "fst ` set (modify_entry k f m) = fst ` set m"
  by (metis list.set_map modify_entry_keys)

lemma fold_visit_auth_event:
  "fold (visit_auth_event fcs e) auths (g, stack) =
     (fold (\<lambda>a. modify_entry e (List.insert a)) (filter (\<lambda>a. a \<in> set fcs) auths) g,
      rev (filter (\<lambda>a. a \<in> set fcs \<and> a \<notin> fst ` set g) auths) @ stack)"
  by (induction auths arbitrary: g stack) (auto simp: visit_auth_event_def)

lemma fold_modify_fst [simp]: "fst ` set (fold (\<lambda>a. modify_entry e (f a)) xs g) = fst ` set g"
  by (induction xs arbitrary: g) simp_all

lemma graph_entry_fst [simp]: "fst ` set (graph_entry e g) = insert e (fst ` set g)"
  by (auto simp: graph_entry_def)

definition chain_pending :: "string list \<Rightarrow> graph \<Rightarrow> string list \<Rightarrow> nat" where
  "chain_pending fcs g stack = card ((set fcs \<union> set stack) - fst ` set g)"

definition chain_top :: "graph \<Rightarrow> string list \<Rightarrow> nat" where
  "chain_top g stack = (case stack of [] \<Rightarrow> 0 | e # _ \<Rightarrow> if e \<in> fst ` set g then Suc (length stack) else 0)"

lemma visit_chain:
  assumes "fold (visit_auth_event fcs e) auths (graph_entry e g, stack) = (g', stack')"
  shows "fst ` set g' = insert e (fst ` set g)"
    "stack' = rev (filter (\<lambda>a. a \<in> set fcs \<and> a \<notin> insert e (fst ` set g)) auths) @ stack"
proof -
  from assms have "g' = fold (\<lambda>a. modify_entry e (List.insert a)) (filter (\<lambda>a. a \<in> set fcs) auths) (graph_entry e g)"
    by (simp add: fold_visit_auth_event)
  then show "fst ` set g' = insert e (fst ` set g)" by simp
  from assms show "stack' = rev (filter (\<lambda>a. a \<in> set fcs \<and> a \<notin> insert e (fst ` set g)) auths) @ stack"
    by (simp add: fold_visit_auth_event)
qed

lemma add_auth_chain_decreases:
  assumes "fold (visit_auth_event fcs e) auths (graph_entry e g, stack) = (g', stack')"
  shows "chain_pending fcs g' stack' < chain_pending fcs g (e # stack)
    \<or> chain_pending fcs g' stack' = chain_pending fcs g (e # stack) \<and> chain_top g' stack' < chain_top g (e # stack)"
proof -
  define new where "new = rev (filter (\<lambda>a. a \<in> set fcs \<and> a \<notin> insert e (fst ` set g)) auths)"
  note keys = visit_chain(1)[OF assms]
  have snd: "stack' = new @ stack" unfolding new_def by (rule visit_chain(2)[OF assms])
  have new: "a \<in> set fcs \<and> a \<notin> insert e (fst ` set g)" if "a \<in> set new" for a
    using that by (auto simp: new_def)
  have sub: "(set fcs \<union> set stack') - fst ` set g' \<subseteq> (set fcs \<union> set (e # stack)) - fst ` set g"
    unfolding keys snd using new by auto
  show ?thesis
  proof (cases "e \<in> fst ` set g")
    case False
    have "(set fcs \<union> set stack') - fst ` set g' \<subset> (set fcs \<union> set (e # stack)) - fst ` set g"
      using sub False keys by auto
    then show ?thesis unfolding chain_pending_def by (intro disjI1 psubset_card_mono) auto
  next
    case True
    have le: "chain_pending fcs g' stack' \<le> chain_pending fcs g (e # stack)"
      unfolding chain_pending_def using sub by (intro card_mono) auto
    have "chain_top g' stack' < Suc (length (e # stack))"
    proof (cases new)
      case Nil
      then show ?thesis by (auto simp: chain_top_def snd split: list.split)
    next
      case (Cons a as)
      with new[of a] show ?thesis by (simp add: chain_top_def snd keys)
    qed
    with True have "chain_top g' stack' < chain_top g (e # stack)" by (simp add: chain_top_def)
    with le show ?thesis by linarith
  qed
qed

text \<open>The worklist; its head is the top of the stack.\<close>

function add_auth_chain :: "fetch_event \<Rightarrow> string list \<Rightarrow> graph \<Rightarrow> string list \<Rightarrow> graph" where
  "add_auth_chain fetch fcs g [] = g"
| "add_auth_chain fetch fcs g (e # stack) =
     (let st = fold (visit_auth_event fcs e) (fetched_auth_events fetch e) (graph_entry e g, stack)
      in add_auth_chain fetch fcs (fst st) (snd st))"
  by pat_completeness auto

termination
proof (relation "measures [\<lambda>(_, fcs, g, stack). chain_pending fcs g stack, \<lambda>(_, _, g, stack). chain_top g stack]",
    goal_cases)
  case (2 fetch fcs g e stack st)
  obtain g' stack' where st: "st = (g', stack')" by fastforce
  from add_auth_chain_decreases[OF trans[OF sym[OF 2] st]] show ?case by (auto simp: st)
qed simp

definition add_event_and_auth_chain_to_graph :: "fetch_event \<Rightarrow> string list \<Rightarrow> string \<Rightarrow> graph \<Rightarrow> graph" where
  "add_event_and_auth_chain_to_graph fetch full_conflicted_set e g = add_auth_chain fetch full_conflicted_set g [e]"

section \<open>Power levels of senders\<close>

text \<open>The result of \<open>room_create_event_id().ok()\<close>; the assertion inside may panic.\<close>

definition create_event_id_ok :: "string \<Rightarrow> state_error + string option" where
  "create_event_id_ok room_id =
     (case room_create_event_id room_id of
        Inr i \<Rightarrow> Inr (Some i)
      | Inl (Err e) \<Rightarrow> Inr None
      | Inl Panic \<Rightarrow> Inl StatePanic)"

fun scan_auth_events ::
  "fetch_event \<Rightarrow> authorization_rules \<Rightarrow> bool \<Rightarrow> string list \<Rightarrow> pdu option \<times> pdu option \<Rightarrow> pdu option \<times> pdu option" where
  "scan_auth_events fetch rules creators_known [] found = found"
| "scan_auth_events fetch rules creators_known (i # ids) found =
     (case fetch i of
        Inl _ \<Rightarrow> scan_auth_events fetch rules creators_known ids found
      | Inr ev \<Rightarrow>
          let found' =
            (if is_type_and_key ev PowerLevelsType '''' then (fst found, Some ev)
             else if \<not> room_create_event_id_as_room_id rules \<and> \<not> creators_known \<and> is_type_and_key ev CreateType ''''
             then (Some ev, snd found)
             else found)
          in if snd found' \<noteq> None
               \<and> (room_create_event_id_as_room_id rules \<or> creators_known \<or> fst found' \<noteq> None)
             then found'
             else scan_auth_events fetch rules creators_known ids found')"

text \<open>The result is the level and the content of the lock afterwards.\<close>

definition power_level_for_sender ::
  "env \<Rightarrow> fetch_event \<Rightarrow> authorization_rules \<Rightarrow> string \<Rightarrow> string list option
    \<Rightarrow> state_error + user_power_level \<times> string list option" where
  "power_level_for_sender E fetch rules i creators_lock =
     (let event = ok_opt (fetch i) in
      and_then
        (case event of
           Some ev \<Rightarrow>
             (if room_create_event_id_as_room_id rules \<and> creators_lock = None
              then map_ok (\<lambda>c. Option.bind c (\<lambda>c. ok_opt (fetch c))) (create_event_id_ok (ev_room_id ev))
              else Inr None)
         | None \<Rightarrow> Inr None) (\<lambda>create0.
      let found = scan_auth_events fetch rules (creators_lock \<noteq> None)
            (case event of Some ev \<Rightarrow> ev_auth_events ev | None \<Rightarrow> []) (create0, None) in
      and_then
        (case creators_lock of
           Some cs \<Rightarrow> Inr (Some cs)
         | None \<Rightarrow> (case fst found of Some create \<Rightarrow> map_ok Some (create_creators E create) | None \<Rightarrow> Inr None))
        (\<lambda>creators.
      map_ok (\<lambda>level. (level, creators))
        (case (event, creators) of
           (Some ev, Some cs) \<Rightarrow> user_power_level_of (snd found) (ev_sender ev) cs rules
         | _ \<Rightarrow> map_ok IntLevel (int_or_default_of (snd found) FUsersDefault rules)))))"

definition add_power_level ::
  "env \<Rightarrow> fetch_event \<Rightarrow> authorization_rules \<Rightarrow> (string \<times> user_power_level) list \<times> string list option
    \<Rightarrow> string \<Rightarrow> state_error + (string \<times> user_power_level) list \<times> string list option" where
  "add_power_level E fetch rules acc i =
     map_ok (\<lambda>(level, lock). ((i, level) # fst acc, lock)) (power_level_for_sender E fetch rules i (snd acc))"

definition event_details :: "fetch_event \<Rightarrow> (string \<times> user_power_level) list \<Rightarrow> details_fn" where
  "event_details fetch levels i =
     and_then (ok_or (NotFound i) (map_of levels i)) (\<lambda>level.
     map_ok (\<lambda>ev. (level, ev_ts ev)) (fetch i))"

definition power_events_graph :: "fetch_event \<Rightarrow> string list \<Rightarrow> string list \<Rightarrow> graph" where
  "power_events_graph fetch full_conflicted_set events =
     fold (add_event_and_auth_chain_to_graph fetch full_conflicted_set) events []"

definition sort_power_events ::
  "env \<Rightarrow> (string list \<Rightarrow> string list) \<Rightarrow> string list \<Rightarrow> string list \<Rightarrow> authorization_rules \<Rightarrow> fetch_event
    \<Rightarrow> state_error + string list" where
  "sort_power_events E iter conflicted_power_events full_conflicted_set rules fetch =
     (let graph = power_events_graph fetch full_conflicted_set conflicted_power_events in
      and_then (fold_result (add_power_level E fetch rules) ([], None) (iter (map fst graph))) (\<lambda>acc.
      reverse_topological_power_sort graph (event_details fetch (fst acc))))"

section \<open>The graph holds the auth chains inside the conflicted set\<close>

definition auth_in :: "fetch_event \<Rightarrow> string list \<Rightarrow> string \<Rightarrow> string set" where
  "auth_in fetch fcs e = set (fetched_auth_events fetch e) \<inter> set fcs"

definition chain_from :: "fetch_event \<Rightarrow> string list \<Rightarrow> string set \<Rightarrow> string set" where
  "chain_from fetch fcs S = {(e, a). a \<in> auth_in fetch fcs e}\<^sup>* `` S"

definition chain_inv :: "fetch_event \<Rightarrow> string list \<Rightarrow> string set \<Rightarrow> graph \<Rightarrow> string list \<Rightarrow> bool" where
  "chain_inv fetch fcs S g stack \<longleftrightarrow>
     distinct (map fst g)
     \<and> (\<forall>e\<in>fst ` set g. edges_of g e = auth_in fetch fcs e \<and> auth_in fetch fcs e \<subseteq> fst ` set g \<union> set stack)
     \<and> fst ` set g \<union> set stack \<subseteq> chain_from fetch fcs S"

lemma chain_invD:
  assumes "chain_inv fetch fcs S g stack"
  shows "distinct (map fst g)"
    "e \<in> fst ` set g \<Longrightarrow> edges_of g e = auth_in fetch fcs e"
    "e \<in> fst ` set g \<Longrightarrow> auth_in fetch fcs e \<subseteq> fst ` set g \<union> set stack"
    "fst ` set g \<subseteq> chain_from fetch fcs S" "set stack \<subseteq> chain_from fetch fcs S"
  using assms unfolding chain_inv_def by blast+

lemma edges_of_modify:
  "edges_of (modify_entry k (List.insert a) g) e =
     (if e = k \<and> k \<in> fst ` set g then insert a (edges_of g e) else edges_of g e)"
  using map_of_eq_None_iff[of g k]
  by (cases "map_of g k") (auto simp: edges_of_def map_of_modify_entry)

lemma edges_of_fold_modify:
  "k \<in> fst ` set g \<Longrightarrow>
     edges_of (fold (\<lambda>a. modify_entry k (List.insert a)) xs g) e =
       (if e = k then set xs \<union> edges_of g e else edges_of g e)"
  by (induction xs arbitrary: g) (auto simp: edges_of_modify)

lemma fold_modify_keys [simp]: "map fst (fold (\<lambda>a. modify_entry e (f a)) xs g) = map fst g"
  by (induction xs arbitrary: g) simp_all

lemma edges_of_graph_entry: "edges_of (graph_entry e g) = edges_of g"
  using edges_of_snoc[of e g "[]"] edges_of_outside[of e g] by (auto simp: graph_entry_def fun_eq_iff)

lemma chain_from_step: "e \<in> chain_from fetch fcs S \<Longrightarrow> auth_in fetch fcs e \<subseteq> chain_from fetch fcs S"
  unfolding chain_from_def by (auto intro: rtrancl_into_rtrancl)

lemma chain_inv_step:
  assumes "chain_inv fetch fcs S g (e # stack)"
    and "fold (visit_auth_event fcs e) (fetched_auth_events fetch e) (graph_entry e g, stack) = (g', stack')"
  shows "chain_inv fetch fcs S g' stack'"
proof -
  let ?A = "auth_in fetch fcs" and ?as = "filter (\<lambda>a. a \<in> set fcs) (fetched_auth_events fetch e)"
  have g': "g' = fold (\<lambda>a. modify_entry e (List.insert a)) ?as (graph_entry e g)"
    using assms(2) by (simp add: fold_visit_auth_event)
  have st: "set stack' = {a \<in> ?A e. a \<notin> insert e (fst ` set g)} \<union> set stack"
    unfolding visit_chain(2)[OF assms(2)] by (auto simp: auth_in_def)
  have keys: "fst ` set g' = insert e (fst ` set g)" by (simp add: g')
  have dist: "distinct (map fst g')"
    using assms(1) by (auto simp: g' chain_inv_def graph_entry_def)
  have as: "set ?as = ?A e" by (auto simp: auth_in_def)
  have ed: "edges_of g' x = (if x = e then ?A e \<union> edges_of g x else edges_of g x)" for x
    unfolding g' as[symmetric] by (subst edges_of_fold_modify) (simp_all add: edges_of_graph_entry)
  have e0: "edges_of g e \<subseteq> ?A e"
    using assms(1) edges_of_outside[of e g] by (cases "e \<in> fst ` set g") (auto simp: chain_inv_def)
  have ee: "edges_of g' x = ?A x" if "x \<in> fst ` set g'" for x
    using that assms(1) e0 by (auto simp: ed keys chain_inv_def)
  have cl: "?A x \<subseteq> fst ` set g' \<union> set stack'" if "x \<in> fst ` set g'" for x
  proof (cases "x = e")
    case False
    with that assms(1) have "?A x \<subseteq> fst ` set g \<union> set (e # stack)" by (auto simp: keys chain_inv_def)
    then show ?thesis by (auto simp: keys st)
  qed (auto simp: keys st)
  have "e \<in> chain_from fetch fcs S" using assms(1) by (auto simp: chain_inv_def)
  from chain_from_step[OF this] assms(1) have up: "fst ` set g' \<union> set stack' \<subseteq> chain_from fetch fcs S"
    by (auto simp: keys st chain_inv_def)
  from dist ee cl up show ?thesis by (simp add: chain_inv_def)
qed

lemma add_auth_chain_inv:
  "chain_inv fetch fcs S g stack \<Longrightarrow>
     chain_inv fetch fcs S (add_auth_chain fetch fcs g stack) []
     \<and> fst ` set g \<union> set stack \<subseteq> fst ` set (add_auth_chain fetch fcs g stack)"
proof (induction fetch fcs g stack rule: add_auth_chain.induct)
  case (2 fetch fcs g e stack)
  obtain g' stack' where st: "fold (visit_auth_event fcs e) (fetched_auth_events fetch e) (graph_entry e g, stack) = (g', stack')"
    by fastforce
  have sub: "fst ` set g \<union> set (e # stack) \<subseteq> fst ` set g' \<union> set stack'"
    using visit_chain[OF st] by auto
  let ?r = "add_auth_chain fetch fcs g' stack'"
  have "chain_inv fetch fcs S ?r [] \<and> fst ` set g' \<union> set stack' \<subseteq> fst ` set ?r"
    using "2.IH"[OF st[symmetric]] chain_inv_step[OF "2.prems" st] by simp
  moreover from this sub have "fst ` set g \<union> set (e # stack) \<subseteq> fst ` set ?r" by (elim conjE) (rule subset_trans)
  ultimately show ?case by (simp add: st)
qed auto

lemma chain_from_mono: "S \<subseteq> S' \<Longrightarrow> chain_from fetch fcs S \<subseteq> chain_from fetch fcs S'"
  unfolding chain_from_def by blast

lemma chain_from_self: "S \<subseteq> chain_from fetch fcs S"
  unfolding chain_from_def by blast

lemma chain_from_least:
  assumes "S \<subseteq> X" "\<And>e. e \<in> X \<Longrightarrow> auth_in fetch fcs e \<subseteq> X"
  shows "chain_from fetch fcs S \<subseteq> X"
proof
  fix x assume "x \<in> chain_from fetch fcs S"
  then obtain s where "s \<in> S" and st: "(s, x) \<in> {(e, a). a \<in> auth_in fetch fcs e}\<^sup>*"
    by (auto simp: chain_from_def)
  from st show "x \<in> X" by induction (use \<open>s \<in> S\<close> assms in auto)
qed

lemma add_event_inv:
  assumes "chain_inv fetch fcs S g []" "S \<subseteq> fst ` set g"
  shows "chain_inv fetch fcs (insert e S) (add_event_and_auth_chain_to_graph fetch fcs e g) []
    \<and> insert e S \<subseteq> fst ` set (add_event_and_auth_chain_to_graph fetch fcs e g)"
proof -
  have "e \<in> chain_from fetch fcs (insert e S)" using chain_from_self[of "insert e S" fetch fcs] by simp
  with chain_invD(4)[OF assms(1)] chain_from_mono[of S "insert e S" fetch fcs]
  have "fst ` set g \<union> set [e] \<subseteq> chain_from fetch fcs (insert e S)" by (simp add: subset_insertI subset_trans)
  then have "chain_inv fetch fcs (insert e S) g [e]"
    unfolding chain_inv_def using chain_invD(1-3)[OF assms(1)] by (intro conjI ballI) auto
  from add_auth_chain_inv[OF this] assms(2) show ?thesis
    unfolding add_event_and_auth_chain_to_graph_def by (auto simp del: list.set_map)
qed

lemma add_events_inv:
  "chain_inv fetch fcs S g [] \<Longrightarrow> S \<subseteq> fst ` set g \<Longrightarrow>
     let g' = fold (add_event_and_auth_chain_to_graph fetch fcs) xs g
     in chain_inv fetch fcs (S \<union> set xs) g' [] \<and> S \<union> set xs \<subseteq> fst ` set g'"
proof (induction xs arbitrary: S g)
  case (Cons e xs)
  note s = add_event_inv[OF Cons.prems, of e]
  from Cons.IH[OF conjunct1[OF s] conjunct2[OF s]] show ?case by (simp add: Let_def)
qed simp

lemma power_events_graph_inv:
  "distinct (map fst (power_events_graph fetch fcs events))"
  "fst ` set (power_events_graph fetch fcs events) = chain_from fetch fcs (set events)"
  "e \<in> chain_from fetch fcs (set events) \<Longrightarrow> edges_of (power_events_graph fetch fcs events) e = auth_in fetch fcs e"
proof -
  let ?g = "power_events_graph fetch fcs events"
  have "chain_inv fetch fcs {} [] []" by (simp add: chain_inv_def)
  from add_events_inv[OF this, of events]
  have inv: "chain_inv fetch fcs (set events) ?g []" and sub: "set events \<subseteq> fst ` set ?g"
    by (simp_all add: power_events_graph_def Let_def)
  show "distinct (map fst ?g)" by (rule chain_invD(1)[OF inv])
  have "chain_from fetch fcs (set events) \<subseteq> fst ` set ?g"
    by (rule chain_from_least[OF sub]) (use chain_invD(3)[OF inv] in simp)
  with chain_invD(4)[OF inv] show keys: "fst ` set ?g = chain_from fetch fcs (set events)" by (rule equalityI)
  show "edges_of ?g e = auth_in fetch fcs e" if "e \<in> chain_from fetch fcs (set events)"
    by (rule chain_invD(2)[OF inv]) (simp only: keys that)
qed

section \<open>Sorting the power events\<close>

lemma power_levels_collected:
  "fold_result (add_power_level E fetch rules) acc ids = Inr acc' \<Longrightarrow>
     fst ` set (fst acc') = fst ` set (fst acc) \<union> set ids"
proof (induction ids arbitrary: acc)
  case (Cons i ids)
  from Cons.prems obtain acc1 where a: "add_power_level E fetch rules acc i = Inr acc1"
    "fold_result (add_power_level E fetch rules) acc1 ids = Inr acc'" by (auto simp: res_simps)
  from a(1) obtain l where "fst acc1 = (i, l) # fst acc" by (auto simp: add_power_level_def res_simps)
  with Cons.IH[OF a(2)] show ?case by simp
qed simp

lemma power_levels_total:
  "(\<forall>i\<in>set ids. \<forall>lock. \<exists>r. power_level_for_sender E fetch rules i lock = Inr r) \<Longrightarrow>
     \<exists>acc'. fold_result (add_power_level E fetch rules) acc ids = Inr acc'"
proof (induction ids arbitrary: acc)
  case (Cons i ids)
  from Cons.prems obtain r where "power_level_for_sender E fetch rules i (snd acc) = Inr r" by fastforce
  then have "add_power_level E fetch rules acc i = Inr ((i, fst r) # fst acc, snd r)"
    by (simp add: add_power_level_def split_def)
  with Cons.IH[of "((i, fst r) # fst acc, snd r)"] Cons.prems show ?case by simp
qed simp

lemma sort_power_events_order:
  assumes "sort_power_events E iter events fcs rules fetch = Inr xs"
    and "wf {(a, e). a \<in> auth_in fetch fcs e}"
  shows "distinct xs" "set xs = chain_from fetch fcs (set events)"
    "xs = ys @ e # zs \<Longrightarrow> auth_in fetch fcs e \<subseteq> set ys"
proof -
  let ?g = "power_events_graph fetch fcs events" and ?C = "chain_from fetch fcs (set events)"
  note G = power_events_graph_inv[where fetch = fetch and fcs = fcs and events = events]
  from assms(1) obtain d where d: "reverse_topological_power_sort ?g d = Inr xs"
    by (auto simp: sort_power_events_def Let_def res_simps)
  note g = sort_greedy[OF G(1) d]
  have "?C \<subseteq> set xs"
    unfolding G(2)[symmetric]
    by (rule greedy_complete[OF assms(2) _ conjunct2[OF g]])
      (use chain_from_step[of _ fetch fcs "set events"] in \<open>auto simp only: G(2,3)\<close>)
  with greedy_distinct[OF conjunct1[OF g]] show "distinct xs" and s: "set xs = ?C" unfolding G(2) by auto
  show "auth_in fetch fcs e \<subseteq> set ys" if "xs = ys @ e # zs"
  proof -
    from that s have "e \<in> ?C" by auto
    with greedy_edges_before[of ?g d ys e zs] conjunct1[OF g] that show ?thesis by (simp add: G(3))
  qed
qed

lemma sort_power_events_total:
  assumes "\<And>xs. set (iter xs) = set xs"
    and "\<forall>i\<in>chain_from fetch fcs (set events). \<exists>ev. fetch i = Inr ev"
    and "\<forall>i\<in>chain_from fetch fcs (set events). \<forall>lock. \<exists>r. power_level_for_sender E fetch rules i lock = Inr r"
  shows "\<exists>xs. sort_power_events E iter events fcs rules fetch = Inr xs"
proof -
  let ?g = "power_events_graph fetch fcs events"
  note G = power_events_graph_inv[where fetch = fetch and fcs = fcs and events = events]
  have ids: "set (iter (map fst ?g)) = chain_from fetch fcs (set events)" by (simp add: assms(1) G(2))
  have "\<forall>i\<in>set (iter (map fst ?g)). \<forall>lock. \<exists>r. power_level_for_sender E fetch rules i lock = Inr r"
    unfolding ids by (rule assms(3))
  from power_levels_total[OF this] obtain acc
    where acc: "fold_result (add_power_level E fetch rules) ([], None) (iter (map fst ?g)) = Inr acc" ..
  have "\<exists>x. event_details fetch (fst acc) i = Inr x" if "i \<in> fst ` set ?g" for i
  proof -
    from that have i: "i \<in> chain_from fetch fcs (set events)" unfolding G(2) .
    with power_levels_collected[OF acc] ids have "map_of (fst acc) i \<noteq> None" by (simp add: map_of_eq_None_iff)
    with i assms(2) show ?thesis by (auto simp: event_details_def)
  qed
  with sort_total[OF G(1), of "event_details fetch (fst acc)"] acc show ?thesis
    by (simp add: sort_power_events_def Let_def)
qed

section \<open>Properties\<close>

text \<open>The graph built for a list of events has exactly the events of the list and those of their
  auth chains inside the full conflicted set, once each, and leads from each event to exactly
  its auth events in that set.\<close>

theorem power_events_graph_correct:
  "distinct (map fst (power_events_graph fetch fcs events))
   \<and> fst ` set (power_events_graph fetch fcs events) = chain_from fetch fcs (set events)
   \<and> edges_of (power_events_graph fetch fcs events) e
       = (if e \<in> chain_from fetch fcs (set events) then auth_in fetch fcs e else {})"
  using power_events_graph_inv[where fetch = fetch and fcs = fcs and events = events]
    edges_of_outside[of e "power_events_graph fetch fcs events"]
  by auto

text \<open>C17: When the auth events of the conflicted set contain no cycle, every event can be fetched
  and every sender's power level can be read, the power events and their auth chains are
  all sorted, without a panic, each event once and after its auth events, whatever the
  order in which the hash map yields the graph.\<close>

theorem sort_power_events_topological:
  assumes "wf {(a, e). a \<in> auth_in fetch fcs e}" "\<And>xs. set (iter xs) = set xs"
    and "\<forall>i\<in>chain_from fetch fcs (set events). \<exists>ev. fetch i = Inr ev"
    and "\<forall>i\<in>chain_from fetch fcs (set events). \<forall>lock. \<exists>r. power_level_for_sender E fetch rules i lock = Inr r"
  shows "\<exists>xs. sort_power_events E iter events fcs rules fetch = Inr xs \<and> distinct xs
    \<and> set xs = chain_from fetch fcs (set events)
    \<and> (\<forall>ys e zs. xs = ys @ e # zs \<longrightarrow> auth_in fetch fcs e \<subseteq> set ys)"
proof -
  from sort_power_events_total[OF assms(2-4)] obtain xs where xs: "sort_power_events E iter events fcs rules fetch = Inr xs" ..
  from sort_power_events_order[OF xs assms(1)] xs show ?thesis by (intro exI[of _ xs]) simp
qed

theorem sort_power_events_topological_witness:
  "\<exists>xs. sort_power_events ex_env rev [''$pl''] [''$pl''] ex_rules
      (\<lambda>i. if i = ''$pl'' then Inr ex_levels else Inl (NotFound i)) = Inr xs \<and> set xs = {''$pl''}"
proof -
  let ?f = "\<lambda>i. if i = ''$pl'' then Inr ex_levels else Inl (NotFound i)" and ?pl = "''$pl''"
  have a: "auth_in ?f [?pl] e = {}" for e
    by (simp add: auth_in_def fetched_auth_events_def ex_levels_def ex_power_levels_def)
  then have c: "chain_from ?f [?pl] (set [?pl]) = {?pl}" by (simp add: chain_from_def)
  have p: "\<exists>r. power_level_for_sender ex_env ?f ex_rules ?pl lock = Inr r" for lock
    by (cases lock) (simp_all add: power_level_for_sender_def Let_def ex_levels_def ex_power_levels_def
        int_or_default_of_def user_power_level_of_def)
  have "\<exists>xs. sort_power_events ex_env rev [?pl] [?pl] ex_rules ?f = Inr xs \<and> distinct xs
    \<and> set xs = chain_from ?f [?pl] (set [?pl]) \<and> (\<forall>ys e zs. xs = ys @ e # zs \<longrightarrow> auth_in ?f [?pl] e \<subseteq> set ys)"
  proof (rule sort_power_events_topological)
    show "\<forall>i\<in>chain_from ?f [?pl] (set [?pl]). \<forall>lock. \<exists>r. power_level_for_sender ex_env ?f ex_rules i lock = Inr r"
      unfolding c by (intro ballI allI, drule singletonD) (simp only: p)
  qed (simp_all only: a c, simp_all)
  then show ?thesis unfolding c by (elim exE conjE) (intro exI conjI)
qed

end
