(* ===== verification/Mainline.thy ===== *)
theory Mainline
  imports Auth_Graph "HOL-Library.Product_Lexorder" "HOL-Library.Option_ord" "HOL-Library.AList"
begin

text \<open>
  The second ordering of state resolution (\<open>mainline_sort\<close> and \<open>mainline_position\<close> of
  \<open>core/src/state.rs\<close>).  Both loops follow the power levels events among the auth events; the
  code has no bound on them, so they are partial functions whose value \<open>None\<close> stands for a run
  that does not end.  A hash map from events to positions is the list of its insertions, the
  latest first.
\<close>

section \<open>The mainline\<close>

text \<open>The search for the power levels event in the auth events, with the first failure to fetch.\<close>

fun find_power_levels :: "fetch_event \<Rightarrow> string list \<Rightarrow> state_error + (string \<times> pdu) option" where
  "find_power_levels fetch [] = Inr None"
| "find_power_levels fetch (i # ids) =
     and_then (fetch i) (\<lambda>auth_event.
     if is_type_and_key auth_event PowerLevelsType '''' then Inr (Some (i, auth_event))
     else find_power_levels fetch ids)"

partial_function (option) populate_mainline ::
  "fetch_event \<Rightarrow> string list \<Rightarrow> string option \<Rightarrow> (state_error + string list) option" where
  "populate_mainline fetch mainline power_level =
     (case power_level of
        None \<Rightarrow> Some (Inr mainline)
      | Some i \<Rightarrow>
          (case and_then (fetch i) (\<lambda>ev. find_power_levels fetch (ev_auth_events ev)) of
             Inl e \<Rightarrow> Some (Inl e)
           | Inr next \<Rightarrow> populate_mainline fetch (mainline @ [i]) (map_option fst next)))"

type_synonym mainline_map = "(string \<times> nat) list"

definition mainline_map_of :: "string list \<Rightarrow> mainline_map" where
  "mainline_map_of mainline = rev (zip (rev mainline) [1..<Suc (length mainline)])"

partial_function (option) mainline_position ::
  "pdu \<Rightarrow> mainline_map \<Rightarrow> fetch_event \<Rightarrow> (state_error + nat option) option" where
  "mainline_position ev mainline_map fetch =
     (case map_of mainline_map (ev_id ev) of
        Some position \<Rightarrow> Some (Inr (Some position))
      | None \<Rightarrow>
          (case find_power_levels fetch (ev_auth_events ev) of
             Inl e \<Rightarrow> Some (Inl e)
           | Inr None \<Rightarrow> Some (Inr None)
           | Inr (Some (i, auth_event)) \<Rightarrow> mainline_position auth_event mainline_map fetch))"

section \<open>The sort\<close>

type_synonym order_key = "nat option \<times> nat option \<times> string"

text \<open>The body of the loop over the events; \<open>Some None\<close> skips the event.\<close>

definition order_entry :: "mainline_map \<Rightarrow> fetch_event \<Rightarrow> string \<Rightarrow> order_key option option" where
  "order_entry mainline_map fetch i =
     (case fetch i of
        Inl _ \<Rightarrow> Some None
      | Inr ev \<Rightarrow>
          (case mainline_position ev mainline_map fetch of
             None \<Rightarrow> None
           | Some (Inl _) \<Rightarrow> Some None
           | Some (Inr position) \<Rightarrow> Some (Some (position, ok_opt (map_ok ev_ts (fetch i)), i))))"

fun order_events ::
  "mainline_map \<Rightarrow> fetch_event \<Rightarrow> string list \<Rightarrow> (string \<times> order_key) list \<Rightarrow> (string \<times> order_key) list option" where
  "order_events mm fetch [] order_map = Some order_map"
| "order_events mm fetch (i # ids) order_map =
     (case order_entry mm fetch i of
        None \<Rightarrow> None
      | Some None \<Rightarrow> order_events mm fetch ids order_map
      | Some (Some k) \<Rightarrow> order_events mm fetch ids (AList.update i k order_map))"

definition mainline_sort ::
  "fetch_event \<Rightarrow> string list \<Rightarrow> string option \<Rightarrow> (state_error + string list) option" where
  "mainline_sort fetch events power_level =
     (if events = [] then Some (Inr [])
      else case populate_mainline fetch [] power_level of
        None \<Rightarrow> None
      | Some (Inl e) \<Rightarrow> Some (Inl e)
      | Some (Inr mainline) \<Rightarrow>
          map_option
            (\<lambda>order_map. Inr (sort_key (\<lambda>i. unwrap_or (None, None, i) (map_of order_map i)) (map fst order_map)))
            (order_events (mainline_map_of mainline) fetch events []))"

declare populate_mainline.simps [code] mainline_position.simps [code]

section \<open>Termination\<close>

definition auth_rel :: "fetch_event \<Rightarrow> (string \<times> string) set" where
  "auth_rel fetch = {(a, e). \<exists>ev. fetch e = Inr ev \<and> a \<in> set (ev_auth_events ev)}"

lemma find_power_levels_Some:
  "find_power_levels fetch ids = Inr (Some (i, ev)) \<Longrightarrow>
     i \<in> set ids \<and> fetch i = Inr ev \<and> is_type_and_key ev PowerLevelsType ''''"
  by (induction ids) (auto simp: res_simps split: if_splits)

lemma no_pair [simp]: "(\<forall>j e. x \<noteq> Some (j, e)) \<longleftrightarrow> x = None"
  by (cases x) auto

lemma populate_mainline_None [simp]: "populate_mainline fetch ml None = Some (Inr ml)"
  by (simp add: populate_mainline.simps)

lemma populate_mainline_ends:
  assumes "wf (auth_rel fetch)"
  shows "\<exists>r. populate_mainline fetch ml p = Some r"
proof (cases p)
  case (Some i)
  from assms have "\<forall>ml. \<exists>r. populate_mainline fetch ml (Some i) = Some r"
  proof (induction i rule: wf_induct_rule)
    case (less i)
    show ?case
    proof (cases "\<exists>j e ev. fetch i = Inr ev \<and> find_power_levels fetch (ev_auth_events ev) = Inr (Some (j, e))")
      case True
      then obtain j e ev where j: "fetch i = Inr ev" "find_power_levels fetch (ev_auth_events ev) = Inr (Some (j, e))" by blast
      with find_power_levels_Some[OF j(2)] have "(j, i) \<in> auth_rel fetch" by (auto simp: auth_rel_def)
      from less[OF this] j show ?thesis by (subst populate_mainline.simps) simp
    next
      case False
      then show ?thesis
        by (subst populate_mainline.simps)
          (auto simp: and_then_def split: sum.splits option.splits)
    qed
  qed
  with Some show ?thesis by simp
qed simp

lemma mainline_position_ends:
  assumes "wf (auth_rel fetch)" "fetch i = Inr ev"
  shows "\<exists>r. mainline_position ev mm fetch = Some r"
  using assms
proof (induction i arbitrary: ev rule: wf_induct_rule)
  case (less i)
  show ?case
  proof (cases "\<exists>j e. find_power_levels fetch (ev_auth_events ev) = Inr (Some (j, e))")
    case True
    then obtain j e where j: "find_power_levels fetch (ev_auth_events ev) = Inr (Some (j, e))" by blast
    with find_power_levels_Some[OF j] less.prems have "(j, i) \<in> auth_rel fetch" "fetch j = Inr e"
      by (auto simp: auth_rel_def)
    from less.IH[OF this] j show ?thesis by (subst mainline_position.simps) (auto split: option.splits)
  next
    case False
    then show ?thesis
      by (subst mainline_position.simps) (auto split: sum.splits option.splits)
  qed
qed

section \<open>The order\<close>

text \<open>The sort key of an event for a given mainline, \<open>None\<close> when the event is skipped.\<close>

definition mainline_key :: "fetch_event \<Rightarrow> string list \<Rightarrow> string \<Rightarrow> order_key option" where
  "mainline_key fetch mainline i = Option.bind (order_entry (mainline_map_of mainline) fetch i) (\<lambda>k. k)"

lemma order_entry_ends: "wf (auth_rel fetch) \<Longrightarrow> order_entry mm fetch i \<noteq> None"
  using mainline_position_ends[of fetch i _ mm] by (fastforce simp: order_entry_def split: sum.splits option.splits)

lemma mainline_key_id: "mainline_key fetch ml i = Some k \<Longrightarrow> snd (snd k) = i"
  by (auto simp: mainline_key_def order_entry_def split: sum.splits option.splits)

lemma order_events_ends:
  assumes "wf (auth_rel fetch)"
  shows "\<exists>om'. order_events (mainline_map_of ml) fetch ids om = Some om'
    \<and> map_of om' = (\<lambda>i. if i \<in> set ids \<and> mainline_key fetch ml i \<noteq> None then mainline_key fetch ml i else map_of om i)
    \<and> (distinct (map fst om) \<longrightarrow> distinct (map fst om'))"
proof (induction ids arbitrary: om)
  case (Cons i ids)
  from order_entry_ends[OF assms, of "mainline_map_of ml" i] obtain k
    where k: "order_entry (mainline_map_of ml) fetch i = Some k" by blast
  then have mk: "mainline_key fetch ml i = k" by (simp add: mainline_key_def)
  show ?case
  proof (cases k)
    case None
    with Cons.IH[of om] k mk show ?thesis by (auto simp: fun_eq_iff)
  next
    case (Some key)
    moreover obtain a b c where "key = (a, b, c)" by (cases key)
    ultimately show ?thesis using Cons.IH[of "AList.update i key om"] k mk
      by (auto simp: fun_eq_iff update_conv' distinct_update)
  qed
qed simp

definition mainline_before :: "fetch_event \<Rightarrow> string list \<Rightarrow> string \<Rightarrow> string \<Rightarrow> bool" where
  "mainline_before fetch mainline a b \<longleftrightarrow> the (mainline_key fetch mainline a) < the (mainline_key fetch mainline b)"

lemma mainline_sort_result:
  assumes wf: "wf (auth_rel fetch)" and ml: "populate_mainline fetch [] pl = Some (Inr ml)"
  shows "\<exists>xs. mainline_sort fetch events pl = Some (Inr xs) \<and> distinct xs
    \<and> set xs = {i \<in> set events. mainline_key fetch ml i \<noteq> None} \<and> sorted_wrt (mainline_before fetch ml) xs"
proof -
  from order_events_ends[OF wf, of ml events "[]"] obtain om where
    om: "order_events (mainline_map_of ml) fetch events [] = Some om" "distinct (map fst om)"
      "map_of om = (\<lambda>i. if i \<in> set events \<and> mainline_key fetch ml i \<noteq> None then mainline_key fetch ml i else None)"
    by (auto cong: if_cong)
  define f where "f i = unwrap_or (None, None, i) (map_of om i)" for i
  let ?xs = "sort_key f (map fst om)" and ?K = "{i \<in> set events. mainline_key fetch ml i \<noteq> None}"
  have "fst ` set om = dom (map_of om)" by (simp add: dom_map_of_conv_image_fst)
  then have keys: "fst ` set om = ?K" unfolding om(3) by (auto simp: dom_def)
  have f: "f i = the (mainline_key fetch ml i)" if "i \<in> ?K" for i
    using that unfolding f_def om(3) by auto
  have inj: "inj_on f ?K"
    by (rule inj_onI) (metis (mono_tags, lifting) f mainline_key_id mem_Collect_eq option.collapse)
  have "sorted_wrt (<) (map f ?xs)"
    unfolding strict_sorted_iff using om(2) inj keys by (simp add: distinct_map)
  then have "sorted_wrt (\<lambda>a b. f a < f b) ?xs" by (simp add: sorted_wrt_map)
  then have "sorted_wrt (mainline_before fetch ml) ?xs"
    by (rule sorted_wrt_mono_rel[rotated]) (simp add: keys f mainline_before_def)
  moreover have "mainline_sort fetch events pl = Some (Inr ?xs)"
    using ml om by (auto simp: mainline_sort_def f_def[abs_def])
  ultimately show ?thesis using om(2) keys by (intro exI[of _ ?xs]) simp
qed

section \<open>Positions\<close>

text \<open>The chain of power levels events above an event: the event itself, the power levels event
  in its auth events, the one in the auth events of that, and so on.\<close>

fun pl_ancestor :: "fetch_event \<Rightarrow> pdu \<Rightarrow> nat \<Rightarrow> pdu option" where
  "pl_ancestor fetch ev 0 = Some ev"
| "pl_ancestor fetch ev (Suc j) =
     (case find_power_levels fetch (ev_auth_events ev) of
        Inr (Some (_, e)) \<Rightarrow> pl_ancestor fetch e j
      | _ \<Rightarrow> None)"

definition nearest :: "fetch_event \<Rightarrow> (string \<Rightarrow> nat option) \<Rightarrow> pdu \<Rightarrow> nat \<Rightarrow> bool" where
  "nearest fetch position ev n \<longleftrightarrow>
     (\<exists>j e. pl_ancestor fetch ev j = Some e \<and> position (ev_id e) = Some n
        \<and> (\<forall>j'<j. \<forall>e'. pl_ancestor fetch ev j' = Some e' \<longrightarrow> position (ev_id e') = None))"

lemma nearest_here: "position (ev_id ev) = Some m \<Longrightarrow> nearest fetch position ev n \<longleftrightarrow> n = m"
proof
  assume p: "position (ev_id ev) = Some m" and "nearest fetch position ev n"
  then obtain j e where j: "pl_ancestor fetch ev j = Some e" "position (ev_id e) = Some n"
    "\<forall>j'<j. \<forall>e'. pl_ancestor fetch ev j' = Some e' \<longrightarrow> position (ev_id e') = None"
    by (auto simp: nearest_def)
  with p show "n = m" by (cases j) auto
next
  assume "position (ev_id ev) = Some m" "n = m"
  then show "nearest fetch position ev n" unfolding nearest_def by (intro exI[of _ 0] exI[of _ ev]) simp
qed

lemma nearest_up:
  assumes "position (ev_id ev) = None"
  shows "nearest fetch position ev n \<longleftrightarrow>
    (\<exists>i e. find_power_levels fetch (ev_auth_events ev) = Inr (Some (i, e)) \<and> nearest fetch position e n)"
proof
  assume "nearest fetch position ev n"
  then obtain j e where j: "pl_ancestor fetch ev j = Some e" "position (ev_id e) = Some n"
    "\<forall>j'<j. \<forall>e'. pl_ancestor fetch ev j' = Some e' \<longrightarrow> position (ev_id e') = None"
    by (auto simp: nearest_def)
  from j(1,2) assms obtain k where k: "j = Suc k" by (cases j) auto
  with j(1) obtain i e1 where i: "find_power_levels fetch (ev_auth_events ev) = Inr (Some (i, e1))"
    "pl_ancestor fetch e1 k = Some e" by (auto split: sum.splits option.splits)
  have "position (ev_id e') = None" if "j' < k" "pl_ancestor fetch e1 j' = Some e'" for j' e'
    using j(3) that i(1) k by (auto dest: spec[of _ "Suc j'"])
  with i j(2) show "\<exists>i e. find_power_levels fetch (ev_auth_events ev) = Inr (Some (i, e)) \<and> nearest fetch position e n"
    by (auto simp: nearest_def)
next
  assume "\<exists>i e. find_power_levels fetch (ev_auth_events ev) = Inr (Some (i, e)) \<and> nearest fetch position e n"
  then obtain i e1 j e where i: "find_power_levels fetch (ev_auth_events ev) = Inr (Some (i, e1))"
    and j: "pl_ancestor fetch e1 j = Some e" "position (ev_id e) = Some n"
    "\<forall>j'<j. \<forall>e'. pl_ancestor fetch e1 j' = Some e' \<longrightarrow> position (ev_id e') = None"
    by (auto simp: nearest_def)
  have "position (ev_id e') = None" if "j' < Suc j" "pl_ancestor fetch ev j' = Some e'" for j' e'
    using that i j(3) assms by (cases j') auto
  with i j show "nearest fetch position ev n"
    unfolding nearest_def by (intro exI[of _ "Suc j"] exI[of _ e]) simp
qed

lemma mainline_position_nearest:
  assumes "wf (auth_rel fetch)" "fetch i = Inr ev"
  shows "mainline_position ev mm fetch = Some (Inr (Some n)) \<longleftrightarrow> nearest fetch (map_of mm) ev n"
  using assms
proof (induction i arbitrary: ev rule: wf_induct_rule)
  case (less i)
  show ?case
  proof (cases "map_of mm (ev_id ev)")
    case (Some m)
    with nearest_here[of "map_of mm" ev m fetch n] show ?thesis by (subst mainline_position.simps) auto
  next
    case None
    show ?thesis
    proof (cases "\<exists>j e. find_power_levels fetch (ev_auth_events ev) = Inr (Some (j, e))")
      case True
      then obtain j e where j: "find_power_levels fetch (ev_auth_events ev) = Inr (Some (j, e))" by blast
      with find_power_levels_Some[OF j] less.prems have "(j, i) \<in> auth_rel fetch" "fetch j = Inr e"
        by (auto simp: auth_rel_def)
      from less.IH[OF this] j None nearest_up[of "map_of mm" ev fetch n] show ?thesis
        by (subst mainline_position.simps) simp
    next
      case False
      with None nearest_up[of "map_of mm" ev fetch n] show ?thesis
        by (subst mainline_position.simps) (auto split: sum.splits option.splits)
    qed
  qed
qed

fun pl_chain :: "fetch_event \<Rightarrow> pdu \<Rightarrow> string list \<Rightarrow> bool" where
  "pl_chain fetch ev [] \<longleftrightarrow> find_power_levels fetch (ev_auth_events ev) = Inr None"
| "pl_chain fetch ev (i # is) \<longleftrightarrow>
     (\<exists>e. find_power_levels fetch (ev_auth_events ev) = Inr (Some (i, e)) \<and> pl_chain fetch e is)"

lemma populate_mainline_chain:
  assumes "wf (auth_rel fetch)" "fetch p = Inr P" "populate_mainline fetch acc (Some p) = Some (Inr ml)"
  shows "\<exists>up. ml = acc @ p # up \<and> pl_chain fetch P up"
  using assms
proof (induction p arbitrary: P acc rule: wf_induct_rule)
  case (less p)
  show ?case
  proof (cases "\<exists>j e. find_power_levels fetch (ev_auth_events P) = Inr (Some (j, e))")
    case True
    then obtain j e where j: "find_power_levels fetch (ev_auth_events P) = Inr (Some (j, e))" by blast
    with find_power_levels_Some[OF j] less.prems(1) have r: "(j, p) \<in> auth_rel fetch" "fetch j = Inr e"
      by (auto simp: auth_rel_def)
    from less.prems j have "populate_mainline fetch (acc @ [p]) (Some j) = Some (Inr ml)"
      by (subst (asm) populate_mainline.simps) simp
    from less.IH[OF r this] j show ?thesis by (auto intro: exI[of _ "j # _"])
  next
    case False
    with less.prems have "find_power_levels fetch (ev_auth_events P) = Inr None \<and> ml = acc @ [p]"
      by (subst (asm) populate_mainline.simps) (auto split: sum.splits)
    then show ?thesis by (intro exI[of _ "[]"]) simp
  qed
qed

lemma pl_chain_ancestor:
  "pl_chain fetch P up \<Longrightarrow> fetch p = Inr P \<Longrightarrow>
     pl_ancestor fetch P i = (if i < length (p # up) then ok_opt (fetch ((p # up) ! i)) else None)"
proof (induction up arbitrary: p P i)
  case Nil
  then show ?case by (cases i) auto
next
  case (Cons q up)
  then obtain e where e: "find_power_levels fetch (ev_auth_events P) = Inr (Some (q, e))" "pl_chain fetch e up" by auto
  with find_power_levels_Some[OF e(1)] Cons.IH[OF e(2)] Cons.prems show ?case by (cases i) auto
qed

lemma pl_chain_fetched: "pl_chain fetch P up \<Longrightarrow> x \<in> set up \<Longrightarrow> \<exists>e. fetch x = Inr e"
  by (induction up arbitrary: P) (auto dest: find_power_levels_Some)

lemma pl_chain_sorted:
  "pl_chain fetch P up \<Longrightarrow> fetch p = Inr P \<Longrightarrow> sorted_wrt (\<lambda>a b. (b, a) \<in> (auth_rel fetch)\<^sup>+) (p # up)"
proof (induction up arbitrary: p P)
  case (Cons q up)
  then obtain e where e: "find_power_levels fetch (ev_auth_events P) = Inr (Some (q, e))" "pl_chain fetch e up" by auto
  with find_power_levels_Some[OF e(1)] Cons.prems have r: "(q, p) \<in> auth_rel fetch" "fetch q = Inr e"
    by (auto simp: auth_rel_def)
  from Cons.IH[OF e(2) r(2)] r(1) show ?case by (auto intro: trancl_into_trancl)
qed simp

lemma mainline_map_of_distinct:
  assumes "distinct ml"
  shows "map_of (mainline_map_of ml) x = Some n \<longleftrightarrow> (\<exists>i<length ml. ml ! i = x \<and> n + i = length ml)"
proof -
  let ?m = "mainline_map_of ml" and ?ns = "rev [1..<Suc (length ml)]"
  have m: "?m = zip ml ?ns" unfolding mainline_map_of_def by (subst zip_rev[symmetric]) (simp_all del: upt_Suc)
  have at: "map_of ?m (ml ! i) = Some (length ml - i)" if "i < length ml" for i
    unfolding m using that assms by (subst map_of_zip_nth) (simp_all add: rev_nth del: upt_Suc)
  show ?thesis
  proof
    assume n: "map_of ?m x = Some n"
    then have "x \<in> set ml" unfolding m by (auto dest: map_of_SomeD set_zip_leftD)
    then obtain i where "i < length ml" "ml ! i = x" by (auto simp: in_set_conv_nth)
    with at[of i] n show "\<exists>i<length ml. ml ! i = x \<and> n + i = length ml" by auto
  qed (use at in force)
qed

lemma sorted_wrt_distinct: "sorted_wrt R xs \<Longrightarrow> (\<And>a. \<not> R a a) \<Longrightarrow> distinct xs"
  by (induction xs) auto

lemma pl_ancestor_fetched:
  "fetch x = Inr ev \<Longrightarrow> pl_ancestor fetch ev j = Some e \<Longrightarrow> \<exists>y. fetch y = Inr e"
  by (induction fetch ev j arbitrary: x rule: pl_ancestor.induct)
    (auto split: sum.splits option.splits dest!: find_power_levels_Some)

lemma mainline_position_of:
  assumes wf: "wf (auth_rel fetch)" and ids: "\<forall>i ev. fetch i = Inr ev \<longrightarrow> ev_id ev = i"
    and p: "fetch p = Inr P" "populate_mainline fetch [] (Some p) = Some (Inr ml)" and y: "fetch y = Inr e"
  shows "map_of (mainline_map_of ml) (ev_id e) = Some n \<longleftrightarrow> (\<exists>i. pl_ancestor fetch P i = Some e \<and> n + i = length ml)"
    and "pl_ancestor fetch P i = Some e \<Longrightarrow> i < length ml"
proof -
  from populate_mainline_chain[OF wf p] obtain up where ml: "ml = p # up" and ch: "pl_chain fetch P up" by auto
  note anc = pl_chain_ancestor[OF ch p(1)]
  have "asym ((auth_rel fetch)\<^sup>+)" using wf by (simp add: wf_imp_asym wf_trancl)
  then have irr: "(a, a) \<notin> (auth_rel fetch)\<^sup>+" for a by (auto dest: asymD)
  have "distinct ml"
    using pl_chain_sorted[OF ch p(1)] irr unfolding ml
    by (rule sorted_wrt_distinct)
  note m = mainline_map_of_distinct[OF this]
  have e: "fetch (ev_id e) = Inr e" using ids y by auto
  have len: "i < length ml \<and> ml ! i = ev_id e \<longleftrightarrow> pl_ancestor fetch P i = Some e" for i
  proof
    assume "i < length ml \<and> ml ! i = ev_id e"
    with anc[of i] e show "pl_ancestor fetch P i = Some e" unfolding ml by simp
  next
    assume "pl_ancestor fetch P i = Some e"
    with anc[of i] have "i < length ml \<and> fetch (ml ! i) = Inr e"
      unfolding ml by (auto simp: ok_opt_Some_iff dest: sym split: if_splits)
    with ids show "i < length ml \<and> ml ! i = ev_id e" by metis
  qed
  then show "map_of (mainline_map_of ml) (ev_id e) = Some n \<longleftrightarrow> (\<exists>i. pl_ancestor fetch P i = Some e \<and> n + i = length ml)"
    and "pl_ancestor fetch P i = Some e \<Longrightarrow> i < length ml" unfolding m by metis+
qed

section \<open>An example\<close>

definition ex_topic :: "string \<Rightarrow> string list \<Rightarrow> pdu" where
  "ex_topic i auths = (ex_event i ''@a:h'' ex_name_type (Some '''') (JObj []))\<lparr>ev_auth_events := auths\<rparr>"

definition ex_fetch :: fetch_event where
  "ex_fetch i =
     (if i = ''$create'' then Inr ex_create
      else if i = ''$@a:h'' then Inr (ex_member ''@a:h'' ''@a:h'' ''join'')
      else if i = ''$pl'' then Inr ex_levels
      else if i = ''$x'' then Inr (ex_topic i [''$create'', ''$@a:h'', ''$pl''])
      else if i = ''$y'' then Inr (ex_topic i [])
      else Inl (NotFound i))"

lemma ex_levels_simps [simp]:
  "ev_auth_events ex_levels = []" "ev_id ex_levels = ''$pl''" "is_type_and_key ex_levels PowerLevelsType ''''"
  "ev_auth_events (ex_topic i as) = as" "ev_id (ex_topic i as) = i" "ev_ts (ex_topic i as) = 1"
  "ev_auth_events (ex_member s u m) = []" "ev_id (ex_member s u m) = CHR ''$'' # u"
  "\<not> is_type_and_key (ex_member s u m) PowerLevelsType ''''" "\<not> is_type_and_key ex_create PowerLevelsType ''''"
  by (simp_all add: ex_levels_def ex_power_levels_def ex_topic_def is_type_and_key_def ex_event_def ex_member_def)

lemma ex_fetch_auth:
  "ex_fetch e = Inr ev \<Longrightarrow> ev_auth_events ev = (if e = ''$x'' then [''$create'', ''$@a:h'', ''$pl''] else [])"
  unfolding ex_fetch_def by (simp split: if_splits; hypsubst; simp)

lemma ex_fetch_id: "ex_fetch e = Inr ev \<Longrightarrow> ev_id ev = e"
  unfolding ex_fetch_def by (simp split: if_splits; hypsubst; simp)

lemma ex_fetch_wf: "wf (auth_rel ex_fetch)"
proof (rule wf_subset[OF wf_measure[of "\<lambda>x. if x = ''$x'' then 1 else 0"]], rule subrelI)
  fix a e assume "(a, e) \<in> auth_rel ex_fetch"
  then obtain ev where "ex_fetch e = Inr ev" and a: "a \<in> set (ev_auth_events ev)" by (auto simp: auth_rel_def)
  from this(1) have "ev_auth_events ev = (if e = ''$x'' then [''$create'', ''$@a:h'', ''$pl''] else [])" by (rule ex_fetch_auth)
  with a show "(a, e) \<in> measure (\<lambda>x. if x = ''$x'' then 1 else 0)" by (auto split: if_splits)
qed

lemma ex_mainline: "populate_mainline ex_fetch [] (Some ''$pl'') = Some (Inr [''$pl''])"
  by (subst populate_mainline.simps) (simp add: ex_fetch_def)

section \<open>Properties\<close>



text \<open>C6: The position of an event counts, from the oldest event of the mainline, the place of the
  first event on its own chain of power levels events that lies on the mainline; the
  mainline is the chain of the power levels event it starts from.\<close>

theorem mainline_position_correct:
  assumes "wf (auth_rel fetch)" "\<forall>i ev. fetch i = Inr ev \<longrightarrow> ev_id ev = i"
    and "fetch p = Inr P" "populate_mainline fetch [] (Some p) = Some (Inr ml)" "fetch x = Inr ev"
  shows "mainline_position ev (mainline_map_of ml) fetch = Some (Inr (Some n)) \<longleftrightarrow>
    (\<exists>i j e. pl_ancestor fetch P i = Some e \<and> pl_ancestor fetch ev j = Some e \<and> n + i = length ml
       \<and> (\<forall>j'<j. \<forall>e'. pl_ancestor fetch ev j' = Some e' \<longrightarrow> (\<forall>i'. pl_ancestor fetch P i' \<noteq> Some e')))"
proof -
  let ?pos = "map_of (mainline_map_of ml)"
  have at: "?pos (ev_id e) = Some n \<longleftrightarrow> (\<exists>i. pl_ancestor fetch P i = Some e \<and> n + i = length ml)"
    and no: "?pos (ev_id e) = None \<longleftrightarrow> (\<forall>i. pl_ancestor fetch P i \<noteq> Some e)"
    if "pl_ancestor fetch ev j = Some e" for e j n
  proof -
    from pl_ancestor_fetched[OF assms(5) that] obtain y where "fetch y = Inr e" ..
    note m = mainline_position_of[OF assms(1-4) this]
    show "?pos (ev_id e) = Some n \<longleftrightarrow> (\<exists>i. pl_ancestor fetch P i = Some e \<and> n + i = length ml)" by (rule m(1))
    have "(\<forall>n. ?pos (ev_id e) \<noteq> Some n) \<longleftrightarrow> (\<forall>i. pl_ancestor fetch P i \<noteq> Some e)"
      unfolding m(1) using m(2) by (metis add.commute le_add_diff_inverse less_imp_le)
    then show "?pos (ev_id e) = None \<longleftrightarrow> (\<forall>i. pl_ancestor fetch P i \<noteq> Some e)" by simp
  qed
  have "nearest fetch ?pos ev n \<longleftrightarrow> (\<exists>j e. pl_ancestor fetch ev j = Some e
      \<and> (\<exists>i. pl_ancestor fetch P i = Some e \<and> n + i = length ml)
      \<and> (\<forall>j'<j. \<forall>e'. pl_ancestor fetch ev j' = Some e' \<longrightarrow> (\<forall>i'. pl_ancestor fetch P i' \<noteq> Some e')))"
    unfolding nearest_def by (simp add: at no cong: conj_cong imp_cong)
  then show ?thesis unfolding mainline_position_nearest[OF assms(1,5)] by blast
qed

theorem mainline_position_correct_witness:
  "mainline_position (ex_topic ''$x'' [''$create'', ''$@a:h'', ''$pl'']) (mainline_map_of [''$pl'']) ex_fetch = Some (Inr (Some 1))"
proof -
  have f: "ex_fetch ''$pl'' = Inr ex_levels" "ex_fetch ''$x'' = Inr (ex_topic ''$x'' [''$create'', ''$@a:h'', ''$pl''])"
    "ex_fetch ''$create'' = Inr ex_create" "ex_fetch ''$@a:h'' = Inr (ex_member ''@a:h'' ''@a:h'' ''join'')"
    by (simp_all add: ex_fetch_def)
  have ids: "\<forall>i ev. ex_fetch i = Inr ev \<longrightarrow> ev_id ev = i" using ex_fetch_id by blast
  have "pl_ancestor ex_fetch ex_levels 0 = Some ex_levels" by simp
  moreover have "pl_ancestor ex_fetch (ex_topic ''$x'' [''$create'', ''$@a:h'', ''$pl'']) (Suc 0) = Some ex_levels" by (simp add: f)
  moreover have "ex_topic ''$x'' [''$create'', ''$@a:h'', ''$pl''] \<noteq> pl" if "pl_ancestor ex_fetch ex_levels i = Some pl" for pl i
    using that by (cases i) (auto dest: arg_cong[where f = ev_id])
  ultimately show ?thesis
    unfolding mainline_position_correct[OF ex_fetch_wf ids f(1) ex_mainline f(2)]
    by (intro exI[of _ 0] exI[of _ "Suc 0"] exI[of _ ex_levels] conjI) auto
qed

end
