(* ===== verification/Conflicts.thy ===== *)
theory Conflicts
  imports BTree_Map
begin

text \<open>
  Splitting the states to resolve and the auth difference (\<open>split_conflicted_state_set\<close> and
  \<open>auth_difference\<close> of \<open>core/src/state.rs\<close>).  Both count in how many states, or auth chains,
  an entry occurs.  A hash map is the sorted list of its entries; where the code iterates over one,
  nothing that follows depends on the order.
\<close>

type_synonym state_key = "string \<times> string"
type_synonym 'a state_map = "(state_key, 'a) btree"

section \<open>Counting\<close>

definition bump :: "'k::linorder \<Rightarrow> ('k, nat) btree \<Rightarrow> ('k, nat) btree" where
  "bump k m = bt_insert k (unwrap_or 0 (bt_get m k) + 1) m"

definition count_occurrence ::
  "'k::linorder \<times> 'i::linorder \<Rightarrow> ('k, ('i, nat) btree) btree \<Rightarrow> ('k, ('i, nat) btree) btree" where
  "count_occurrence e occ = bt_insert (fst e) (bump (snd e) (unwrap_or [] (bt_get occ (fst e)))) occ"

section \<open>Conflicts\<close>

definition classify ::
  "nat \<Rightarrow> 'k::linorder \<times> 'i \<times> nat \<Rightarrow> ('k, 'i) btree \<times> ('k, 'i list) btree
    \<Rightarrow> ('k, 'i) btree \<times> ('k, 'i list) btree" where
  "classify n e acc =
     (case e of (k, i, occurrence_count) \<Rightarrow>
        if occurrence_count = n then (bt_insert k i (fst acc), snd acc)
        else (fst acc, bt_insert k (unwrap_or [] (bt_get (snd acc) k) @ [i]) (snd acc)))"

definition occurrences_list :: "('k, ('i, nat) btree) btree \<Rightarrow> ('k \<times> 'i \<times> nat) list" where
  "occurrences_list occ = concat (map (\<lambda>(k, vs). map (\<lambda>(i, c). (k, i, c)) vs) occ)"

definition split_conflicted_state_set ::
  "('k::linorder, 'i::linorder) btree list \<Rightarrow> ('k, 'i) btree \<times> ('k, 'i list) btree" where
  "split_conflicted_state_set state_maps =
     fold (classify (length state_maps)) (occurrences_list (fold count_occurrence (concat state_maps) [])) ([], [])"

definition auth_difference :: "'i::linorder list list \<Rightarrow> 'i list" where
  "auth_difference auth_chains =
     map fst (filter (\<lambda>e. snd e < length auth_chains) (fold bump (concat auth_chains) []))"

section \<open>Facts about counting\<close>

lemma fold_bump:
  "bt_inv m \<Longrightarrow> bt_inv (fold bump xs m) \<and>
     bt_get (fold bump xs m) k =
       (if k \<in> set xs then Some (unwrap_or 0 (bt_get m k) + count_list xs k) else bt_get m k)"
proof (induction xs arbitrary: m)
  case (Cons x xs)
  then have "bt_inv (bump x m)" by (simp add: bump_def bt_inv_insert)
  from Cons.IH[OF this] Cons.prems show ?case
    by (auto simp: bump_def bt_get_insert)
qed simp

definition occ_inv :: "('k::linorder, ('i::linorder, nat) btree) btree \<Rightarrow> bool" where
  "occ_inv occ \<longleftrightarrow> bt_inv occ \<and> (\<forall>k vs. bt_get occ k = Some vs \<longrightarrow> bt_inv vs)"

definition occ_get :: "('k, ('i, nat) btree) btree \<Rightarrow> 'k \<Rightarrow> 'i \<Rightarrow> nat option" where
  "occ_get occ k i = bt_get (unwrap_or [] (bt_get occ k)) i"

lemma count_occurrence_inv: "occ_inv occ \<Longrightarrow> occ_inv (count_occurrence e occ)"
  by (cases "bt_get occ (fst e)")
    (auto simp: occ_inv_def count_occurrence_def bt_inv_insert bt_get_insert bump_def bt_inv_Cons split: if_splits)

lemma fold_count_occurrence:
  "occ_inv occ \<Longrightarrow> occ_inv (fold count_occurrence es occ) \<and>
     occ_get (fold count_occurrence es occ) k i =
       (if (k, i) \<in> set es then Some (unwrap_or 0 (occ_get occ k i) + count_list es (k, i)) else occ_get occ k i)"
proof (induction es arbitrary: occ)
  case (Cons e es)
  have "bt_inv (unwrap_or [] (bt_get occ (fst e)))"
    using Cons.prems by (cases "bt_get occ (fst e)") (auto simp: occ_inv_def)
  then have step: "occ_get (count_occurrence e occ) k i =
      (if e = (k, i) then Some (unwrap_or 0 (occ_get occ k i) + 1) else occ_get occ k i)"
    using Cons.prems by (cases e) (auto simp: occ_inv_def occ_get_def count_occurrence_def bump_def bt_get_insert)
  from Cons.IH[OF count_occurrence_inv[OF Cons.prems]] show ?case by (auto simp: step)
qed simp

lemma occurrences_list_set:
  assumes "occ_inv occ"
  shows "(k, i, c) \<in> set (occurrences_list occ) \<longleftrightarrow> occ_get occ k i = Some c"
proof -
  have vs: "bt_inv vs" if "(k, vs) \<in> set occ" for k vs
    using assms that bt_inv_distinct[of occ] by (auto simp: occ_inv_def)
  have "(k, i, c) \<in> set (occurrences_list occ) \<longleftrightarrow> (\<exists>vs. (k, vs) \<in> set occ \<and> (i, c) \<in> set vs)"
    by (auto simp: occurrences_list_def)
  also have "\<dots> \<longleftrightarrow> (\<exists>vs. bt_get occ k = Some vs \<and> bt_get vs i = Some c)"
    using vs assms bt_inv_distinct by (metis map_of_eq_Some_iff occ_inv_def)
  finally show ?thesis by (cases "bt_get occ k") (auto simp: occ_get_def)
qed

lemma fold_classify:
  assumes "bt_inv (fst acc)" "bt_inv (snd acc)"
    and "\<forall>k i j. (k, i, n) \<in> set es \<and> (k, j, n) \<in> set es \<longrightarrow> i = j"
  shows "bt_inv (fst (fold (classify n) es acc)) \<and> bt_inv (snd (fold (classify n) es acc))
    \<and> (\<forall>k v. bt_get (fst (fold (classify n) es acc)) k = Some v \<longleftrightarrow>
         (k, v, n) \<in> set es \<or> (\<forall>i. (k, i, n) \<notin> set es) \<and> bt_get (fst acc) k = Some v)
    \<and> (\<forall>k. set (unwrap_or [] (bt_get (snd (fold (classify n) es acc)) k)) =
         set (unwrap_or [] (bt_get (snd acc) k)) \<union> {i. \<exists>c. (k, i, c) \<in> set es \<and> c \<noteq> n})
    \<and> (\<forall>k. bt_get (snd (fold (classify n) es acc)) k = Some [] \<longrightarrow> bt_get (snd acc) k = Some [])"
  using assms
proof (induction es arbitrary: acc)
  case (Cons e es)
  obtain k i c where e: "e = (k, i, c)" by (cases e)
  have inv: "bt_inv (fst (classify n e acc))" "bt_inv (snd (classify n e acc))"
    using Cons.prems(1,2) by (auto simp: classify_def e bt_inv_insert)
  have uniq: "\<forall>k i j. (k, i, n) \<in> set es \<and> (k, j, n) \<in> set es \<longrightarrow> i = j"
    using Cons.prems(3) by (meson list.set_intros(2))
  note IH = Cons.IH[OF inv uniq]
  show ?case
  proof (cases "c = n")
    case True
    then have st: "classify n e acc = (bt_insert k i (fst acc), snd acc)" by (simp add: classify_def e)
    have one: "i = j" if "(k, j, n) \<in> set es" for j using Cons.prems(3) that True by (auto simp: e)
    show ?thesis
      using IH[unfolded st fst_conv snd_conv] True one
      by (simp add: st bt_get_insert Cons.prems(1)) (auto simp: e)
  next
    case False
    then have st: "classify n e acc = (fst acc, bt_insert k (unwrap_or [] (bt_get (snd acc) k) @ [i]) (snd acc))"
      by (simp add: classify_def e)
    show ?thesis
      using IH[unfolded st fst_conv snd_conv] False
      by (simp add: st bt_get_insert Cons.prems(2)) (auto simp: e split: if_splits)
  qed
qed simp

section \<open>Counting in maps and sets\<close>

lemma count_list_distinct: "distinct xs \<Longrightarrow> count_list xs x = (if x \<in> set xs then 1 else 0)"
  by (induction xs) auto

lemma count_list_btree: "bt_inv m \<Longrightarrow> count_list m (k, v) = (if bt_get m k = Some v then 1 else 0)"
  using bt_inv_distinct[of m] by (simp add: count_list_distinct distinct_map)

lemma count_list_append: "count_list (xs @ ys) x = count_list xs x + count_list ys x"
  by (induction xs) auto

lemma count_list_filter:
  assumes "\<And>m. m \<in> set ms \<Longrightarrow> count_list m x = (if P m then 1 else 0)"
  shows "count_list (concat ms) x = length (filter P ms)"
  using assms by (induction ms) (auto simp: count_list_append)

lemma length_filter_all: "length (filter P ms) = length ms \<longleftrightarrow> (\<forall>m\<in>set ms. P m)"
proof (induction ms)
  case (Cons m ms)
  show ?case
  proof (cases "P m")
    case False
    have "length (filter P ms) \<noteq> Suc (length ms)"
      by (rule less_imp_neq[OF le_imp_less_Suc[OF length_filter_le]])
    with False show ?thesis by simp
  qed (use Cons in simp)
qed simp

lemma occurrences_count:
  assumes "\<forall>m\<in>set ms. bt_inv m"
  shows "(k, i, c) \<in> set (occurrences_list (fold count_occurrence (concat ms) [])) \<longleftrightarrow>
    (\<exists>m\<in>set ms. bt_get m k = Some i) \<and> c = length (filter (\<lambda>m. bt_get m k = Some i) ms)"
proof -
  have e: "occ_inv []" by (simp add: occ_inv_def)
  note f = fold_count_occurrence[OF e, of "concat ms"]
  have "(k, i) \<in> set (concat ms) \<longleftrightarrow> (\<exists>m\<in>set ms. bt_get m k = Some i)"
    using assms bt_inv_set[of _ k i] by auto
  moreover have "count_list (concat ms) (k, i) = length (filter (\<lambda>m. bt_get m k = Some i) ms)"
    by (rule count_list_filter) (simp add: assms count_list_btree)
  ultimately show ?thesis
    using occurrences_list_set[OF conjunct1[OF f], of k i c] f
    by (simp add: occ_get_def) (auto split: if_splits)
qed

lemma split_conflicted:
  assumes "\<forall>m\<in>set ms. bt_inv m" "split_conflicted_state_set ms = (un, con)"
  shows "(bt_get un k = Some v \<longleftrightarrow> ms \<noteq> [] \<and> (\<forall>m\<in>set ms. bt_get m k = Some v))
    \<and> set (unwrap_or [] (bt_get con k)) =
        {i. (\<exists>m\<in>set ms. bt_get m k = Some i) \<and> (\<exists>m\<in>set ms. bt_get m k \<noteq> Some i)}
    \<and> bt_get con k \<noteq> Some [] \<and> bt_inv un \<and> bt_inv con"
proof -
  let ?es = "occurrences_list (fold count_occurrence (concat ms) [])"
  note oc = occurrences_count[OF assms(1)]
  have all: "(k, i, length ms) \<in> set ?es \<longleftrightarrow> ms \<noteq> [] \<and> (\<forall>m\<in>set ms. bt_get m k = Some i)" for k i
    unfolding oc using length_filter_all[of "\<lambda>m. bt_get m k = Some i" ms]
    by (metis all_not_in_conv list.set_sel(1) empty_iff empty_set)
  have uniq: "\<forall>k i j. (k, i, length ms) \<in> set ?es \<and> (k, j, length ms) \<in> set ?es \<longrightarrow> i = j"
    unfolding all by (metis last_in_set option.inject)
  have some: "(\<exists>c. (k, i, c) \<in> set ?es \<and> c \<noteq> length ms) \<longleftrightarrow>
      (\<exists>m\<in>set ms. bt_get m k = Some i) \<and> (\<exists>m\<in>set ms. bt_get m k \<noteq> Some i)" for k i
    unfolding oc using length_filter_all[of "\<lambda>m. bt_get m k = Some i" ms] by metis
  have s: "(un, con) = fold (classify (length ms)) ?es ([], [])"
    using assms(2) by (simp add: split_conflicted_state_set_def)
  have "bt_inv (fst (([], []) :: ('a, 'b) btree \<times> ('a, 'b list) btree))"
    "bt_inv (snd (([], []) :: ('a, 'b) btree \<times> ('a, 'b list) btree))" by simp_all
  from fold_classify[OF this uniq, folded s] show ?thesis by (simp add: all some)
qed

lemma auth_difference_set:
  assumes "\<forall>c\<in>set cs. distinct c"
  shows "set (auth_difference cs) = (\<Union>c\<in>set cs. set c) - (\<Inter>c\<in>set cs. set c)
    \<and> distinct (auth_difference cs)"
proof -
  note f = fold_bump[OF bt_inv_Nil, of "concat cs"]
  let ?m = "fold bump (concat cs) []"
  from f have inv: "bt_inv ?m" by blast
  have g: "bt_get ?m i = (if i \<in> (\<Union>c\<in>set cs. set c)
      then Some (length (filter (\<lambda>c. i \<in> set c) cs)) else None)" for i
    using f[of i] count_list_filter[of cs i "\<lambda>c. i \<in> set c"] assms by (simp add: count_list_distinct)
  have "i \<in> set (auth_difference cs) \<longleftrightarrow>
      i \<in> (\<Union>c\<in>set cs. set c) \<and> length (filter (\<lambda>c. i \<in> set c) cs) < length cs" for i
  proof -
    have "i \<in> set (auth_difference cs) \<longleftrightarrow> (\<exists>n. (i, n) \<in> set ?m \<and> n < length cs)"
      by (force simp: auth_difference_def)
    also have "\<dots> \<longleftrightarrow> (\<exists>n. bt_get ?m i = Some n \<and> n < length cs)"
      by (simp only: bt_inv_set[OF inv])
    finally show ?thesis by (auto simp: g)
  qed
  moreover have "length (filter (\<lambda>c. i \<in> set c) cs) < length cs \<longleftrightarrow> \<not> (\<forall>c\<in>set cs. i \<in> set c)" for i
    using length_filter_all[of "\<lambda>c. i \<in> set c" cs] length_filter_le[of "\<lambda>c. i \<in> set c" cs]
    by linarith
  ultimately have "set (auth_difference cs) = (\<Union>c\<in>set cs. set c) - (\<Inter>c\<in>set cs. set c)" by auto
  moreover have "distinct (auth_difference cs)"
    using bt_inv_distinct[OF inv] by (simp add: auth_difference_def distinct_map_filter)
  ultimately show ?thesis by simp
qed

section \<open>Properties\<close>



text \<open>The auth difference holds exactly the events that occur in some auth chain but not in all
  of them, each once.\<close>

theorem auth_difference_correct:
  assumes "\<forall>c\<in>set cs. distinct c"
  shows "set (auth_difference cs) = (\<Union>c\<in>set cs. set c) - (\<Inter>c\<in>set cs. set c)
    \<and> distinct (auth_difference cs)"
  by (rule auth_difference_set[OF assms])

theorem auth_difference_correct_witness:
  "set (auth_difference [[''a'', ''b''], [''b'', ''c'']]) = {''a'', ''c''}"
  using auth_difference_correct[of "[[''a'', ''b''], [''b'', ''c'']]"] by auto

end
