(* ===== verification/State_Res.thy ===== *)
theory State_Res
  imports Event_Auth Mainline Conflicts
begin

text \<open>
  State resolution (\<open>resolve\<close> and \<open>iterative_auth_check\<close> of \<open>core/src/state.rs\<close>).  A state
  map that is only read and updated by key is a function.  The order in which hash sets and maps are
  iterated is the argument \<open>iter\<close>; the caller's function that computes the conflicted state
  subgraph is an argument too.  The value \<open>None\<close> of a run stands for one that does not end.
\<close>

section \<open>Iterative auth checks\<close>

type_synonym auth_map = "state_key \<rightharpoonup> pdu"

text \<open>An error that is only logged; a panic still ends the run.\<close>

definition or_else_keep :: "'s \<Rightarrow> state_error + 'a \<Rightarrow> ('a \<Rightarrow> state_error + 's) \<Rightarrow> state_error + 's" where
  "or_else_keep s r f =
     (case r of Inr x \<Rightarrow> f x | Inl e \<Rightarrow> if e = StatePanic then Inl StatePanic else Inr s)"

definition add_own_auth_event :: "fetch_event \<Rightarrow> auth_map \<Rightarrow> string \<Rightarrow> state_error + auth_map" where
  "add_own_auth_event fetch auth_events i =
     (case fetch i of
        Inl _ \<Rightarrow> Inr auth_events
      | Inr auth_event \<Rightarrow>
          if ev_rejected auth_event then Inr auth_events
          else map_ok (\<lambda>key. auth_events((ev_type auth_event, key) \<mapsto> auth_event))
                 (ok_or MissingStateKey (ev_state_key auth_event)))"

definition add_create_event :: "authorization_rules \<Rightarrow> fetch_event \<Rightarrow> pdu \<Rightarrow> auth_map \<Rightarrow> state_error + auth_map" where
  "add_create_event rules fetch ev auth_events =
     (if room_create_event_id_as_room_id rules \<and> ev_type ev \<noteq> CreateType
      then and_then (create_event_id_ok (ev_room_id ev)) (\<lambda>id.
           case id of
             None \<Rightarrow> Inr auth_events
           | Some i \<Rightarrow> map_ok (\<lambda>create. auth_events((CreateType, '''') \<mapsto> create)) (fetch i))
      else Inr auth_events)"

definition add_state_auth_event ::
  "fetch_event \<Rightarrow> (state_key \<rightharpoonup> string) \<Rightarrow> state_key \<Rightarrow> auth_map \<Rightarrow> auth_map" where
  "add_state_auth_event fetch state key auth_events =
     (case state key of
        None \<Rightarrow> auth_events
      | Some i \<Rightarrow>
          (case fetch i of
             Inl _ \<Rightarrow> auth_events
           | Inr auth_event \<Rightarrow> if ev_rejected auth_event then auth_events else auth_events(key \<mapsto> auth_event)))"

definition fetch_from :: "auth_map \<Rightarrow> fetch_state" where
  "fetch_from auth_events t key = ok_or OtherState (auth_events (t, key))"

definition iterative_auth_step ::
  "env \<Rightarrow> authorization_rules \<Rightarrow> fetch_event \<Rightarrow> (state_key \<rightharpoonup> string) \<Rightarrow> string
    \<Rightarrow> state_error + (state_key \<rightharpoonup> string)" where
  "iterative_auth_step E rules fetch state i =
     and_then (fetch i) (\<lambda>ev.
     and_then (ok_or MissingStateKey (ev_state_key ev)) (\<lambda>key.
     and_then (fold_result (add_own_auth_event fetch) Map.empty (ev_auth_events ev)) (\<lambda>own.
     and_then (add_create_event rules fetch ev own) (\<lambda>own.
     or_else_keep state (auth_types_for_event (ev_type ev) (ev_sender ev) (Some key) (ev_content ev) rules) (\<lambda>types.
     or_else_keep state
       (check_state_dependent_auth_rules E rules ev (fetch_from (fold (add_state_auth_event fetch state) types own)))
       (\<lambda>_. Inr (state((ev_type ev, key) \<mapsto> i))))))))"

definition iterative_auth_check ::
  "env \<Rightarrow> authorization_rules \<Rightarrow> fetch_event \<Rightarrow> string list \<Rightarrow> (state_key \<rightharpoonup> string)
    \<Rightarrow> state_error + (state_key \<rightharpoonup> string)" where
  "iterative_auth_check E rules fetch events state = fold_result (iterative_auth_step E rules fetch) state events"

section \<open>Resolution\<close>

definition and_run :: "'e + 'a \<Rightarrow> ('a \<Rightarrow> ('e + 'b) option) \<Rightarrow> ('e + 'b) option" where
  "and_run r f = (case r of Inl e \<Rightarrow> Some (Inl e) | Inr x \<Rightarrow> f x)"

definition conflicted_state_subgraph ::
  "state_resolution_v2_rules \<Rightarrow> ('k \<Rightarrow> string list option) \<Rightarrow> 'k \<Rightarrow> state_error + string list" where
  "conflicted_state_subgraph res_rules fetch_subgraph conflicted =
     (if consider_conflicted_state_subgraph res_rules
      then ok_or FetchConflictedStateSubgraphFailed (fetch_subgraph conflicted) else Inr [])"

definition full_conflicted_set ::
  "(string list \<Rightarrow> string list) \<Rightarrow> fetch_event \<Rightarrow> string list list \<Rightarrow> ('k, string list) btree \<Rightarrow> string list
    \<Rightarrow> string list" where
  "full_conflicted_set iter fetch auth_chains conflicted subgraph =
     iter (remdups (filter (\<lambda>i. is_ok (fetch i))
       (auth_difference auth_chains @ concat (map snd conflicted) @ subgraph)))"

definition resolve ::
  "env \<Rightarrow> (string list \<Rightarrow> string list) \<Rightarrow> authorization_rules \<Rightarrow> state_resolution_v2_rules
    \<Rightarrow> string state_map list \<Rightarrow> string list list \<Rightarrow> fetch_event \<Rightarrow> (string list state_map \<Rightarrow> string list option)
    \<Rightarrow> (state_error + (state_key \<rightharpoonup> string)) option" where
  "resolve E iter auth_rules state_res_rules state_maps auth_chains fetch fetch_subgraph =
     (let (unconflicted, conflicted) = split_conflicted_state_set state_maps in
      if conflicted = [] then Some (Inr (bt_get unconflicted)) else
      and_run (conflicted_state_subgraph state_res_rules fetch_subgraph conflicted) (\<lambda>subgraph.
      let full = full_conflicted_set iter fetch auth_chains conflicted subgraph in
      and_run (sort_power_events E iter (filter (is_power_event_id fetch) full) full auth_rules fetch) (\<lambda>sorted_power.
      and_run (iterative_auth_check E auth_rules fetch sorted_power
        (if begin_iterative_auth_check_with_empty_state_map state_res_rules then Map.empty else bt_get unconflicted))
        (\<lambda>partially.
      Option.bind
        (mainline_sort fetch (filter (\<lambda>i. i \<notin> set sorted_power) full) (partially (PowerLevelsType, '''')))
        (\<lambda>sorted. and_run sorted (\<lambda>sorted_remaining.
      and_run (iterative_auth_check E auth_rules fetch sorted_remaining partially) (\<lambda>resolved.
      Some (Inr (resolved ++ bt_get unconflicted)))))))))"

section \<open>Loops that only add authorised entries\<close>

text \<open>A step that leaves the state as it is or sets one entry to the event it looks at, which then
  satisfies \<open>good\<close>.\<close>

locale authorised_steps =
  fixes step :: "('k \<rightharpoonup> 'i) \<Rightarrow> 'i \<Rightarrow> 'e + ('k \<rightharpoonup> 'i)" and good :: "'k \<Rightarrow> 'i \<Rightarrow> bool"
  assumes step_adds: "step s i = Inr s' \<Longrightarrow> s' = s \<or> (\<exists>k. good k i \<and> s' = s(k \<mapsto> i))"
begin

lemma fold_entries:
  "fold_result step s is = Inr s' \<Longrightarrow> s' k = s k \<or> (\<exists>i\<in>set is. s' k = Some i \<and> good k i)"
proof (induction "is" arbitrary: s)
  case (Cons i "is")
  then obtain s1 where s1: "step s i = Inr s1" "fold_result step s1 is = Inr s'" by (auto simp: res_simps)
  from Cons.IH[OF s1(2)] step_adds[OF s1(1)] show ?case by (auto split: if_splits)
qed simp

end

text \<open>An event is authorised for a key when it has that type and state key and passes the
  state-dependent rules on some auth events that could be fetched and are not rejected; only the
  create event that the room identifier names is not asked whether it was rejected.\<close>

definition usable :: "authorization_rules \<Rightarrow> fetch_event \<Rightarrow> auth_map \<Rightarrow> bool" where
  "usable rules fetch auth \<longleftrightarrow>
     (\<forall>key e. auth key = Some e \<longrightarrow> (\<exists>j. fetch j = Inr e)
        \<and> (\<not> ev_rejected e \<or> room_create_event_id_as_room_id rules \<and> key = (CreateType, '''')))"

definition authorised :: "env \<Rightarrow> authorization_rules \<Rightarrow> fetch_event \<Rightarrow> state_key \<Rightarrow> string \<Rightarrow> bool" where
  "authorised E rules fetch key i \<longleftrightarrow>
     (\<exists>ev auth. fetch i = Inr ev \<and> ev_type ev = fst key \<and> ev_state_key ev = Some (snd key)
        \<and> usable rules fetch auth \<and> check_state_dependent_auth_rules E rules ev (fetch_from auth) = Inr ())"

lemma usable_empty [simp]: "usable rules fetch Map.empty"
  by (simp add: usable_def)

lemma usable_upd:
  "usable rules fetch auth \<Longrightarrow> fetch j = Inr e \<Longrightarrow>
     \<not> ev_rejected e \<or> room_create_event_id_as_room_id rules \<and> key = (CreateType, '''') \<Longrightarrow>
     usable rules fetch (auth(key \<mapsto> e))"
  unfolding usable_def by (metis fun_upd_apply option.inject)

lemma usable_own:
  "fold_result (add_own_auth_event fetch) auth is = Inr auth' \<Longrightarrow> usable rules fetch auth \<Longrightarrow> usable rules fetch auth'"
proof (induction "is" arbitrary: auth)
  case (Cons i "is")
  then obtain a where a: "add_own_auth_event fetch auth i = Inr a" "fold_result (add_own_auth_event fetch) a is = Inr auth'"
    by (auto simp: res_simps)
  from a(1) Cons.prems(2) have "usable rules fetch a"
    by (auto simp: add_own_auth_event_def res_simps intro!: usable_upd split: sum.splits if_splits)
  from Cons.IH[OF a(2) this] show ?case .
qed simp

lemma usable_create:
  "add_create_event rules fetch ev auth = Inr auth' \<Longrightarrow> usable rules fetch auth \<Longrightarrow> usable rules fetch auth'"
  by (auto simp: add_create_event_def res_simps intro!: usable_upd split: if_splits option.splits)

lemma usable_state:
  "usable rules fetch auth \<Longrightarrow> usable rules fetch (fold (add_state_auth_event fetch state) keys auth)"
proof (induction keys arbitrary: auth)
  case (Cons k keys)
  then have "usable rules fetch (add_state_auth_event fetch state k auth)"
    by (auto simp: add_state_auth_event_def intro!: usable_upd split: sum.splits option.splits)
  from Cons.IH[OF this] show ?case by simp
qed simp

lemma or_else_keep_Inr:
  "or_else_keep s r f = Inr s' \<longleftrightarrow> (\<exists>x. r = Inr x \<and> f x = Inr s') \<or> (\<exists>e. r = Inl e \<and> e \<noteq> StatePanic \<and> s' = s)"
  by (auto simp: or_else_keep_def split: sum.splits)

lemma iterative_step_adds:
  assumes "iterative_auth_step E rules fetch s i = Inr s'"
  shows "s' = s \<or> (\<exists>k. authorised E rules fetch k i \<and> s' = s(k \<mapsto> i))"
proof (cases "s' = s")
  case False
  with assms obtain ev key own auth types where ev: "fetch i = Inr ev" "ev_state_key ev = Some key"
    "fold_result (add_own_auth_event fetch) Map.empty (ev_auth_events ev) = Inr own"
    "add_create_event rules fetch ev own = Inr auth"
    "check_state_dependent_auth_rules E rules ev (fetch_from (fold (add_state_auth_event fetch s) types auth)) = Inr ()"
    "s' = s((ev_type ev, key) \<mapsto> i)"
    unfolding iterative_auth_step_def by (auto simp: res_simps or_else_keep_Inr)
  from usable_state[OF usable_create[OF ev(4) usable_own[OF ev(3) usable_empty]]]
  have "authorised E rules fetch (ev_type ev, key) i"
    unfolding authorised_def by (intro exI[of _ ev] exI conjI) (use ev in auto)
  with ev(6) show ?thesis by blast
qed simp

interpretation it: authorised_steps "iterative_auth_step E rules fetch" "authorised E rules fetch" for E rules fetch
  by unfold_locales (rule iterative_step_adds)

section \<open>The phases of a run\<close>

lemma and_run_Some_Inr: "and_run r f = Some (Inr y) \<longleftrightarrow> (\<exists>x. r = Inr x \<and> f x = Some (Inr y))"
  by (auto simp: and_run_def split: sum.splits)

lemma and_run_ends: "(\<And>x. r = Inr x \<Longrightarrow> \<exists>y. f x = Some y) \<Longrightarrow> \<exists>y. and_run r f = Some y"
  by (auto simp: and_run_def split: sum.splits)

lemma and_run_cong: "r = r' \<Longrightarrow> (\<And>x. r' = Inr x \<Longrightarrow> f x = f' x) \<Longrightarrow> and_run r f = and_run r' f'"
  by (auto simp: and_run_def split: sum.splits)

lemma mainline_sort_ends: "wf (auth_rel fetch) \<Longrightarrow> \<exists>r. mainline_sort fetch events pl = Some r"
proof -
  assume wf: "wf (auth_rel fetch)"
  from populate_mainline_ends[OF wf] obtain r where r: "populate_mainline fetch [] pl = Some r" by blast
  show ?thesis
  proof (cases r)
    case (Inl e)
    with r show ?thesis by (simp add: mainline_sort_def)
  next
    case (Inr ml)
    with mainline_sort_result[OF wf, of pl ml events] r show ?thesis by blast
  qed
qed

lemma mainline_bind_ends:
  "wf (auth_rel fetch) \<Longrightarrow> (\<And>x. \<exists>r. f x = Some r) \<Longrightarrow>
     \<exists>r. Option.bind (mainline_sort fetch events pl) (\<lambda>sorted. and_run sorted f) = Some r"
  using mainline_sort_ends[of fetch events pl] by (auto intro!: and_run_ends)

lemma mainline_sort_subset:
  assumes "wf (auth_rel fetch)" "mainline_sort fetch events pl = Some (Inr xs)"
  shows "set xs \<subseteq> set events"
proof (cases "events = []")
  case False
  with assms(2) obtain ml where ml: "populate_mainline fetch [] pl = Some (Inr ml)"
    by (auto simp: mainline_sort_def split: option.splits sum.splits)
  from mainline_sort_result[OF assms(1) ml, of events] assms(2) show ?thesis by auto
qed (use assms in \<open>simp add: mainline_sort_def\<close>)

definition permuting :: "(string list \<Rightarrow> string list) \<Rightarrow> bool" where
  "permuting iter \<longleftrightarrow> (\<forall>xs. set (iter xs) = set xs)"

lemma full_conflicted_set_set:
  assumes "permuting iter"
  shows "set (full_conflicted_set iter fetch acs con sub) =
    {i. is_ok (fetch i) \<and> (i \<in> set (auth_difference acs) \<or> (\<exists>is\<in>snd ` set con. i \<in> set is) \<or> i \<in> set sub)}"
  using assms by (auto simp: full_conflicted_set_def permuting_def)

lemma sort_power_events_subset:
  assumes "sort_power_events E iter events fcs rules fetch = Inr xs" "set events \<subseteq> set fcs"
  shows "set xs \<subseteq> set fcs"
proof -
  let ?g = "power_events_graph fetch fcs events"
  note G = power_events_graph_inv[where fetch = fetch and fcs = fcs and events = events]
  from assms(1) obtain d where d: "reverse_topological_power_sort ?g d = Inr xs"
    by (auto simp: sort_power_events_def Let_def res_simps)
  from greedy_distinct[OF conjunct1[OF sort_greedy[OF G(1) d]]]
  have "set xs \<subseteq> chain_from fetch fcs (set events)" unfolding G(2) by blast
  also have "\<dots> \<subseteq> set fcs" by (rule chain_from_least[OF assms(2)]) (auto simp: auth_in_def)
  finally show ?thesis .
qed

text \<open>What a successful run on conflicting states went through.\<close>

lemma resolve_phases:
  assumes "resolve E iter rules res_rules maps acs fetch fetch_subgraph = Some (Inr m)"
    and "split_conflicted_state_set maps = (un, con)" "con \<noteq> []"
  obtains sub sp partial rest resolved where
    "conflicted_state_subgraph res_rules fetch_subgraph con = Inr sub"
    "sort_power_events E iter (filter (is_power_event_id fetch) (full_conflicted_set iter fetch acs con sub))
       (full_conflicted_set iter fetch acs con sub) rules fetch = Inr sp"
    "iterative_auth_check E rules fetch sp
       (if begin_iterative_auth_check_with_empty_state_map res_rules then Map.empty else bt_get un) = Inr partial"
    "mainline_sort fetch (filter (\<lambda>i. i \<notin> set sp) (full_conflicted_set iter fetch acs con sub))
       (partial (PowerLevelsType, '''')) = Some (Inr rest)"
    "iterative_auth_check E rules fetch rest partial = Inr resolved" "m = resolved ++ bt_get un"
  using assms
  by (auto simp: resolve_def Let_def and_run_Some_Inr bind_eq_Some_conv)

lemma resolve_unconflicted:
  assumes "resolve E iter rules res_rules maps acs fetch fetch_subgraph = Some (Inr m)"
    and "split_conflicted_state_set maps = (un, con)" "bt_get un k = Some v"
  shows "m k = Some v"
proof (cases "con = []")
  case True
  with assms show ?thesis by (simp add: resolve_def)
next
  case False
  from assms(1,2) False show ?thesis by (rule resolve_phases) (simp add: assms(3))
qed

lemma conflicted_from_states:
  assumes "\<forall>s\<in>set maps. bt_inv s" "split_conflicted_state_set maps = (un, con)" "is \<in> snd ` set con" "i \<in> set is"
  shows "\<exists>s\<in>set maps. i \<in> snd ` set s"
proof -
  from assms(3) obtain k where k: "(k, is) \<in> set con" by (elim imageE) (metis prod.collapse)
  note sp = split_conflicted[OF assms(1,2), of k i]
  from sp have "bt_inv con" by (elim conjE)
  with k have "bt_get con k = Some is" by (simp add: bt_inv_set)
  with sp assms(4) obtain s where "s \<in> set maps" "bt_get s k = Some i" by auto
  then show ?thesis by (metis image_eqI map_of_SomeD snd_conv)
qed

lemma resolve_entry:
  assumes wf: "wf (auth_rel fetch)" and it: "permuting iter"
    and run: "resolve E iter rules res_rules maps acs fetch fetch_subgraph = Some (Inr m)"
    and sp: "split_conflicted_state_set maps = (un, con)" and k: "m k = Some i" "bt_get un k = None"
  shows "\<exists>sub. conflicted_state_subgraph res_rules fetch_subgraph con = Inr sub
    \<and> i \<in> set (full_conflicted_set iter fetch acs con sub) \<and> authorised E rules fetch k i"
proof (cases "con = []")
  case True
  with run sp k show ?thesis by (simp add: resolve_def)
next
  case False
  from run sp False show ?thesis
  proof (rule resolve_phases)
    fix sub xs partial rest resolved
    let ?full = "full_conflicted_set iter fetch acs con sub"
    assume sub: "conflicted_state_subgraph res_rules fetch_subgraph con = Inr sub"
      and s: "sort_power_events E iter (filter (is_power_event_id fetch) ?full) ?full rules fetch = Inr xs"
      and p: "iterative_auth_check E rules fetch xs
         (if begin_iterative_auth_check_with_empty_state_map res_rules then Map.empty else bt_get un) = Inr partial"
      and ms: "mainline_sort fetch (filter (\<lambda>i. i \<notin> set xs) ?full) (partial (PowerLevelsType, '''')) = Some (Inr rest)"
      and r: "iterative_auth_check E rules fetch rest partial = Inr resolved" and m: "m = resolved ++ bt_get un"
    have "set xs \<subseteq> set ?full" by (rule sort_power_events_subset[OF s]) auto
    moreover have "set rest \<subseteq> set ?full" using mainline_sort_subset[OF wf ms] by auto
    moreover have "resolved k = Some i" using k m by (auto simp: map_add_def)
    ultimately have "i \<in> set ?full \<and> authorised E rules fetch k i"
      using it.fold_entries[OF p[unfolded iterative_auth_check_def], of k]
        it.fold_entries[OF r[unfolded iterative_auth_check_def], of k] k(2)
      by (auto split: if_splits)
    with sub show ?thesis by blast
  qed
qed

section \<open>Iteration orders do not matter\<close>

text \<open>Every event finds the same creators of the room, whether or not they are known already.\<close>

definition creators_found :: "env \<Rightarrow> fetch_event \<Rightarrow> authorization_rules \<Rightarrow> string list \<Rightarrow> string set \<Rightarrow> bool" where
  "creators_found E fetch rules creators S \<longleftrightarrow>
     (\<forall>i\<in>S. \<exists>l. power_level_for_sender E fetch rules i None = Inr (l, Some creators)
        \<and> power_level_for_sender E fetch rules i (Some creators) = Inr (l, Some creators))"

definition sender_level :: "env \<Rightarrow> fetch_event \<Rightarrow> authorization_rules \<Rightarrow> string \<Rightarrow> user_power_level" where
  "sender_level E fetch rules i = (case power_level_for_sender E fetch rules i None of Inr (l, _) \<Rightarrow> l | Inl _ \<Rightarrow> Infinite)"

lemma creators_foundD:
  "creators_found E fetch rules cs S \<Longrightarrow> i \<in> S \<Longrightarrow> lock \<in> {None, Some cs} \<Longrightarrow>
     power_level_for_sender E fetch rules i lock = Inr (sender_level E fetch rules i, Some cs)"
  by (auto simp: creators_found_def sender_level_def)

lemma collected_levels:
  assumes "creators_found E fetch rules cs S"
  shows "set ids \<subseteq> S \<Longrightarrow> snd acc \<in> {None, Some cs} \<Longrightarrow>
    \<exists>acc'. fold_result (add_power_level E fetch rules) acc ids = Inr acc'
      \<and> map_of (fst acc') = (\<lambda>i. if i \<in> set ids then Some (sender_level E fetch rules i) else map_of (fst acc) i)"
proof (induction ids arbitrary: acc)
  case (Cons i ids)
  let ?acc = "((i, sender_level E fetch rules i) # fst acc, Some cs)"
  from creators_foundD[OF assms, of i "snd acc"] Cons.prems have "add_power_level E fetch rules acc i = Inr ?acc"
    by (simp add: add_power_level_def)
  with Cons.IH[of ?acc] Cons.prems show ?case by (auto simp: fun_eq_iff)
qed (simp cong: if_cong)

lemma sort_power_events_cong:
  assumes S: "creators_found E fetch rules cs (set fcs)" and ok: "\<forall>i\<in>set fcs. is_ok (fetch i)"
    and it: "permuting iter" "permuting iter'"
    and eq: "set fcs = set fcs'" "set events = set events'" "set events \<subseteq> set fcs"
  shows "sort_power_events E iter events fcs rules fetch = sort_power_events E iter' events' fcs' rules fetch"
proof -
  let ?g = "power_events_graph fetch fcs events" and ?g' = "power_events_graph fetch fcs' events'"
  let ?C = "chain_from fetch fcs (set events)"
  note G = power_events_graph_inv[where fetch = fetch and fcs = fcs and events = events]
  note G' = power_events_graph_inv[where fetch = fetch and fcs = fcs' and events = events']
  have au: "auth_in fetch fcs' = auth_in fetch fcs" by (simp add: auth_in_def fun_eq_iff eq(1))
  have C: "chain_from fetch fcs' (set events') = ?C" by (simp add: chain_from_def au eq(2))
  have sub: "?C \<subseteq> set fcs" by (rule chain_from_least[OF eq(3)]) (auto simp: auth_in_def)
  have keys: "fst ` set ?g = ?C" "fst ` set ?g' = ?C" using G(2) G'(2) C by simp_all
  have "edges_of ?g e = edges_of ?g' e" for e
    using G(3)[of e] G'(3)[of e] edges_of_outside[of e ?g] edges_of_outside[of e ?g'] keys
    by (cases "e \<in> ?C") (simp_all add: C au)
  then have edges: "edges_of ?g = edges_of ?g'" by (simp add: fun_eq_iff)
  have ids: "set (iter (map fst ?g)) = ?C" "set (iter' (map fst ?g')) = ?C"
    using it keys by (simp_all add: permuting_def)
  from collected_levels[OF S, of "iter (map fst ?g)" "([], None)"] ids sub obtain acc
    where acc: "fold_result (add_power_level E fetch rules) ([], None) (iter (map fst ?g)) = Inr acc"
      "map_of (fst acc) = (\<lambda>i. if i \<in> ?C then Some (sender_level E fetch rules i) else None)" by (auto cong: if_cong)
  from collected_levels[OF S, of "iter' (map fst ?g')" "([], None)"] ids sub obtain acc'
    where acc': "fold_result (add_power_level E fetch rules) ([], None) (iter' (map fst ?g')) = Inr acc'"
      "map_of (fst acc') = (\<lambda>i. if i \<in> ?C then Some (sender_level E fetch rules i) else None)" by (auto cong: if_cong)
  have d: "event_details fetch (fst acc') = event_details fetch (fst acc)"
    by (simp add: event_details_def fun_eq_iff acc(2) acc'(2))
  have "\<exists>x. event_details fetch (fst acc) p = Inr x" if p: "p \<in> ?C" for p
  proof -
    from p ok sub obtain ev where "fetch p = Inr ev" by (auto simp: is_ok_iff)
    with p show ?thesis by (simp add: event_details_def acc(2))
  qed
  then have "reverse_topological_power_sort ?g (event_details fetch (fst acc))
      = reverse_topological_power_sort ?g' (event_details fetch (fst acc))"
    using keys by (intro sort_order_independent[OF G(1) G'(1) _ edges]) simp_all
  then show ?thesis by (simp add: sort_power_events_def Let_def acc(1) acc'(1) d)
qed

lemma sorted_lists_equal:
  assumes "sorted_wrt R xs" "sorted_wrt R ys" "set xs = set ys" "\<And>a b. R a b \<Longrightarrow> \<not> R b a"
  shows "xs = ys"
  using assms
proof (induction xs arbitrary: ys)
  case (Cons x xs)
  then obtain y ys' where ys: "ys = y # ys'" by (cases ys) auto
  have irr: "\<not> R a a" for a using Cons.prems(4) by blast
  have "x = y"
  proof (rule ccontr)
    assume "x \<noteq> y"
    with Cons.prems(3) ys have "x \<in> set ys'" "y \<in> set xs" by auto
    with Cons.prems(1,2) ys have "R y x" "R x y" by auto
    with Cons.prems(4) show False by blast
  qed
  moreover have "x \<notin> set xs" "y \<notin> set ys'" using Cons.prems(1,2) ys irr by auto
  ultimately have "set xs = set ys'" using Cons.prems(3) ys by auto
  with Cons.IH[of ys'] Cons.prems ys \<open>x = y\<close> show ?case by auto
qed simp

lemma mainline_sort_cong:
  assumes wf: "wf (auth_rel fetch)" and eq: "set events = set events'"
  shows "mainline_sort fetch events pl = mainline_sort fetch events' pl"
proof -
  from populate_mainline_ends[OF wf] obtain r where r: "populate_mainline fetch [] pl = Some r" by blast
  show ?thesis
  proof (cases r)
    case (Inl e)
    with r eq show ?thesis by (auto simp: mainline_sort_def)
  next
    case (Inr ml)
    note R = mainline_sort_result[OF wf r[unfolded Inr]]
    from R[of events] R[of events'] eq show ?thesis
      using sorted_lists_equal[of "mainline_before fetch ml"] by (auto simp: mainline_before_def)
  qed
qed

section \<open>An example\<close>

definition ex_base :: "string state_map" where
  "ex_base = [((CreateType, ''''), ''$create''), ((MemberType, ''@a:h''), ''$@a:h''), ((PowerLevelsType, ''''), ''$pl'')]"

definition ex_named :: "string state_map" where
  "ex_named = bt_insert (ex_name_type, '''') ''$x'' ex_base"

abbreviation ex_resolve :: "(string list \<Rightarrow> string list) \<Rightarrow> (state_error + (state_key \<rightharpoonup> string)) option" where
  "ex_resolve iter \<equiv>
     resolve ex_env iter ex_rules StateResolutionV2Rules_V2_0 [ex_base, ex_named] [] ex_fetch (\<lambda>_. None)"

lemma ex_resolve_run: "\<exists>m. ex_resolve rev = Some (Inr m) \<and> m (ex_name_type, '''') = Some ''$x''"
proof -
  have "case ex_resolve rev of Some (Inr m) \<Rightarrow> m (ex_name_type, '''') = Some ''$x'' | _ \<Rightarrow> False"
    by code_simp
  then show ?thesis by (simp split: option.splits sum.splits)
qed

lemma ex_states_inv: "\<forall>s\<in>set [ex_base, ex_named]. bt_inv s"
  by code_simp

lemma ex_permuting: "permuting rev" "permuting (\<lambda>xs. xs)"
  by (simp_all add: permuting_def)

section \<open>Properties\<close>

text \<open>C3: When the auth events form no cycle, state resolution ends, with a state or with an error.\<close>

theorem resolve_terminates:
  assumes "wf (auth_rel fetch)"
  shows "\<exists>r. resolve E iter rules res_rules maps acs fetch fetch_subgraph = Some r"
proof -
  obtain un con where s: "split_conflicted_state_set maps = (un, con)" by fastforce
  show ?thesis by (auto simp: resolve_def s Let_def intro!: and_run_ends mainline_bind_ends[OF assms])
qed

theorem resolve_terminates_witness: "\<exists>r. ex_resolve rev = Some r"
  by (rule resolve_terminates[OF ex_fetch_wf])

text \<open>C4: An entry on which all the given states agree is kept by the resolution.\<close>

theorem resolve_keeps_agreement:
  assumes "\<forall>s\<in>set maps. bt_inv s" "maps \<noteq> []" "\<forall>s\<in>set maps. bt_get s k = Some v"
    and "resolve E iter rules res_rules maps acs fetch fetch_subgraph = Some (Inr m)"
  shows "m k = Some v"
proof -
  obtain un con where s: "split_conflicted_state_set maps = (un, con)" by fastforce
  from split_conflicted[OF assms(1) s, of k v] assms(2,3) have un: "bt_get un k = Some v" by blast
  show ?thesis by (rule resolve_unconflicted[OF assms(4) s un])
qed

theorem resolve_keeps_agreement_witness:
  "\<exists>m. ex_resolve rev = Some (Inr m) \<and> m (PowerLevelsType, '''') = Some ''$pl''"
proof -
  from ex_resolve_run obtain m where m: "ex_resolve rev = Some (Inr m)" by (elim exE conjE)
  have "\<forall>s\<in>set [ex_base, ex_named]. bt_get s (PowerLevelsType, '''') = Some ''$pl''" by code_simp
  from resolve_keeps_agreement[OF ex_states_inv _ this m] m show ?thesis by simp
qed



text \<open>Resolving any number of copies of one state returns that state.\<close>

theorem resolve_same_states:
  assumes "bt_inv s" "0 < n"
  shows "resolve E iter rules res_rules (replicate n s) acs fetch fetch_subgraph = Some (Inr (bt_get s))"
proof -
  obtain un con where sp: "split_conflicted_state_set (replicate n s) = (un, con)" by fastforce
  have inv: "\<forall>m\<in>set (replicate n s). bt_inv m" using assms by simp
  note c = split_conflicted[OF inv sp]
  have "bt_get con k = None" for k
  proof (cases "bt_get con k")
    case (Some ids)
    with c[of k] assms have "ids = []" by auto
    with c[of k] Some show ?thesis by blast
  qed simp
  then have con: "con = []" by (cases con) (auto, metis option.distinct(1))
  have "bt_get un k = bt_get s k" for k
  proof -
    from c[of k] assms have "bt_get un k = Some v \<longleftrightarrow> bt_get s k = Some v" for v by auto
    then show ?thesis by (metis not_Some_eq)
  qed
  then have "bt_get un = bt_get s" by (simp add: fun_eq_iff)
  with con sp show ?thesis by (simp add: resolve_def)
qed

theorem resolve_same_states_witness:
  "resolve ex_env rev ex_rules StateResolutionV2Rules_V2_1 (replicate 3 ex_base) [] ex_fetch (\<lambda>_. None)
   = Some (Inr (bt_get ex_base))"
  by (rule resolve_same_states) (use ex_states_inv in simp_all)

text \<open>C2: The order in which hash sets and maps yield their entries does not matter: when the auth
  events form no cycle and the conflicted events lead to the same creators of the room, two
  runs that differ in those orders return the same.\<close>

theorem resolve_order_independent:
  assumes wf: "wf (auth_rel fetch)" and it: "permuting iter" "permuting iter'"
    and cs: "\<forall>sub. conflicted_state_subgraph res_rules fetch_subgraph (snd (split_conflicted_state_set maps)) = Inr sub
      \<longrightarrow> creators_found E fetch rules cs
        (set (full_conflicted_set iter fetch acs (snd (split_conflicted_state_set maps)) sub))"
  shows "resolve E iter rules res_rules maps acs fetch fetch_subgraph
    = resolve E iter' rules res_rules maps acs fetch fetch_subgraph"
proof -
  obtain un con where sp: "split_conflicted_state_set maps = (un, con)" by fastforce
  let ?full = "\<lambda>iter sub. full_conflicted_set iter fetch acs con sub"
  let ?sort = "\<lambda>iter sub. sort_power_events E iter (filter (is_power_event_id fetch) (?full iter sub)) (?full iter sub) rules fetch"
  have full: "set (?full iter' sub) = set (?full iter sub)" for sub
    by (simp only: full_conflicted_set_set[OF it(1)] full_conflicted_set_set[OF it(2)])
  have sort: "?sort iter sub = ?sort iter' sub"
    if "conflicted_state_subgraph res_rules fetch_subgraph con = Inr sub" for sub
  proof (rule sort_power_events_cong[OF _ _ it])
    show "creators_found E fetch rules cs (set (?full iter sub))" using cs sp that by simp
    show "\<forall>i\<in>set (?full iter sub). is_ok (fetch i)" unfolding full_conflicted_set_set[OF it(1)] by simp
  qed (auto simp: full)
  have rest: "mainline_sort fetch (filter P (?full iter sub)) pl = mainline_sort fetch (filter P (?full iter' sub)) pl"
    for P sub pl
    by (rule mainline_sort_cong[OF wf]) (simp add: full)
  show ?thesis by (simp add: resolve_def sp Let_def rest sort cong: and_run_cong)
qed

theorem resolve_order_independent_witness: "ex_resolve rev = ex_resolve (\<lambda>xs. xs)"
proof (rule resolve_order_independent[OF ex_fetch_wf ex_permuting])
  let ?con = "snd (split_conflicted_state_set [ex_base, ex_named])"
  have "full_conflicted_set rev ex_fetch [] ?con [] = [''$x'']" by code_simp
  moreover have "power_level_for_sender ex_env ex_fetch ex_rules ''$x'' None = Inr (IntLevel 100, Some [''@a:h''])"
    by code_simp
  moreover have "power_level_for_sender ex_env ex_fetch ex_rules ''$x'' (Some [''@a:h'']) = Inr (IntLevel 100, Some [''@a:h''])"
    by code_simp
  ultimately show "\<forall>sub. conflicted_state_subgraph StateResolutionV2Rules_V2_0 (\<lambda>_. None) ?con = Inr sub
      \<longrightarrow> creators_found ex_env ex_fetch ex_rules [''@a:h''] (set (full_conflicted_set rev ex_fetch [] ?con sub))"
    by (simp add: conflicted_state_subgraph_def StateResolutionV2Rules_V2_0_def creators_found_def)
qed

end
