(* ===== verification/Redaction.thy ===== *)
theory Redaction
  imports Canonical_Json Room_Versions
begin

text \<open>
  Redaction of events (\<open>core/src/serde/canonical_json/redaction.rs\<close>).  The in-place operations
  return their result together with the object they leave behind, also on an error.  The theorems
  say which keys survive, that redaction is idempotent, and exactly when it fails.
\<close>

datatype json_type = TObject | TString | TInteger | TArray | TBoolean | TNull

datatype redaction_error =
    NotOfType string json_type
  | JsonFieldMissingFromObject string

section \<open>Retained keys\<close>

text \<open>A field function sees the key and the value, may change the value, and says whether the field
  stays.\<close>

type_synonym retain_fn = "redaction_rules \<Rightarrow> string \<Rightarrow> cjson \<Rightarrow> redaction_error + (bool \<times> cjson)"

datatype retained_keys = RetainAll | RetainSome retain_fn | RetainNone

definition key_only :: "(redaction_rules \<Rightarrow> string \<Rightarrow> bool) \<Rightarrow> retain_fn" where
  "key_only p = (\<lambda>rules key v. Inr (p rules key, v))"

fun apply_loop ::
  "(string \<Rightarrow> cjson \<Rightarrow> redaction_error + (bool \<times> cjson)) \<Rightarrow> cobject \<Rightarrow> cobject
     \<Rightarrow> (redaction_error + unit) \<times> cobject" where
  "apply_loop f [] acc = (Inr (), acc)"
| "apply_loop f ((key, v) # rest) acc =
     (case f key v of
        Inl e \<Rightarrow> (Inl e, acc)
      | Inr (keep, v') \<Rightarrow> apply_loop f rest (if keep then bt_insert key v' acc else acc))"

fun retained_apply ::
  "retained_keys \<Rightarrow> redaction_rules \<Rightarrow> cobject \<Rightarrow> (redaction_error + unit) \<times> cobject" where
  "retained_apply RetainAll rules obj = (Inr (), obj)"
| "retained_apply (RetainSome f) rules obj = apply_loop (f rules) obj []"
| "retained_apply RetainNone rules obj = (Inr (), [])"

definition is_event_key_retained :: "redaction_rules \<Rightarrow> string \<Rightarrow> bool" where
  "is_event_key_retained rules key =
     (if key \<in> {''event_id'', ''type'', ''room_id'', ''sender'', ''state_key'', ''content'', ''hashes'',
                ''signatures'', ''depth'', ''prev_events'', ''auth_events'', ''origin_server_ts''}
      then True
      else if key \<in> {''origin'', ''membership'', ''prev_state''}
      then keep_origin_membership_prev_state rules
      else False)"

definition is_room_member_content_key_retained :: retain_fn where
  "is_room_member_content_key_retained rules key v =
     (if key = ''membership'' then Inr (True, v)
      else if key = ''join_authorised_via_users_server''
      then Inr (keep_room_member_join_authorised_via_users_server rules, v)
      else if key = ''third_party_invite'' \<and> keep_room_member_third_party_invite_signed rules
      then (case as_object v of
              None \<Rightarrow> Inl (NotOfType ''third_party_invite'' TObject)
            | Some tpi \<Rightarrow>
                (let tpi' = filter (\<lambda>e. fst e = ''signed'') tpi
                 in Inr (tpi' \<noteq> [], CObject tpi')))
      else Inr (False, v))"

definition room_create_content_retained_keys :: "redaction_rules \<Rightarrow> retained_keys" where
  "room_create_content_retained_keys rules =
     (if keep_room_create_content rules then RetainAll
      else RetainSome (key_only (\<lambda>_ field. field = ''creator'')))"

definition is_room_join_rules_content_key_retained :: "redaction_rules \<Rightarrow> string \<Rightarrow> bool" where
  "is_room_join_rules_content_key_retained rules key =
     (if key = ''join_rule'' then True
      else if key = ''allow'' then keep_room_join_rules_allow rules
      else False)"

definition is_room_power_levels_content_key_retained :: "redaction_rules \<Rightarrow> string \<Rightarrow> bool" where
  "is_room_power_levels_content_key_retained rules key =
     (if key \<in> {''ban'', ''events'', ''events_default'', ''kick'', ''redact'', ''state_default'',
                ''users'', ''users_default''}
      then True
      else if key = ''invite'' then keep_room_power_levels_invite rules
      else False)"

definition is_room_history_visibility_content_key_retained :: "string \<Rightarrow> bool" where
  "is_room_history_visibility_content_key_retained key = (key = ''history_visibility'')"

definition room_redaction_content_retained_keys :: "redaction_rules \<Rightarrow> retained_keys" where
  "room_redaction_content_retained_keys rules =
     (if keep_room_redaction_redacts rules
      then RetainSome (key_only (\<lambda>_ field. field = ''redacts''))
      else RetainNone)"

definition room_aliases_content_retained_keys :: "redaction_rules \<Rightarrow> retained_keys" where
  "room_aliases_content_retained_keys rules =
     (if keep_room_aliases_aliases rules
      then RetainSome (key_only (\<lambda>_ field. field = ''aliases''))
      else RetainNone)"

definition is_room_server_acl_content_key_retained :: "redaction_rules \<Rightarrow> string \<Rightarrow> bool" where
  "is_room_server_acl_content_key_retained rules key =
     (if key \<in> {''allow'', ''deny'', ''allow_ip_literals''}
      then keep_room_server_acl_allow_deny_allow_ip_literals rules
      else False)"

definition retained_event_content_keys :: "string \<Rightarrow> redaction_rules \<Rightarrow> retained_keys" where
  "retained_event_content_keys event_type rules =
     (if event_type = ''m.room.member'' then RetainSome is_room_member_content_key_retained
      else if event_type = ''m.room.create'' then room_create_content_retained_keys rules
      else if event_type = ''m.room.join_rules''
      then RetainSome (key_only is_room_join_rules_content_key_retained)
      else if event_type = ''m.room.power_levels''
      then RetainSome (key_only is_room_power_levels_content_key_retained)
      else if event_type = ''m.room.history_visibility''
      then RetainSome (key_only (\<lambda>_. is_room_history_visibility_content_key_retained))
      else if event_type = ''m.room.redaction'' then room_redaction_content_retained_keys rules
      else if event_type = ''m.room.aliases'' then room_aliases_content_retained_keys rules
      else if event_type = ''m.room.server_acl''
      then RetainSome (key_only is_room_server_acl_content_key_retained)
      else RetainNone)"

section \<open>Redaction\<close>

definition redact_content_step ::
  "retained_keys \<Rightarrow> redaction_rules \<Rightarrow> cobject \<Rightarrow> (redaction_error + unit) \<times> cobject" where
  "redact_content_step keys rules event =
     (case bt_get event ''content'' of
        None \<Rightarrow> (Inr (), event)
      | Some content_value \<Rightarrow>
          (case as_object content_value of
             None \<Rightarrow> (Inl (NotOfType ''content'' TObject), event)
           | Some content \<Rightarrow>
               (let (r, content') = retained_apply keys rules content
                in (r, bt_insert ''content'' (CObject content') event))))"

definition redact_in_place ::
  "cobject \<Rightarrow> redaction_rules \<Rightarrow> cobject option \<Rightarrow> (redaction_error + unit) \<times> cobject" where
  "redact_in_place event rules redacted_because =
     (case bt_get event ''type'' of
        None \<Rightarrow> (Inl (JsonFieldMissingFromObject ''type''), event)
      | Some type_value \<Rightarrow>
          (case as_str type_value of
             None \<Rightarrow> (Inl (NotOfType ''type'' TString), event)
           | Some event_type \<Rightarrow>
               (case redact_content_step (retained_event_content_keys event_type rules) rules event of
                  (Inl e, event1) \<Rightarrow> (Inl e, event1)
                | (Inr _, event1) \<Rightarrow>
                    (case retained_apply (RetainSome (key_only is_event_key_retained)) rules event1 of
                       (Inl e, event2) \<Rightarrow> (Inl e, event2)
                     | (Inr _, event2) \<Rightarrow>
                         (case redacted_because of
                            None \<Rightarrow> (Inr (), event2)
                          | Some because \<Rightarrow>
                              (Inr (), bt_insert ''unsigned''
                                 (CObject (bt_from_iter [(''redacted_because'', CObject because)])) event2))))))"

definition redact ::
  "cobject \<Rightarrow> redaction_rules \<Rightarrow> cobject option \<Rightarrow> redaction_error + cobject" where
  "redact obj rules redacted_because =
     (let (r, obj') = redact_in_place obj rules redacted_because in map_ok (\<lambda>_. obj') r)"

definition redact_content_in_place ::
  "cobject \<Rightarrow> redaction_rules \<Rightarrow> string \<Rightarrow> (redaction_error + unit) \<times> cobject" where
  "redact_content_in_place content rules event_type =
     retained_apply (retained_event_content_keys event_type rules) rules content"

section \<open>Applying field functions\<close>

text \<open>The entries the loop keeps, without the accumulator.\<close>

definition kept ::
  "(string \<Rightarrow> cjson \<Rightarrow> redaction_error + (bool \<times> cjson)) \<Rightarrow> cobject \<Rightarrow> cobject" where
  "kept f m =
     List.map_filter (\<lambda>(k, v). case f k v of Inr (b, v') \<Rightarrow> if b then Some (k, v') else None | Inl _ \<Rightarrow> None) m"

lemma kept_simps [simp]:
  "kept f [] = []"
  "f k v = Inr (True, v') \<Longrightarrow> kept f ((k, v) # m) = (k, v') # kept f m"
  "f k v = Inr (False, v') \<Longrightarrow> kept f ((k, v) # m) = kept f m"
  by (simp_all add: kept_def map_filter_simps)

lemma apply_loop_fst: "fst (apply_loop f m acc) = Inr () \<longleftrightarrow> (\<forall>(k, v)\<in>set m. is_ok (f k v))"
proof (induction f m acc rule: apply_loop.induct)
  case (2 f key v rest acc)
  then show ?case by (cases "f key v") auto
qed simp

lemma apply_loop_ok:
  assumes "\<forall>(k, v)\<in>set m. is_ok (f k v)" "bt_inv (acc @ m)"
  shows "apply_loop f m acc = (Inr (), acc @ kept f m)"
  using assms
proof (induction m arbitrary: acc)
  case (Cons e m)
  obtain k v where e: "e = (k, v)" by fastforce
  with Cons.prems obtain b v' where f: "f k v = Inr (b, v')" by (auto simp: is_ok_iff)
  have "bt_inv ((if b then acc @ [(k, v')] else acc) @ m)"
    using Cons.prems(2) e by (auto simp: bt_inv_def sorted_wrt_append)
  with Cons f e bt_inv_append_Cons(2)[of acc k v m v'] show ?case by (cases b) auto
qed simp

lemma kept_keys: "set (map fst (kept f m)) \<subseteq> set (map fst m)"
  by (force simp: kept_def map_filter_def split: sum.splits if_splits)

lemma kept_inv: "bt_inv m \<Longrightarrow> bt_inv (kept f m)"
proof (induction m)
  case (Cons e m)
  obtain k v where e: "e = (k, v)" by fastforce
  have "\<forall>x\<in>set (map fst m). k < x" using Cons.prems e by (simp add: bt_inv_Cons)
  then have "\<forall>x\<in>set (map fst (kept f m)). k < x" using kept_keys by blast
  with Cons e show ?case
    by (auto simp: kept_def map_filter_simps bt_inv_Cons split: sum.splits)
qed simp

text \<open>The contract of a field function: a value it keeps it keeps again, unchanged.\<close>

locale field_fn =
  fixes f :: "string \<Rightarrow> cjson \<Rightarrow> redaction_error + (bool \<times> cjson)"
  assumes stable: "f k v = Inr (True, v') \<Longrightarrow> f k v' = Inr (True, v')"
begin

lemma kept_stable: "(k, v) \<in> set (kept f m) \<Longrightarrow> f k v = Inr (True, v)"
  by (auto simp: kept_def map_filter_def stable split: sum.splits if_splits)

lemma kept_idem: "kept f (kept f m) = kept f m"
proof -
  have "\<forall>(k, v)\<in>set m'. f k v = Inr (True, v) \<Longrightarrow> kept f m' = m'" for m'
    by (induction m') auto
  with kept_stable show ?thesis by blast
qed

lemma apply_idem:
  assumes "bt_inv m" "apply_loop f m [] = (Inr (), m')"
  shows "bt_inv m' \<and> m' = kept f m \<and> apply_loop f m' [] = (Inr (), m')"
proof -
  from assms(2) have "\<forall>(k, v)\<in>set m. is_ok (f k v)" using apply_loop_fst[of f m "[]"] by simp
  with assms have m': "m' = kept f m" using apply_loop_ok[of m f "[]"] by simp
  with assms(1) have "bt_inv m'" by (simp add: kept_inv)
  moreover have "\<forall>(k, v)\<in>set m'. is_ok (f k v)" using kept_stable m' by fastforce
  ultimately show ?thesis using apply_loop_ok[of m' f "[]"] m' kept_idem by simp
qed

end

interpretation key_field: field_fn "key_only p rules" for p rules
  by unfold_locales (auto simp: key_only_def)

interpretation member_field: field_fn "is_room_member_content_key_retained rules" for rules
  by unfold_locales
    (auto simp: is_room_member_content_key_retained_def Let_def split: if_splits option.splits)

lemma kept_key_only: "kept (key_only p rules) m = filter (\<lambda>e. p rules (fst e)) m"
  by (induction m) (auto simp: kept_def key_only_def map_filter_simps)

lemma apply_key_only:
  "bt_inv m \<Longrightarrow> retained_apply (RetainSome (key_only p)) rules m = (Inr (), filter (\<lambda>e. p rules (fst e)) m)"
  using apply_loop_ok[of m "key_only p rules" "[]"] by (simp add: key_only_def flip: kept_key_only)

lemmas content_keys_defs = retained_event_content_keys_def room_create_content_retained_keys_def
  room_redaction_content_retained_keys_def room_aliases_content_retained_keys_def

lemma key_only_ex [simp]: "(\<exists>q. key_only p = key_only q \<and> A) \<longleftrightarrow> A" "\<exists>q. key_only p = key_only q"
  by auto

lemma content_keys_cases:
  "retained_event_content_keys t rules = RetainAll
   \<or> retained_event_content_keys t rules = RetainNone
   \<or> (\<exists>p. retained_event_content_keys t rules = RetainSome (key_only p) \<and> t \<noteq> ''m.room.member'')
   \<or> retained_event_content_keys t rules = RetainSome is_room_member_content_key_retained
      \<and> t = ''m.room.member''"
  unfolding content_keys_defs by simp

lemma content_keys_exhaust:
  obtains (all) "retained_event_content_keys t rules = RetainAll"
    | (none) "retained_event_content_keys t rules = RetainNone"
    | (keys) p where "retained_event_content_keys t rules = RetainSome (key_only p)" "t \<noteq> ''m.room.member''"
    | (member) "retained_event_content_keys t rules = RetainSome is_room_member_content_key_retained"
        "t = ''m.room.member''"
  using content_keys_cases[of t rules] by blast

lemma content_apply_idem:
  assumes "bt_inv m" "retained_apply (retained_event_content_keys t rules) rules m = (Inr (), m')"
  shows "bt_inv m' \<and> retained_apply (retained_event_content_keys t rules) rules m' = (Inr (), m')"
proof (cases rule: content_keys_exhaust[of t rules])
  case (keys p)
  with assms(2) have "apply_loop (key_only p rules) m [] = (Inr (), m')" by simp
  from key_field.apply_idem[OF assms(1) this] have "bt_inv m'" "apply_loop (key_only p rules) m' [] = (Inr (), m')"
    by blast+
  with keys show ?thesis by simp
next
  case member
  with assms(2) have "apply_loop (is_room_member_content_key_retained rules) m [] = (Inr (), m')" by simp
  from member_field.apply_idem[OF assms(1) this] have "bt_inv m'"
    "apply_loop (is_room_member_content_key_retained rules) m' [] = (Inr (), m')"
    by blast+
  with member show ?thesis by simp
qed (use assms in auto)

lemma bt_get_filter_key:
  "bt_get (filter (\<lambda>e. P (fst e)) m) k = (if P k then bt_get m k else None)"
  by (induction m) auto

section \<open>Redaction of a whole event\<close>

text \<open>A successful redaction, step by step: the event after its content was redacted, the filter on
  the top-level keys, and the added \<open>unsigned\<close> object.\<close>

definition add_because :: "cobject option \<Rightarrow> cobject \<Rightarrow> cobject" where
  "add_because b ev =
     (case b of None \<Rightarrow> ev
      | Some because \<Rightarrow>
          bt_insert ''unsigned'' (CObject (bt_from_iter [(''redacted_because'', CObject because)])) ev)"

lemma redact_content_step_inv:
  assumes "bt_inv ev" "redact_content_step keys rules ev = (r, ev1)"
  shows "bt_inv ev1 \<and> (\<forall>k. k \<noteq> ''content'' \<longrightarrow> bt_get ev1 k = bt_get ev k)"
  using assms
  by (auto simp: redact_content_step_def bt_simps split: option.splits prod.splits)

lemma redact_Inr_iff:
  assumes "bt_inv ev"
  shows "redact ev rules b = Inr ev' \<longleftrightarrow>
    (\<exists>t ev1. bt_get ev ''type'' = Some (CString t)
       \<and> redact_content_step (retained_event_content_keys t rules) rules ev = (Inr (), ev1)
       \<and> ev' = add_because b (filter (\<lambda>e. is_event_key_retained rules (fst e)) ev1))"
proof (cases "bt_get ev ''type''")
  case None
  then show ?thesis by (simp add: redact_def redact_in_place_def)
next
  case (Some v)
  show ?thesis
  proof (cases "as_str v")
    case None
    with Some show ?thesis by (cases v) (simp_all add: redact_def redact_in_place_def)
  next
    case (Some t)
    with \<open>bt_get ev ''type'' = Some v\<close> have ty: "bt_get ev ''type'' = Some (CString t)" by (cases v) auto
    obtain r ev1 where st: "redact_content_step (retained_event_content_keys t rules) rules ev = (r, ev1)"
      by fastforce
    from redact_content_step_inv[OF assms st] have "bt_inv ev1" by simp
    from apply_key_only[OF this] ty st show ?thesis
      by (cases r; cases b) (auto simp: redact_def redact_in_place_def add_because_def
          simp del: retained_apply.simps)
  qed
qed

lemma event_keys_retained [simp]:
  "is_event_key_retained rules ''type''" "is_event_key_retained rules ''content''"
  "\<not> is_event_key_retained rules ''unsigned''"
  by (simp_all add: is_event_key_retained_def)

lemma add_because_get:
  "bt_inv ev \<Longrightarrow> k \<noteq> ''unsigned'' \<Longrightarrow> bt_get (add_because b ev) k = bt_get ev k"
  by (cases b) (simp_all add: add_because_def bt_simps)

lemma add_because_inv: "bt_inv ev \<Longrightarrow> bt_inv (add_because b ev)"
  by (cases b) (simp_all add: add_because_def bt_simps)

lemma add_because_filter:
  assumes "bt_inv ev" "bt_get ev ''unsigned'' = None"
  shows "filter (\<lambda>e. is_event_key_retained rules (fst e)) (add_because b ev)
    = filter (\<lambda>e. is_event_key_retained rules (fst e)) ev"
proof -
  have "is_event_key_retained rules k \<Longrightarrow> bt_get (add_because b ev) k = bt_get ev k" for k
    using assms(1) by (cases "k = ''unsigned''") (simp_all add: add_because_get)
  with assms(1) show ?thesis
    by (intro bt_inv_ext) (simp_all add: bt_inv_filter add_because_inv bt_get_filter_key fun_eq_iff)
qed

lemma content_step_idem:
  assumes "bt_inv ev" "cjson_wf (CObject ev)"
    and "redact_content_step (retained_event_content_keys t rules) rules ev = (Inr (), ev1)"
    and "bt_inv ev2" "bt_get ev2 ''content'' = bt_get ev1 ''content''"
  shows "redact_content_step (retained_event_content_keys t rules) rules ev2 = (Inr (), ev2)"
proof (cases "bt_get ev ''content''")
  case None
  with assms show ?thesis by (auto simp: redact_content_step_def)
next
  case (Some c)
  with assms(3) obtain m where c: "c = CObject m"
    by (cases c) (auto simp: redact_content_step_def)
  from Some assms(2) have "bt_inv m"
    by (auto simp: c list_all_iff dest!: map_of_SomeD)
  moreover obtain m' where m': "retained_apply (retained_event_content_keys t rules) rules m = (Inr (), m')"
      "ev1 = bt_insert ''content'' (CObject m') ev"
    using assms(3) Some c by (auto simp: redact_content_step_def split: prod.splits)
  ultimately have "retained_apply (retained_event_content_keys t rules) rules m' = (Inr (), m')"
    using content_apply_idem by blast
  moreover have "bt_get ev2 ''content'' = Some (CObject m')" using assms(1,5) m' by (simp add: bt_simps)
  ultimately show ?thesis
    using assms(4) by (simp add: redact_content_step_def bt_insert_same)
qed

text \<open>A membership event with an extra content key and an extra top-level key.\<close>

definition sample_event :: cobject where
  "sample_event =
     [(''content'', CObject [(''displayname'', CString ''a''), (''membership'', CString ''join'')]),
      (''type'', CString ''m.room.member''), (''unsigned'', CObject [])]"

definition sample_redacted :: cobject where
  "sample_redacted =
     [(''content'', CObject [(''membership'', CString ''join'')]), (''type'', CString ''m.room.member'')]"

lemma sample_event_wf: "cjson_wf (CObject sample_event)"
  by (simp add: sample_event_def bt_inv_def)

lemma sample_event_redacts: "redact sample_event RedactionRules_V11 None = Inr sample_redacted"
  by (simp add: sample_event_def sample_redacted_def redact_def redact_in_place_def redact_content_step_def
      retained_event_content_keys_def is_room_member_content_key_retained_def key_only_def
      is_event_key_retained_def)

lemma redact_twice:
  assumes "cjson_wf (CObject ev)" "redact ev rules b = Inr ev'"
  shows "redact ev' rules b = Inr ev'"
proof -
  have inv: "bt_inv ev" using assms(1) by simp
  from assms(2) obtain t ev1 where t: "bt_get ev ''type'' = Some (CString t)"
    and st: "redact_content_step (retained_event_content_keys t rules) rules ev = (Inr (), ev1)"
    and ev': "ev' = add_because b (filter (\<lambda>e. is_event_key_retained rules (fst e)) ev1)"
    unfolding redact_Inr_iff[OF inv] by blast
  define ev2 where "ev2 = filter (\<lambda>e. is_event_key_retained rules (fst e)) ev1"
  have inv1: "bt_inv ev1" and same: "bt_get ev1 ''type'' = bt_get ev ''type''"
    using redact_content_step_inv[OF inv st] by simp_all
  have inv2: "bt_inv ev2" using inv1 by (simp add: ev2_def bt_inv_filter)
  have g2: "bt_get ev2 k = (if is_event_key_retained rules k then bt_get ev1 k else None)" for k
    by (simp add: ev2_def bt_get_filter_key)
  have inv': "bt_inv ev'" using inv2 by (simp add: ev' add_because_inv flip: ev2_def)
  have g': "bt_get ev' ''type'' = Some (CString t)" "bt_get ev' ''content'' = bt_get ev1 ''content''"
    using t same g2 inv2 by (simp_all add: ev' add_because_get flip: ev2_def)
  have "redact_content_step (retained_event_content_keys t rules) rules ev' = (Inr (), ev')"
    by (rule content_step_idem[OF inv assms(1) st inv' g'(2)])
  moreover have "filter (\<lambda>e. is_event_key_retained rules (fst e)) ev' = ev2"
  proof -
    have "filter (\<lambda>e. is_event_key_retained rules (fst e)) ev'
        = filter (\<lambda>e. is_event_key_retained rules (fst e)) ev2"
      unfolding ev' ev2_def[symmetric] by (rule add_because_filter[OF inv2]) (simp add: g2)
    then show ?thesis by (simp add: ev2_def)
  qed
  ultimately show ?thesis
    unfolding redact_Inr_iff[OF inv'] using g'(1) by (auto simp: ev' ev2_def)
qed

section \<open>Properties\<close>



text \<open>C35: Redacting twice with the same reason is the same as redacting once.\<close>

theorem redact_idempotent:
  assumes "cjson_wf (CObject ev)" "redact ev rules b = Inr ev'"
  shows "redact ev' rules b = Inr ev'"
  by (rule redact_twice[OF assms])

theorem redact_idempotent_witness:
  "redact sample_event RedactionRules_V11 None = Inr sample_redacted
   \<and> redact sample_redacted RedactionRules_V11 None = Inr sample_redacted"
  using redact_idempotent[OF sample_event_wf sample_event_redacts] sample_event_redacts by simp

text \<open>C36: Redaction succeeds exactly when the type is a string, the content (if any) is an object,
  and, for a membership event of a version that keeps it, \<open>third_party_invite\<close> (if any) is an
  object; the shape of \<open>hashes\<close> and \<open>signatures\<close> is not looked at.\<close>

theorem redact_succeeds_iff:
  assumes "cjson_wf (CObject ev)"
  shows "is_ok (redact ev rules b) \<longleftrightarrow>
    (\<exists>t. bt_get ev ''type'' = Some (CString t)
       \<and> (bt_get ev ''content'' = None
          \<or> (\<exists>m. bt_get ev ''content'' = Some (CObject m)
             \<and> (t = ''m.room.member'' \<and> keep_room_member_third_party_invite_signed rules
                \<and> bt_get m ''third_party_invite'' \<noteq> None
                \<longrightarrow> (\<exists>tpi. bt_get m ''third_party_invite'' = Some (CObject tpi))))))"
    (is "?l \<longleftrightarrow> ?r")
proof -
  have inv: "bt_inv ev" using assms by simp
  have keys: "fst (retained_apply (retained_event_content_keys t rules) rules m) = Inr ()
      \<longleftrightarrow> (t = ''m.room.member'' \<and> keep_room_member_third_party_invite_signed rules
            \<and> bt_get m ''third_party_invite'' \<noteq> None
          \<longrightarrow> (\<exists>tpi. bt_get m ''third_party_invite'' = Some (CObject tpi)))"
    if "bt_inv m" for t m
  proof (cases rule: content_keys_exhaust[of t rules])
    case (keys p)
    then show ?thesis by (simp add: apply_loop_fst key_only_def)
  next
    case member
    have ok: "is_ok (is_room_member_content_key_retained rules k v) \<longleftrightarrow>
      \<not> (k = ''third_party_invite'' \<and> keep_room_member_third_party_invite_signed rules
          \<and> (\<forall>o'. v \<noteq> CObject o'))" for k v
      by (cases v) (auto simp: is_room_member_content_key_retained_def Let_def)
    have "fst (retained_apply (retained_event_content_keys t rules) rules m) = Inr ()
        \<longleftrightarrow> (\<forall>k v. bt_get m k = Some v \<longrightarrow> is_ok (is_room_member_content_key_retained rules k v))"
      using member bt_inv_distinct[OF that] by (auto simp: apply_loop_fst)
    then show ?thesis using member(2) by (auto simp: ok)
  qed (auto simp: retained_event_content_keys_def)
  have wf: "bt_get ev ''content'' = Some (CObject m) \<Longrightarrow> bt_inv m" for m
    using assms by (auto simp: list_all_iff dest!: map_of_SomeD)
  have step: "fst (redact_content_step (retained_event_content_keys t rules) rules ev) = Inr ()
      \<longleftrightarrow> bt_get ev ''content'' = None \<or> (\<exists>m. bt_get ev ''content'' = Some (CObject m)
             \<and> fst (retained_apply (retained_event_content_keys t rules) rules m) = Inr ())" for t
    by (auto simp: redact_content_step_def split: option.splits prod.splits elim: as_object.elims)
  have "?l \<longleftrightarrow> (\<exists>t. bt_get ev ''type'' = Some (CString t)
      \<and> fst (redact_content_step (retained_event_content_keys t rules) rules ev) = Inr ())"
    unfolding is_ok_iff redact_Inr_iff[OF inv] by (metis fst_conv surj_pair)
  also have "\<dots> \<longleftrightarrow> ?r"
    unfolding step
    by (intro ex_cong1 conj_cong disj_cong refl keys) (rule wf)
  finally show ?thesis .
qed

theorem redact_succeeds_iff_witness:
  "is_ok (redact (bt_insert ''hashes'' CNull sample_event) RedactionRules_V11 None)"
proof -
  have "cjson_wf (CObject (bt_insert ''hashes'' CNull sample_event))"
    by (simp add: sample_event_def bt_inv_def)
  from redact_succeeds_iff[OF this] show ?thesis by (simp add: sample_event_def)
qed

end
