(* ===== verification/Signatures.thy ===== *)
theory Signatures
  imports Redaction Example_Room
begin

text \<open>
  Hashes and signatures of events and JSON objects (\<open>core/src/signatures/functions.rs\<close>, with
  \<open>keys.rs\<close>, \<open>verification.rs\<close> and \<open>signatures.rs\<close>).  SHA-256, Ed25519 and base64 are
  third-party code: they are fields of the records \<open>env\<close> and \<open>crypto\<close>.  Operations that
  change an object in place return their result together with the object they leave behind.
\<close>

section \<open>Keys and errors\<close>

record crypto =
  sha256 :: "string \<Rightarrow> string"
  base64_encode :: "string \<Rightarrow> string"
  base64_encode_url_safe :: "string \<Rightarrow> string"
  ed25519_sign :: "string \<Rightarrow> string \<Rightarrow> string"
  ed25519_public :: "string \<Rightarrow> string"

record ed25519_key_pair =
  signing_key :: string
  key_version :: string

type_synonym public_key_set = "(string, string) btree"
type_synonym public_key_map = "(string, public_key_set) btree"

text \<open>\<open>VerifierError\<close> stands for the errors of the Ed25519 library, \<open>SigPanic\<close> for a panic.\<close>

datatype sig_error =
    JsonNotOfType string json_type
  | JsonNotMultiplesOfType string json_type
  | JsonFieldMissing string
  | JsonSerde
  | InvalidBase64Signature string string
  | ParseIdentifier string
  | NoSignaturesForEntity string
  | NoPublicKeysForEntity string
  | NoSupportedSignatureForEntity string
  | VerifierError
  | PduSize
  | SigPanic

fun from_redaction_error :: "redaction_error \<Rightarrow> sig_error" where
  "from_redaction_error (NotOfType field t) = JsonNotOfType field t"
| "from_redaction_error (JsonFieldMissingFromObject field) = JsonFieldMissing field"

datatype verified = VerifiedAll | VerifiedSignatures

section \<open>Reading a key pair\<close>

datatype key_error =
    OidMismatch string string
  | SecretKeyLength
  | DerivedPublicKeyDoesNotMatchParsedKey string string

text \<open>The parts of a decoded PKCS#8 document.\<close>

record private_key_info =
  pki_oid :: string
  pki_private_key :: string
  pki_public_key :: "string option"

definition ED25519_ALGORITHM_OID :: string where "ED25519_ALGORITHM_OID = ''1.3.101.112''"

definition correct_privkey_from_octolet :: "string \<Rightarrow> key_error + string" where
  "correct_privkey_from_octolet key =
     (if length key = 34 \<and> take 2 key = [CHR 0x04, CHR 0x20] then Inr (drop 2 key)
      else if length key = 32 then Inr key
      else Inl SecretKeyLength)"

definition key_pair_new ::
  "crypto \<Rightarrow> string \<Rightarrow> string \<Rightarrow> string option \<Rightarrow> string \<Rightarrow> key_error + ed25519_key_pair" where
  "key_pair_new C oid privkey pubkey version =
     (if oid \<noteq> ED25519_ALGORITHM_OID then Inl (OidMismatch ED25519_ALGORITHM_OID oid) else
      and_then (correct_privkey_from_octolet privkey) (\<lambda>secret_key.
      case pubkey of
        Some oak_key \<Rightarrow>
          if oak_key \<noteq> ed25519_public C secret_key
          then Inl (DerivedPublicKeyDoesNotMatchParsedKey oak_key (ed25519_public C secret_key))
          else Inr \<lparr>signing_key = secret_key, key_version = version\<rparr>
      | None \<Rightarrow> Inr \<lparr>signing_key = secret_key, key_version = version\<rparr>))"

definition from_pkcs8_oak :: "crypto \<Rightarrow> private_key_info \<Rightarrow> string \<Rightarrow> key_error + ed25519_key_pair" where
  "from_pkcs8_oak C oak version = key_pair_new C (pki_oid oak) (pki_private_key oak) (pki_public_key oak) version"

definition from_pkcs8_pki :: "crypto \<Rightarrow> private_key_info \<Rightarrow> string \<Rightarrow> key_error + ed25519_key_pair" where
  "from_pkcs8_pki C oak version = key_pair_new C (pki_oid oak) (pki_private_key oak) None version"

text \<open>A key pair that is read has a 32-byte secret and the public key of the document, where it has one.\<close>

lemma from_pkcs8_oak_Inr:
  "from_pkcs8_oak C oak version = Inr kp \<longleftrightarrow>
     pki_oid oak = ED25519_ALGORITHM_OID \<and> length (signing_key kp) = 32 \<and> key_version kp = version
     \<and> (pki_private_key oak = signing_key kp \<or> pki_private_key oak = CHR 0x04 # CHR 0x20 # signing_key kp)
     \<and> (\<forall>pk. pki_public_key oak = Some pk \<longrightarrow> pk = ed25519_public C (signing_key kp))"
proof -
  have "correct_privkey_from_octolet key = Inr sk \<longleftrightarrow> length sk = 32 \<and> (key = sk \<or> key = CHR 0x04 # CHR 0x20 # sk)" for key sk
    by (cases key; cases "tl key") (auto simp: correct_privkey_from_octolet_def)
  then show ?thesis
    unfolding from_pkcs8_oak_def key_pair_new_def
    by (cases kp; cases "pki_oid oak = ED25519_ALGORITHM_OID"; cases "pki_public_key oak") (auto simp: and_then_Inr_iff)
qed

section \<open>Signing\<close>

definition key_id_of :: "ed25519_key_pair \<Rightarrow> string" where
  "key_id_of kp = key_from_parts ''ed25519'' (key_version kp)"

definition public_key_of :: "crypto \<Rightarrow> ed25519_key_pair \<Rightarrow> string" where
  "public_key_of C kp = ed25519_public C (signing_key kp)"

definition key_pair_sign :: "crypto \<Rightarrow> ed25519_key_pair \<Rightarrow> string \<Rightarrow> string \<times> string" where
  "key_pair_sign C kp message = (key_id_of kp, ed25519_sign C (signing_key kp) message)"

definition add_signature ::
  "crypto \<Rightarrow> env \<Rightarrow> string \<Rightarrow> ed25519_key_pair \<Rightarrow> cobject \<Rightarrow> cobject \<Rightarrow> (sig_error + unit) \<times> cobject" where
  "add_signature C E entity_id kp signature_map obj =
     (let unsigned = bt_get obj ''unsigned''; obj = bt_remove ''unsigned'' obj in
      case to_json_string E obj of
        None \<Rightarrow> (Inl JsonSerde, obj)
      | Some json \<Rightarrow>
          let (key_id, signature) = key_pair_sign C kp json in
          (case as_object (unwrap_or (CObject []) (bt_get signature_map entity_id)) of
             None \<Rightarrow> (Inl (JsonNotMultiplesOfType ''signatures'' TObject), obj)
           | Some signature_set \<Rightarrow>
               let signature_set = bt_insert key_id (CString (base64_encode C signature)) signature_set;
                   obj = bt_insert ''signatures'' (CObject (bt_insert entity_id (CObject signature_set) signature_map)) obj
               in (Inr (), case unsigned of None \<Rightarrow> obj | Some v \<Rightarrow> bt_insert ''unsigned'' v obj)))"

definition sign_json ::
  "crypto \<Rightarrow> env \<Rightarrow> string \<Rightarrow> ed25519_key_pair \<Rightarrow> cobject \<Rightarrow> (sig_error + unit) \<times> cobject" where
  "sign_json C E entity_id kp obj =
     (case bt_get obj ''signatures'' of
        None \<Rightarrow> add_signature C E entity_id kp [] obj
      | Some v \<Rightarrow>
          (case as_object v of
             None \<Rightarrow> (Inl (JsonNotOfType ''signatures'' TObject), bt_remove ''signatures'' obj)
           | Some signatures \<Rightarrow> add_signature C E entity_id kp signatures (bt_remove ''signatures'' obj)))"

section \<open>Hashing\<close>

definition MAX_PDU_BYTES :: nat where "MAX_PDU_BYTES = 65535"

definition limited_json :: "env \<Rightarrow> cobject \<Rightarrow> string list \<Rightarrow> sig_error + string" where
  "limited_json E obj remove =
     and_then (ok_or JsonSerde (to_canonical_json_string_with_fields_to_remove E obj remove)) (\<lambda>json.
     if length json > MAX_PDU_BYTES then Inl PduSize else Inr json)"

text \<open>Evaluated over binary integers.\<close>

lemma limited_json_code [code]:
  "limited_json E obj remove =
     and_then (ok_or JsonSerde (to_canonical_json_string_with_fields_to_remove E obj remove)) (\<lambda>json.
     if 65535 < int (length json) then Inl PduSize else Inr json)"
  by (simp add: limited_json_def MAX_PDU_BYTES_def)

definition content_hash :: "crypto \<Rightarrow> env \<Rightarrow> cobject \<Rightarrow> sig_error + string" where
  "content_hash C E obj = map_ok (sha256 C) (limited_json E obj [''hashes'', ''signatures'', ''unsigned''])"

definition reference_hash :: "crypto \<Rightarrow> env \<Rightarrow> cobject \<Rightarrow> room_version_rules \<Rightarrow> sig_error + string" where
  "reference_hash C E obj rules =
     and_then (map_err from_redaction_error (redact obj (redaction rules) None)) (\<lambda>redacted.
     map_ok (\<lambda>json.
       case event_id_format rules of
         EventIdV3 \<Rightarrow> base64_encode_url_safe C (sha256 C json)
       | _ \<Rightarrow> base64_encode C (sha256 C json))
      (limited_json E redacted [''signatures'', ''unsigned'']))"

definition hash_and_sign_event ::
  "crypto \<Rightarrow> env \<Rightarrow> string \<Rightarrow> ed25519_key_pair \<Rightarrow> cobject \<Rightarrow> redaction_rules \<Rightarrow> (sig_error + unit) \<times> cobject" where
  "hash_and_sign_event C E entity_id kp obj rules =
     (case content_hash C E obj of
        Inl e \<Rightarrow> (Inl e, obj)
      | Inr hash \<Rightarrow>
          (case as_object (unwrap_or (CObject []) (bt_get obj ''hashes'')) of
             None \<Rightarrow> (Inl (JsonNotOfType ''hashes'' TObject), obj)
           | Some hashes \<Rightarrow>
               let obj = bt_insert ''hashes'' (CObject (bt_insert ''sha256'' (CString (base64_encode C hash)) hashes)) obj in
               (case redact obj rules None of
                  Inl e \<Rightarrow> (Inl (from_redaction_error e), obj)
                | Inr redacted \<Rightarrow>
                    (case sign_json C E entity_id kp redacted of
                       (Inl e, _) \<Rightarrow> (Inl e, obj)
                     | (Inr _, redacted) \<Rightarrow>
                         (case bt_get redacted ''signatures'' of
                            None \<Rightarrow> (Inl (JsonNotOfType ''signatures'' TObject), obj)
                          | Some signatures \<Rightarrow> (Inr (), bt_insert ''signatures'' signatures obj))))))"

section \<open>Verifying\<close>

definition verify_signature ::
  "env \<Rightarrow> string \<Rightarrow> public_key_set \<Rightarrow> string \<Rightarrow> bool \<Rightarrow> string \<times> cjson \<Rightarrow> sig_error + bool" where
  "verify_signature E entity_id public_keys json checked entry =
     (case bt_get public_keys (fst entry) of
        None \<Rightarrow> Inr checked
      | Some public_key \<Rightarrow>
          (case key_id_validate any_key_name_validate (fst entry) of
             Inl Panic \<Rightarrow> Inl SigPanic
           | Inl (Err _) \<Rightarrow> Inr checked
           | Inr _ \<Rightarrow>
               and_then (map_err (\<lambda>_. SigPanic) (key_algorithm (fst entry))) (\<lambda>algorithm.
               if algorithm \<noteq> ''ed25519'' then Inr checked else
               and_then (ok_or (JsonNotOfType ''signature'' TString) (as_str (snd entry))) (\<lambda>signature.
               and_then (ok_or (InvalidBase64Signature entity_id (fst entry)) (base64_standard E signature)) (\<lambda>bytes.
               if ed25519_verify E public_key bytes json then Inr True else Inl VerifierError)))))"

definition verify_canonical_json_for_entity ::
  "env \<Rightarrow> string \<Rightarrow> public_key_map \<Rightarrow> cobject \<Rightarrow> string \<Rightarrow> sig_error + unit" where
  "verify_canonical_json_for_entity E entity_id public_key_map signature_map json =
     and_then
       (case bt_get signature_map entity_id of
          None \<Rightarrow> Inl (NoSignaturesForEntity entity_id)
        | Some v \<Rightarrow> ok_or (JsonNotMultiplesOfType ''signature sets'' TObject) (as_object v)) (\<lambda>signature_set.
     and_then (ok_or (NoPublicKeysForEntity entity_id) (bt_get public_key_map entity_id)) (\<lambda>public_keys.
     and_then (fold_result (verify_signature E entity_id public_keys json) False signature_set) (\<lambda>checked.
     if checked then Inr () else Inl (NoSupportedSignatureForEntity entity_id))))"

definition required_object :: "cobject \<Rightarrow> string \<Rightarrow> sig_error + cobject" where
  "required_object obj field =
     (case bt_get obj field of
        None \<Rightarrow> Inl (JsonFieldMissing field)
      | Some v \<Rightarrow> ok_or (JsonNotOfType field TObject) (as_object v))"

definition required_string :: "cobject \<Rightarrow> string \<Rightarrow> sig_error + string" where
  "required_string obj field =
     (case bt_get obj field of
        None \<Rightarrow> Inl (JsonFieldMissing field)
      | Some v \<Rightarrow> ok_or (JsonNotOfType field TString) (as_str v))"

definition verify_json :: "env \<Rightarrow> public_key_map \<Rightarrow> cobject \<Rightarrow> sig_error + unit" where
  "verify_json E public_key_map obj =
     and_then (required_object obj ''signatures'') (\<lambda>signature_map.
     and_then (ok_or JsonSerde (to_canonical_json_string_for_signing E obj)) (\<lambda>json.
     each_ok (\<lambda>entity_id. verify_canonical_json_for_entity E entity_id public_key_map signature_map json)
       (map fst signature_map)))"

definition is_invite_via_third_party_id :: "cobject \<Rightarrow> sig_error + bool" where
  "is_invite_via_third_party_id obj =
     and_then (ok_or (JsonNotOfType ''type'' TString) (Option.bind (bt_get obj ''type'') as_str)) (\<lambda>raw_type.
     if raw_type \<noteq> ''m.room.member'' then Inr False else
     and_then (ok_or (JsonNotOfType ''content'' TObject) (Option.bind (bt_get obj ''content'') as_object)) (\<lambda>content.
     and_then (ok_or (JsonNotOfType ''membership'' TString) (Option.bind (bt_get content ''membership'') as_str)) (\<lambda>membership.
     if membership \<noteq> ''invite'' then Inr False else
     case bt_get content ''third_party_invite'' of
       None \<Rightarrow> Inr False
     | Some v \<Rightarrow> map_ok (\<lambda>_. True) (ok_or (JsonNotOfType ''third_party_invite'' TObject) (as_object v)))))"

text \<open>A \<open>BTreeSet\<close> is the sorted list of its elements.\<close>

definition bset_insert :: "string \<Rightarrow> string list \<Rightarrow> string list" where
  "bset_insert x xs = (if x \<in> set xs then xs else insort x xs)"

definition user_server :: "string \<Rightarrow> sig_error + string" where
  "user_server u =
     and_then (map_err (\<lambda>_. ParseIdentifier ''user ID'') (user_id_validate u)) (\<lambda>_.
     map_err (\<lambda>_. SigPanic) (user_server_name u))"

definition servers_to_check_signatures :: "cobject \<Rightarrow> signatures_rules \<Rightarrow> sig_error + string list" where
  "servers_to_check_signatures obj rules =
     and_then (is_invite_via_third_party_id obj) (\<lambda>third_party.
     and_then
       (if third_party then Inr []
        else and_then (required_string obj ''sender'') (\<lambda>sender.
             map_ok (\<lambda>server. bset_insert server []) (user_server sender))) (\<lambda>servers.
     and_then
       (if check_event_id_server rules
        then and_then (required_string obj ''event_id'') (\<lambda>raw.
             and_then (map_err (\<lambda>_. ParseIdentifier ''event ID'') (event_id_validate raw)) (\<lambda>_.
             map_ok (\<lambda>server. bset_insert server servers)
               (ok_or (ParseIdentifier ''event ID'') (event_server_name raw))))
        else Inr servers) (\<lambda>servers.
     if check_join_authorised_via_users_server rules
     then case Option.bind (Option.bind (bt_get obj ''content'') as_object)
                 (\<lambda>c. bt_get c ''join_authorised_via_users_server'') of
            None \<Rightarrow> Inr servers
          | Some v \<Rightarrow>
              and_then (ok_or (JsonNotOfType ''join_authorised_via_users_server'' TString) (as_str v)) (\<lambda>u.
              if is_ok (user_id_validate u)
              then map_ok (\<lambda>server. bset_insert server servers) (user_server u)
              else Inr servers)
     else Inr servers)))"

definition verify_event ::
  "crypto \<Rightarrow> env \<Rightarrow> public_key_map \<Rightarrow> cobject \<Rightarrow> room_version_rules \<Rightarrow> sig_error + verified" where
  "verify_event C E public_key_map obj rules =
     and_then (map_err from_redaction_error (redact obj (redaction rules) None)) (\<lambda>redacted.
     and_then
       (case bt_get obj ''hashes'' of
          None \<Rightarrow> Inl (JsonFieldMissing ''hashes'')
        | Some hashes_value \<Rightarrow>
            (case as_object hashes_value of
               None \<Rightarrow> Inl (JsonFieldMissing ''sha256'')
             | Some hashes \<Rightarrow>
                 (case bt_get hashes ''sha256'' of
                    None \<Rightarrow> Inl (JsonNotOfType ''hashes'' TObject)
                  | Some hash_value \<Rightarrow> ok_or (JsonNotOfType ''sha256 hash'' TString) (as_str hash_value)))) (\<lambda>hash.
     and_then (required_object obj ''signatures'') (\<lambda>signature_map.
     and_then (servers_to_check_signatures obj (signatures_r rules)) (\<lambda>servers.
     and_then (ok_or JsonSerde (to_canonical_json_string_for_signing E redacted)) (\<lambda>json.
     and_then (each_ok (\<lambda>entity_id. verify_canonical_json_for_entity E entity_id public_key_map signature_map json)
       servers) (\<lambda>_.
     and_then (content_hash C E obj) (\<lambda>calculated.
     Inr (if base64_standard E hash = Some calculated then VerifiedAll else VerifiedSignatures))))))))"

section \<open>Keys to fetch and policy servers\<close>

fun signing_key_ids :: "env \<Rightarrow> string list \<Rightarrow> sig_error + string list" where
  "signing_key_ids E [] = Inr []"
| "signing_key_ids E (k # ks) =
     (case key_id_validate (server_signing_key_version_validate (unicode_alnum E)) k of
        Inl Panic \<Rightarrow> Inl SigPanic
      | Inl (Err _) \<Rightarrow> signing_key_ids E ks
      | Inr _ \<Rightarrow> map_ok (\<lambda>ids. k # ids) (signing_key_ids E ks))"

definition required_keys ::
  "env \<Rightarrow> cobject \<Rightarrow> room_version_rules \<Rightarrow> sig_error + (string, string list) btree" where
  "required_keys E obj rules =
     (case Option.bind (bt_get obj ''signatures'') as_object of
        None \<Rightarrow> Inr []
      | Some signatures \<Rightarrow>
          and_then (servers_to_check_signatures obj (signatures_r rules)) (\<lambda>servers.
          fold_result (\<lambda>keys server.
            case Option.bind (bt_get signatures server) as_object of
              None \<Rightarrow> Inr keys
            | Some entries \<Rightarrow> map_ok (\<lambda>ids. bt_insert server (unwrap_or [] (bt_get keys server) @ ids) keys)
                           (signing_key_ids E (map fst entries))) [] servers))"

definition POLICY_SERVER_ED25519_SIGNING_KEY_ID :: string where
  "POLICY_SERVER_ED25519_SIGNING_KEY_ID = ''ed25519:policy_server''"

record room_policy_event_content =
  policy_via :: string
  policy_public_keys :: "(string, string) btree"

definition verify_policy_server_signature ::
  "env \<Rightarrow> room_policy_event_content \<Rightarrow> cobject \<Rightarrow> room_version_rules \<Rightarrow> sig_error + unit" where
  "verify_policy_server_signature E policy obj rules =
     and_then (required_string obj ''type'') (\<lambda>event_type.
     if event_type = ''m.room.policy'' \<and> bt_get obj ''state_key'' = Some (CString '''') then Inr () else
     and_then (map_err from_redaction_error (redact obj (redaction rules) None)) (\<lambda>redacted.
     and_then (ok_or JsonSerde (to_canonical_json_string_for_signing E redacted)) (\<lambda>json.
     and_then (required_object obj ''signatures'') (\<lambda>signature_map.
     and_then (ok_or (NoSupportedSignatureForEntity (policy_via policy)) (bt_get (policy_public_keys policy) ''ed25519''))
       (\<lambda>public_key.
     verify_canonical_json_for_entity E (policy_via policy)
       [(policy_via policy, [(POLICY_SERVER_ED25519_SIGNING_KEY_ID, public_key)])] signature_map json)))))"

section \<open>Fields that are not signed\<close>

lemma fold_bt_remove: "fold bt_remove ks m = filter (\<lambda>e. fst e \<notin> set ks) m"
  by (induction ks arbitrary: m) (simp_all add: bt_remove_def conj_commute)

lemma filter_bt_insert: "\<not> Q k \<Longrightarrow> filter (\<lambda>e. Q (fst e)) (bt_insert k v m) = filter (\<lambda>e. Q (fst e)) m"
  by (induction m) auto

lemma without_fields_insert:
  "k \<in> set ks \<Longrightarrow> to_canonical_json_string_with_fields_to_remove E (bt_insert k v m) ks
     = to_canonical_json_string_with_fields_to_remove E m ks"
  by (simp add: to_canonical_json_string_with_fields_to_remove_def fold_bt_remove
      filter_bt_insert[where Q = "\<lambda>x. x \<notin> set ks"])

lemma bt_insert_commute:
  "bt_inv m \<Longrightarrow> k \<noteq> k' \<Longrightarrow> bt_insert k v (bt_insert k' v' m) = bt_insert k' v' (bt_insert k v m)"
  by (rule bt_inv_ext) (auto simp: bt_simps)

lemma filter_keeps_insert:
  "bt_inv m \<Longrightarrow> Q k \<Longrightarrow> filter (\<lambda>e. Q (fst e)) (bt_insert k v m) = bt_insert k v (filter (\<lambda>e. Q (fst e)) m)"
  by (rule bt_inv_ext) (auto simp: bt_simps bt_inv_filter bt_get_filter_key)

lemma content_step_insert:
  assumes "bt_inv ev" "k \<noteq> ''content''" "redact_content_step keys rules ev = (Inr (), ev1)"
  shows "redact_content_step keys rules (bt_insert k v ev) = (Inr (), bt_insert k v ev1)"
proof (cases "bt_get ev ''content''")
  case None
  with assms show ?thesis by (simp add: redact_content_step_def bt_get_insert)
next
  case (Some c)
  with assms(3) obtain content content' where c: "as_object c = Some content"
    "retained_apply keys rules content = (Inr (), content')" "ev1 = bt_insert ''content'' (CObject content') ev"
    by (auto simp: redact_content_step_def split: option.splits prod.splits)
  with Some assms(1,2) show ?thesis
    by (simp add: redact_content_step_def bt_get_insert bt_insert_commute[OF assms(1), of "''content''" k])
qed

lemma redact_insert:
  assumes "bt_inv ev" "is_event_key_retained rules k" "k \<noteq> ''content''" "k \<noteq> ''type''"
    and "redact ev rules None = Inr r"
  shows "redact (bt_insert k v ev) rules None = Inr (bt_insert k v r)"
proof -
  from assms(5) obtain t ev1 where t: "bt_get ev ''type'' = Some (CString t)"
    "redact_content_step (retained_event_content_keys t rules) rules ev = (Inr (), ev1)"
    "r = filter (\<lambda>e. is_event_key_retained rules (fst e)) ev1"
    unfolding redact_Inr_iff[OF assms(1)] add_because_def by auto
  note i = conjunct1[OF redact_content_step_inv[OF assms(1) t(2)]]
  from content_step_insert[OF assms(1,3) t(2), of v] filter_keeps_insert[where Q = "is_event_key_retained rules", OF i assms(2)] t
  show ?thesis
    unfolding redact_Inr_iff[OF bt_inv_insert[OF assms(1)]]
    using assms(1,4) by (intro exI[of _ t] exI[of _ "bt_insert k v ev1"]) (simp add: bt_get_insert add_because_def)
qed

section \<open>A signature verifies\<close>

lemma key_id_of_valid:
  assumes "key_version kp = [] \<or> byte (hd (key_version kp)) < 128"
  shows "key_id_validate any_key_name_validate (key_id_of kp) = Inr 7" "key_algorithm (key_id_of kp) = Inr ''ed25519''"
proof -
  have "is_char_boundary (''ed25519'' @ CHR '':'' # key_version kp) 8"
    using assms by (cases "key_version kp") (simp_all add: is_char_boundary_def numeral_eq_Suc)
  then show "key_id_validate any_key_name_validate (key_id_of kp) = Inr 7"
    by (simp add: key_id_of_def key_from_parts_def key_id_validate_def any_key_name_validate_def as_u8_mod str_find_append)
  show "key_algorithm (key_id_of kp) = Inr ''ed25519''"
    using colon_idx_concat[of "''ed25519''" "key_version kp"]
    by (simp add: key_id_of_def key_from_parts_def key_algorithm_def)
qed

definition crypto_ok :: "crypto \<Rightarrow> env \<Rightarrow> bool" where
  "crypto_ok C E \<longleftrightarrow>
     (\<forall>sk m. ed25519_verify E (ed25519_public C sk) (ed25519_sign C sk m) m)
     \<and> (\<forall>x. base64_standard E (base64_encode C x) = Some x)"

lemma verify_own_signature:
  assumes "crypto_ok C E" "key_version kp = [] \<or> byte (hd (key_version kp)) < 128"
    and "\<forall>e\<in>set entries. fst e = key_id_of kp \<longrightarrow> snd e = CString (base64_encode C (ed25519_sign C (signing_key kp) json))"
  shows "fold_result (verify_signature E entity [(key_id_of kp, public_key_of C kp)] json) c entries
    = Inr (c \<or> key_id_of kp \<in> fst ` set entries)"
  using assms(3)
proof (induction entries arbitrary: c)
  case (Cons e entries)
  have "verify_signature E entity [(key_id_of kp, public_key_of C kp)] json c e = Inr (c \<or> key_id_of kp = fst e)"
  proof (cases "fst e = key_id_of kp")
    case True
    with Cons.prems have s: "snd e = CString (base64_encode C (ed25519_sign C (signing_key kp) json))" by simp
    show ?thesis
      unfolding verify_signature_def True s using key_id_of_valid[OF assms(2)] assms(1)
      by (simp add: crypto_ok_def public_key_of_def)
  qed (simp add: verify_signature_def)
  with Cons show ?case by (auto simp: image_iff)
qed simp

lemma remove_absent: "bt_get m k = None \<Longrightarrow> bt_remove k m = m"
  by (auto simp: bt_remove_def map_of_eq_None_iff intro!: filter_True)

lemma for_signing_eq:
  "to_canonical_json_string_for_signing E obj = to_json_string E (bt_remove ''unsigned'' (bt_remove ''signatures'' obj))"
  by (simp add: to_canonical_json_string_for_signing_def to_canonical_json_string_with_fields_to_remove_def)

text \<open>The signatures of an object that \<open>sign_json\<close> leaves behind.\<close>

definition signed_by :: "crypto \<Rightarrow> string \<Rightarrow> ed25519_key_pair \<Rightarrow> string \<Rightarrow> cobject \<Rightarrow> bool" where
  "signed_by C entity_id kp json sigs \<longleftrightarrow>
     (\<exists>entries. bt_get sigs entity_id = Some (CObject entries) \<and> key_id_of kp \<in> fst ` set entries
        \<and> (\<forall>e\<in>set entries. fst e = key_id_of kp
             \<longrightarrow> snd e = CString (base64_encode C (ed25519_sign C (signing_key kp) json))))"

lemma cjson_wf_get: "cjson_wf (CObject m) \<Longrightarrow> bt_get m k = Some v \<Longrightarrow> cjson_wf v"
  by (auto simp: list_all_iff dest!: map_of_SomeD)

lemma as_object_Some: "as_object v = Some m \<longleftrightarrow> v = CObject m"
  by (cases v) auto

lemma add_signature_Inr:
  assumes "bt_inv obj" "cjson_wf (CObject sm)" "add_signature C E entity_id kp sm obj = (Inr (), obj')"
  shows "\<exists>json sigs. to_json_string E (bt_remove ''unsigned'' obj) = Some json
    \<and> bt_get obj' ''signatures'' = Some (CObject sigs) \<and> signed_by C entity_id kp json sigs"
proof -
  let ?o = "bt_remove ''unsigned'' obj"
  let ?entry = "\<lambda>json. CString (base64_encode C (ed25519_sign C (signing_key kp) json))"
  from assms(3) obtain json entries where j: "to_json_string E ?o = Some json"
    "unwrap_or (CObject []) (bt_get sm entity_id) = CObject entries"
    "obj' = (let o' = bt_insert ''signatures''
        (CObject (bt_insert entity_id (CObject (bt_insert (key_id_of kp) (?entry json) entries)) sm)) ?o
      in case bt_get obj ''unsigned'' of None \<Rightarrow> o' | Some v \<Rightarrow> bt_insert ''unsigned'' v o')"
    by (auto simp: add_signature_def key_pair_sign_def Let_def as_object_Some split: option.splits)
  have "bt_inv entries"
    using j(2) cjson_wf_get[OF assms(2), of entity_id] by (cases "bt_get sm entity_id") auto
  then have i: "bt_inv (bt_insert (key_id_of kp) (?entry json) entries)"
    "bt_get (bt_insert (key_id_of kp) (?entry json) entries) (key_id_of kp) = Some (?entry json)"
    by (simp_all add: bt_simps)
  have "snd e = ?entry json" if "e \<in> set (bt_insert (key_id_of kp) (?entry json) entries)" "fst e = key_id_of kp" for e
    using bt_inv_set[OF i(1), of "fst e" "snd e"] that i(2) by (cases e) simp
  moreover have "key_id_of kp \<in> fst ` set (bt_insert (key_id_of kp) (?entry json) entries)"
    using bt_insert_keys[of "key_id_of kp" "?entry json" entries] by simp
  ultimately have "signed_by C entity_id kp json
      (bt_insert entity_id (CObject (bt_insert (key_id_of kp) (?entry json) entries)) sm)"
    using assms(2) by (simp add: signed_by_def bt_simps)
  moreover have "bt_get obj' ''signatures'' = Some (CObject (bt_insert entity_id
      (CObject (bt_insert (key_id_of kp) (?entry json) entries)) sm))"
    unfolding j(3) using bt_inv_remove[OF assms(1)]
    by (simp add: Let_def bt_simps split: option.split)
  ultimately show ?thesis using j(1) by blast
qed

lemma sign_json_Inr:
  assumes "bt_inv obj" "\<forall>v. bt_get obj ''signatures'' = Some v \<longrightarrow> cjson_wf v"
    and "sign_json C E entity_id kp obj = (Inr (), obj')"
  shows "\<exists>json sigs. to_canonical_json_string_for_signing E obj = Some json
    \<and> bt_get obj' ''signatures'' = Some (CObject sigs) \<and> signed_by C entity_id kp json sigs"
proof (cases "bt_get obj ''signatures''")
  case None
  with assms(3) have "add_signature C E entity_id kp [] obj = (Inr (), obj')" by (simp add: sign_json_def)
  from add_signature_Inr[OF _ _ this] assms(1) remove_absent[OF None] show ?thesis
    by (simp add: for_signing_eq)
next
  case (Some v)
  with assms(3) obtain sm where sm: "v = CObject sm"
    "add_signature C E entity_id kp sm (bt_remove ''signatures'' obj) = (Inr (), obj')"
    by (auto simp: sign_json_def as_object_Some split: option.splits)
  from add_signature_Inr[OF _ _ sm(2)] assms(1,2) Some sm(1) show ?thesis
    by (simp add: for_signing_eq bt_inv_remove)
qed

lemma signed_by_verifies:
  assumes "crypto_ok C E" "key_version kp = [] \<or> byte (hd (key_version kp)) < 128"
    and "signed_by C entity_id kp json sigs" "bt_get keys entity_id = Some [(key_id_of kp, public_key_of C kp)]"
  shows "verify_canonical_json_for_entity E entity_id keys sigs json = Inr ()"
proof -
  from assms(3) obtain entries where e: "bt_get sigs entity_id = Some (CObject entries)"
    "key_id_of kp \<in> fst ` set entries"
    "\<forall>e\<in>set entries. fst e = key_id_of kp \<longrightarrow> snd e = CString (base64_encode C (ed25519_sign C (signing_key kp) json))"
    by (auto simp: signed_by_def)
  from verify_own_signature[OF assms(1,2) e(3), of entity_id False] e(1,2) assms(4) show ?thesis
    by (simp add: verify_canonical_json_for_entity_def)
qed

section \<open>Hashing, signing and verifying an event\<close>

lemma servers_to_check_cong:
  assumes "\<forall>k\<in>{''type'', ''content'', ''sender'', ''event_id''}. bt_get obj k = bt_get obj' k"
  shows "servers_to_check_signatures obj rules = servers_to_check_signatures obj' rules"
proof -
  from assms have "bt_get obj ''type'' = bt_get obj' ''type''" "bt_get obj ''content'' = bt_get obj' ''content''"
    "bt_get obj ''sender'' = bt_get obj' ''sender''" "bt_get obj ''event_id'' = bt_get obj' ''event_id''" by simp_all
  then show ?thesis
    by (simp only: servers_to_check_signatures_def is_invite_via_third_party_id_def required_string_def)
qed

lemma redact_get:
  assumes "bt_inv ev" "redact ev rules None = Inr r" "k \<noteq> ''content''"
  shows "bt_inv r" "bt_get r k = (if is_event_key_retained rules k then bt_get ev k else None)"
proof -
  from assms(2) obtain t ev1 where t: "redact_content_step (retained_event_content_keys t rules) rules ev = (Inr (), ev1)"
    "r = filter (\<lambda>e. is_event_key_retained rules (fst e)) ev1"
    unfolding redact_Inr_iff[OF assms(1)] add_because_def by auto
  note i = redact_content_step_inv[OF assms(1) t(1)]
  from i t(2) show "bt_inv r" by (simp add: bt_inv_filter)
  from i t(2) assms(3) show "bt_get r k = (if is_event_key_retained rules k then bt_get ev k else None)"
    by (simp add: bt_get_filter_key[where P = "is_event_key_retained rules"])
qed

lemma content_hash_insert:
  "k \<in> {''hashes'', ''signatures'', ''unsigned''} \<Longrightarrow> content_hash C E (bt_insert k v obj) = content_hash C E obj"
  by (simp add: content_hash_def limited_json_def without_fields_insert)

lemma for_signing_insert:
  "k \<in> {''signatures'', ''unsigned''} \<Longrightarrow>
     to_canonical_json_string_for_signing E (bt_insert k v obj) = to_canonical_json_string_for_signing E obj"
  by (simp add: to_canonical_json_string_for_signing_def without_fields_insert)

text \<open>What a successful call of \<open>hash_and_sign_event\<close> did.\<close>

lemma hash_and_sign_event_Inr:
  assumes "cjson_wf (CObject obj)" "hash_and_sign_event C E entity_id kp obj rules = (Inr (), obj')"
  shows "\<exists>hash hashes redacted json sigs. content_hash C E obj = Inr hash
    \<and> obj' = bt_insert ''signatures'' (CObject sigs)
        (bt_insert ''hashes'' (CObject (bt_insert ''sha256'' (CString (base64_encode C hash)) hashes)) obj)
    \<and> bt_inv hashes
    \<and> redact (bt_insert ''hashes'' (CObject (bt_insert ''sha256'' (CString (base64_encode C hash)) hashes)) obj) rules None
        = Inr redacted
    \<and> to_canonical_json_string_for_signing E redacted = Some json \<and> signed_by C entity_id kp json sigs"
proof -
  from assms(2) obtain hash hashes where h: "content_hash C E obj = Inr hash"
    "as_object (unwrap_or (CObject []) (bt_get obj ''hashes'')) = Some hashes"
    by (auto simp: hash_and_sign_event_def split: sum.splits option.splits)
  let ?obj = "bt_insert ''hashes'' (CObject (bt_insert ''sha256'' (CString (base64_encode C hash)) hashes)) obj"
  from assms(2) h obtain redacted signed sigs where r: "redact ?obj rules None = Inr redacted"
    "sign_json C E entity_id kp redacted = (Inr (), signed)" "bt_get signed ''signatures'' = Some sigs"
    "obj' = bt_insert ''signatures'' sigs ?obj"
    by (auto simp: hash_and_sign_event_def Let_def split: sum.splits option.splits prod.splits)
  have inv: "bt_inv ?obj" using assms(1) by (simp add: bt_inv_insert)
  have "bt_get redacted ''signatures'' = bt_get obj ''signatures''"
    using redact_get(2)[OF inv r(1), of "''signatures''"] assms(1)
    by (simp add: is_event_key_retained_def bt_get_insert)
  with cjson_wf_get[OF assms(1), of "''signatures''"]
  have "\<forall>v. bt_get redacted ''signatures'' = Some v \<longrightarrow> cjson_wf v" by simp
  from sign_json_Inr[OF redact_get(1)[OF inv r(1), of "''type''"] this r(2)] r(3) obtain json sigs' where
    s: "to_canonical_json_string_for_signing E redacted = Some json" "sigs = CObject sigs'"
      "signed_by C entity_id kp json sigs'" by auto
  have "bt_inv hashes"
    using h(2) cjson_wf_get[OF assms(1), of "''hashes''"]
    by (cases "bt_get obj ''hashes''") (auto simp: as_object_Some)
  with h(1) r s show ?thesis by blast
qed

section \<open>What a verification establishes\<close>

text \<open>A known key of the entity has a signature over the JSON that verifies.\<close>

definition entity_signature :: "env \<Rightarrow> string \<Rightarrow> public_key_map \<Rightarrow> cobject \<Rightarrow> string \<Rightarrow> bool" where
  "entity_signature E entity_id keys sigs json \<longleftrightarrow>
     (\<exists>entries public_keys key_id pk signature bytes. bt_get sigs entity_id = Some (CObject entries)
        \<and> bt_get keys entity_id = Some public_keys \<and> bt_get public_keys key_id = Some pk
        \<and> (key_id, CString signature) \<in> set entries \<and> base64_standard E signature = Some bytes
        \<and> ed25519_verify E pk bytes json)"

lemma as_str_Some: "as_str v = Some s \<longleftrightarrow> v = CString s"
  by (cases v) auto

lemma verify_signature_True:
  assumes "verify_signature E entity_id public_keys json False e = Inr True"
  shows "\<exists>pk signature bytes. bt_get public_keys (fst e) = Some pk \<and> snd e = CString signature
    \<and> base64_standard E signature = Some bytes \<and> ed25519_verify E pk bytes json"
  using assms
  by (auto simp: verify_signature_def res_simps as_str_Some split: option.splits sum.splits fault.splits if_splits)

lemma verify_signatures_True:
  "fold_result (verify_signature E entity_id public_keys json) False entries = Inr True \<Longrightarrow>
     \<exists>e\<in>set entries. verify_signature E entity_id public_keys json False e = Inr True"
proof (induction entries)
  case (Cons e entries)
  from Cons.prems obtain c where c: "verify_signature E entity_id public_keys json False e = Inr c"
    "fold_result (verify_signature E entity_id public_keys json) c entries = Inr True" by (auto simp: res_simps)
  with Cons.IH show ?case by (cases c) auto
qed simp

lemma verify_for_entity_Inr:
  assumes "verify_canonical_json_for_entity E entity_id keys sigs json = Inr ()"
  shows "entity_signature E entity_id keys sigs json"
proof -
  from assms obtain entries public_keys where e: "bt_get sigs entity_id = Some (CObject entries)"
    "bt_get keys entity_id = Some public_keys"
    "fold_result (verify_signature E entity_id public_keys json) False entries = Inr True"
    by (auto simp: verify_canonical_json_for_entity_def res_simps as_object_Some split: option.splits if_splits)
  from verify_signatures_True[OF e(3)] verify_signature_True obtain k v pk s b where
    "(k, v) \<in> set entries" "bt_get public_keys k = Some pk" "v = CString s" "base64_standard E s = Some b"
    "ed25519_verify E pk b json" by fastforce
  with e(1,2) show ?thesis unfolding entity_signature_def by blast
qed

lemma bset_insert_set [simp]: "set (bset_insert x xs) = insert x (set xs)"
  by (auto simp: bset_insert_def set_insort_key)

lemma required_string_Inr: "required_string obj field = Inr s \<longleftrightarrow> bt_get obj field = Some (CString s)"
  by (simp add: required_string_def res_simps as_str_Some split: option.split)

lemma required_object_Inr: "required_object obj field = Inr m \<longleftrightarrow> bt_get obj field = Some (CObject m)"
  by (simp add: required_object_def res_simps as_object_Some split: option.split)

lemma servers_to_check_sender:
  assumes "servers_to_check_signatures obj rules = Inr servers" "is_invite_via_third_party_id obj = Inr False"
  shows "\<exists>u s. bt_get obj ''sender'' = Some (CString u) \<and> user_server u = Inr s \<and> s \<in> set servers"
proof -
  let ?event_id = "\<lambda>servers. if check_event_id_server rules
        then and_then (required_string obj ''event_id'') (\<lambda>raw.
             and_then (map_err (\<lambda>_. ParseIdentifier ''event ID'') (event_id_validate raw)) (\<lambda>_.
             map_ok (\<lambda>server. bset_insert server servers)
               (ok_or (ParseIdentifier ''event ID'') (event_server_name raw))))
        else Inr servers"
  let ?via = "\<lambda>servers. if check_join_authorised_via_users_server rules
     then case Option.bind (Option.bind (bt_get obj ''content'') as_object)
                 (\<lambda>c. bt_get c ''join_authorised_via_users_server'') of
            None \<Rightarrow> Inr servers
          | Some v \<Rightarrow>
              and_then (ok_or (JsonNotOfType ''join_authorised_via_users_server'' TString) (as_str v)) (\<lambda>u.
              if is_ok (user_id_validate u)
              then map_ok (\<lambda>server. bset_insert server servers) (user_server u)
              else Inr servers)
     else Inr servers"
  have "and_then (and_then (required_string obj ''sender'') (\<lambda>sender. map_ok (\<lambda>server. bset_insert server []) (user_server sender)))
         (\<lambda>servers. and_then (?event_id servers) ?via) = Inr servers"
    using assms(1) unfolding servers_to_check_signatures_def assms(2) and_then_simps if_False .
  then obtain u servers0 servers1 where s: "required_string obj ''sender'' = Inr u"
     "map_ok (\<lambda>server. bset_insert server []) (user_server u) = Inr servers0"
     "?event_id servers0 = Inr servers1" "?via servers1 = Inr servers"
    by (elim and_then_InrE)
  from s(2) obtain x where u: "user_server u = Inr x" "servers0 = bset_insert x []"
    unfolding map_ok_Inr_iff by blast
  have "x \<in> set servers1" using s(3) unfolding u(2) by (auto simp: res_simps split: if_splits)
  then have "x \<in> set servers"
    using s(4) by (auto simp: res_simps split: if_splits option.splits)
  with s(1) u(1) show ?thesis by (simp add: required_string_Inr)
qed

lemma redact_insert_dropped:
  assumes "bt_inv ev" "\<not> is_event_key_retained rules k" "redact ev rules None = Inr r"
  shows "redact (bt_insert k v ev) rules None = Inr r"
proof -
  from assms(2) have k: "k \<noteq> ''content''" "k \<noteq> ''type''" by auto
  from assms(3) obtain t ev1 where t: "bt_get ev ''type'' = Some (CString t)"
    "redact_content_step (retained_event_content_keys t rules) rules ev = (Inr (), ev1)"
    "r = filter (\<lambda>e. is_event_key_retained rules (fst e)) ev1"
    unfolding redact_Inr_iff[OF assms(1)] add_because_def by auto
  have "filter (\<lambda>e. is_event_key_retained rules (fst e)) (bt_insert k v ev1) = r"
    unfolding t(3) using assms(2) by (rule filter_bt_insert)
  moreover have "bt_get (bt_insert k v ev) ''type'' = Some (CString t)"
    using t(1) assms(1) k(2) by (simp add: bt_get_insert)
  ultimately show ?thesis
    unfolding redact_Inr_iff[OF bt_inv_insert[OF assms(1)]] add_because_def
    using content_step_insert[OF assms(1) k(1) t(2), of v] by auto
qed

lemma redact_without_reason:
  assumes "cjson_wf (CObject ev)" "redact ev rules b = Inr ev'"
  shows "\<exists>r. redact ev rules None = Inr r \<and> redact ev' rules None = Inr r"
proof -
  have inv: "bt_inv ev" using assms(1) by simp
  from assms(2) obtain t ev1 where t: "bt_get ev ''type'' = Some (CString t)"
    "redact_content_step (retained_event_content_keys t rules) rules ev = (Inr (), ev1)"
    "ev' = add_because b (filter (\<lambda>e. is_event_key_retained rules (fst e)) ev1)"
    unfolding redact_Inr_iff[OF inv] by blast
  let ?r = "filter (\<lambda>e. is_event_key_retained rules (fst e)) ev1"
  from t have r: "redact ev rules None = Inr ?r" unfolding redact_Inr_iff[OF inv] by (auto simp: add_because_def)
  from redact_get(1)[OF inv r, of "''type''"] have i: "bt_inv ?r" by simp
  have "redact ev' rules None = Inr ?r"
    unfolding t(3) using redact_twice[OF assms(1) r] redact_insert_dropped[OF i, of rules "''unsigned''" ?r]
    by (cases b) (simp_all add: add_because_def)
  with r show ?thesis by blast
qed

text \<open>\<open>verify_json\<close> goes through the entities that signed the object, so an object nobody signed is accepted
  whatever keys are expected.\<close>

lemma verify_json_unsigned:
  "bt_get obj ''signatures'' = Some (CObject []) \<Longrightarrow> to_canonical_json_string_for_signing E obj = Some json
     \<Longrightarrow> verify_json E keys obj = Inr ()"
  by (simp add: verify_json_def required_object_def each_ok_def)

text \<open>An event other than the policy event itself passes only with a signature of the policy server, by the key
  the policy event names, over the redacted event.\<close>

lemma verify_policy_server_signature_Inr:
  assumes "verify_policy_server_signature E policy obj rules = Inr ()"
    and "bt_get obj ''type'' \<noteq> Some (CString ''m.room.policy'') \<or> bt_get obj ''state_key'' \<noteq> Some (CString '''')"
  shows "\<exists>redacted json sigs pk. redact obj (redaction rules) None = Inr redacted
    \<and> to_canonical_json_string_for_signing E redacted = Some json \<and> bt_get obj ''signatures'' = Some (CObject sigs)
    \<and> bt_get (policy_public_keys policy) ''ed25519'' = Some pk
    \<and> entity_signature E (policy_via policy)
        [(policy_via policy, [(POLICY_SERVER_ED25519_SIGNING_KEY_ID, pk)])] sigs json"
proof -
  from assms(1) obtain t where t: "required_string obj ''type'' = Inr t" and
    i: "(if t = ''m.room.policy'' \<and> bt_get obj ''state_key'' = Some (CString '''') then Inr () else
     and_then (map_err from_redaction_error (redact obj (redaction rules) None)) (\<lambda>redacted.
     and_then (ok_or JsonSerde (to_canonical_json_string_for_signing E redacted)) (\<lambda>json.
     and_then (required_object obj ''signatures'') (\<lambda>signature_map.
     and_then (ok_or (NoSupportedSignatureForEntity (policy_via policy)) (bt_get (policy_public_keys policy) ''ed25519''))
       (\<lambda>public_key.
     verify_canonical_json_for_entity E (policy_via policy)
       [(policy_via policy, [(POLICY_SERVER_ED25519_SIGNING_KEY_ID, public_key)])] signature_map json))))) = Inr ()"
    unfolding verify_policy_server_signature_def by (elim and_then_InrE)
  have n: "\<not> (t = ''m.room.policy'' \<and> bt_get obj ''state_key'' = Some (CString ''''))"
    using assms(2) t[unfolded required_string_Inr] by (cases "t = ''m.room.policy''") simp_all
  from i[unfolded if_not_P[OF n]] obtain redacted json sigs pk where
    "map_err from_redaction_error (redact obj (redaction rules) None) = Inr redacted"
    "ok_or JsonSerde (to_canonical_json_string_for_signing E redacted) = Inr json"
    and s: "required_object obj ''signatures'' = Inr sigs"
    and "ok_or (NoSupportedSignatureForEntity (policy_via policy)) (bt_get (policy_public_keys policy) ''ed25519'') = Inr pk"
    and v: "verify_canonical_json_for_entity E (policy_via policy)
       [(policy_via policy, [(POLICY_SERVER_ED25519_SIGNING_KEY_ID, pk)])] sigs json = Inr ()"
    by (elim and_then_InrE)
  then show ?thesis
    using s[unfolded required_object_Inr] verify_for_entity_Inr[OF v] unfolding map_err_Inr_iff ok_or_Inr_iff
    by - (rule exI[of _ redacted], rule exI[of _ json], rule exI[of _ sigs], rule exI[of _ pk], intro conjI; assumption)
qed

section \<open>Properties\<close>

definition ex_crypto :: crypto where
  "ex_crypto = \<lparr>sha256 = take 8, base64_encode = id, base64_encode_url_safe = id,
     ed25519_sign = (\<lambda>sk m. sk), ed25519_public = id\<rparr>"

definition ex_key_pair :: ed25519_key_pair where
  "ex_key_pair = \<lparr>signing_key = ''secret'', key_version = ''1''\<rparr>"

definition ex_pdu :: cobject where
  "ex_pdu = [(''content'', CObject [(''body'', CString ''hi'')]), (''sender'', CString ''@a:h''),
     (''type'', CString ''m.room.message'')]"

definition ex_keys :: public_key_map where
  "ex_keys = [(''h'', [(''ed25519:1'', ''secret'')])]"

definition ex_signed_pdu :: cobject where
  "ex_signed_pdu = snd (hash_and_sign_event ex_crypto ex_env ''h'' ex_key_pair ex_pdu (redaction RoomVersionRules_V11))"



text \<open>C7: When \<open>verify_event\<close> accepts an event, every server whose signature the event needs has a
  signature, by one of its known keys, that verifies over the canonical JSON of the redacted event; the
  sender's server is among them unless the event is a third-party invite; and the answer is \<open>All\<close>
  exactly when the SHA-256 content hash the event carries is the hash of its own content.\<close>

theorem verify_event_sound:
  assumes "verify_event C E keys obj rules = Inr v"
  shows "\<exists>redacted sigs json servers hashes hash calculated.
    redact obj (redaction rules) None = Inr redacted
    \<and> to_canonical_json_string_for_signing E redacted = Some json
    \<and> bt_get obj ''signatures'' = Some (CObject sigs)
    \<and> servers_to_check_signatures obj (signatures_r rules) = Inr servers
    \<and> (\<forall>server\<in>set servers. entity_signature E server keys sigs json)
    \<and> (is_invite_via_third_party_id obj = Inr False \<longrightarrow>
         (\<exists>u s. bt_get obj ''sender'' = Some (CString u) \<and> user_server u = Inr s \<and> s \<in> set servers))
    \<and> bt_get obj ''hashes'' = Some (CObject hashes) \<and> bt_get hashes ''sha256'' = Some (CString hash)
    \<and> content_hash C E obj = Inr calculated
    \<and> (v = VerifiedAll \<longleftrightarrow> base64_standard E hash = Some calculated)"
proof -
  from assms obtain redacted hash sigs servers json u calculated where
    r: "map_err from_redaction_error (redact obj (redaction rules) None) = Inr redacted"
    and h: "(case bt_get obj ''hashes'' of
          None \<Rightarrow> Inl (JsonFieldMissing ''hashes'')
        | Some hashes_value \<Rightarrow>
            (case as_object hashes_value of
               None \<Rightarrow> Inl (JsonFieldMissing ''sha256'')
             | Some hashes \<Rightarrow>
                 (case bt_get hashes ''sha256'' of
                    None \<Rightarrow> Inl (JsonNotOfType ''hashes'' TObject)
                  | Some hash_value \<Rightarrow> ok_or (JsonNotOfType ''sha256 hash'' TString) (as_str hash_value)))) = Inr hash"
    and s: "required_object obj ''signatures'' = Inr sigs"
    and c: "servers_to_check_signatures obj (signatures_r rules) = Inr servers"
    and j: "ok_or JsonSerde (to_canonical_json_string_for_signing E redacted) = Inr json"
    and e: "each_ok (\<lambda>entity_id. verify_canonical_json_for_entity E entity_id keys sigs json) servers = Inr u"
    and d: "content_hash C E obj = Inr calculated"
    and v: "Inr (if base64_standard E hash = Some calculated then VerifiedAll else VerifiedSignatures) = (Inr v :: sig_error + verified)"
    unfolding verify_event_def by (elim and_then_InrE)
  from h obtain hashes where "bt_get obj ''hashes'' = Some (CObject hashes)" "bt_get hashes ''sha256'' = Some (CString hash)"
    by (auto simp: res_simps as_object_Some as_str_Some split: option.splits)
  moreover from s have "bt_get obj ''signatures'' = Some (CObject sigs)"
    by (simp add: required_object_Inr)
  moreover from e have "\<forall>server\<in>set servers. entity_signature E server keys sigs json"
    by (auto simp: each_ok_Inr_iff intro: verify_for_entity_Inr)
  moreover from v have "v = VerifiedAll \<longleftrightarrow> base64_standard E hash = Some calculated" by (auto split: if_splits)
  moreover have "is_invite_via_third_party_id obj = Inr False \<longrightarrow>
      (\<exists>u s. bt_get obj ''sender'' = Some (CString u) \<and> user_server u = Inr s \<and> s \<in> set servers)"
    by (rule impI) (rule servers_to_check_sender[OF c])
  moreover note r[unfolded map_err_Inr_iff] j[unfolded ok_or_Inr_iff] c d
  ultimately show ?thesis
    by - (rule exI[of _ redacted], rule exI[of _ sigs], rule exI[of _ json], rule exI[of _ servers],
        rule exI[of _ hashes], rule exI[of _ hash], rule exI[of _ calculated], intro conjI; assumption)
qed

theorem verify_event_sound_witness:
  "\<exists>redacted sigs json. redact ex_signed_pdu (redaction RoomVersionRules_V11) None = Inr redacted
     \<and> to_canonical_json_string_for_signing ex_env redacted = Some json
     \<and> bt_get ex_signed_pdu ''signatures'' = Some (CObject sigs)
     \<and> entity_signature ex_env ''h'' ex_keys sigs json"
proof -
  have v: "verify_event ex_crypto ex_env ex_keys ex_signed_pdu RoomVersionRules_V11 = Inr VerifiedAll" by code_simp
  have "servers_to_check_signatures ex_signed_pdu (signatures_r RoomVersionRules_V11) = Inr [''h'']" by code_simp
  with verify_event_sound[OF v] show ?thesis by (elim exE conjE) (intro exI conjI; assumption?; simp)
qed

text \<open>C9: The reference hash of an event, from which its id is made, does not change when the event is
  redacted, whatever reason is attached, or when signatures or unsigned data are added to it.\<close>

theorem reference_hash_stable:
  assumes "cjson_wf (CObject obj)" "redact obj (redaction rules) because = Inr redacted"
    and "k = ''unsigned'' \<or> k = ''signatures''"
  shows "reference_hash C E redacted rules = reference_hash C E obj rules
    \<and> reference_hash C E (bt_insert k v obj) rules = reference_hash C E obj rules"
proof (rule conjI)
  from redact_without_reason[OF assms(1,2)] obtain r where
    r: "redact obj (redaction rules) None = Inr r" "redact redacted (redaction rules) None = Inr r" by blast
  from r show "reference_hash C E redacted rules = reference_hash C E obj rules" by (simp add: reference_hash_def)
  have inv: "bt_inv obj" using assms(1) by simp
  show "reference_hash C E (bt_insert k v obj) rules = reference_hash C E obj rules"
  proof (cases "k = ''unsigned''")
    case True
    from redact_insert_dropped[OF inv _ r(1), of k v] True r(1) show ?thesis
      by (simp add: reference_hash_def is_event_key_retained_def)
  next
    case False
    with assms(3) have k: "k = ''signatures''" by simp
    from redact_insert[OF inv _ _ _ r(1), of k v] k r(1) show ?thesis
      by (simp add: reference_hash_def is_event_key_retained_def limited_json_def without_fields_insert)
  qed
qed

theorem reference_hash_stable_witness:
  "\<exists>redacted. redact ex_signed_pdu (redaction RoomVersionRules_V11) None = Inr redacted
     \<and> redacted \<noteq> ex_signed_pdu
     \<and> reference_hash ex_crypto ex_env redacted RoomVersionRules_V11 = reference_hash ex_crypto ex_env ex_signed_pdu RoomVersionRules_V11"
proof -
  have "cjson_wf (CObject ex_signed_pdu)" by code_simp
  moreover have "redact ex_signed_pdu (redaction RoomVersionRules_V11) None = Inr (projr (redact ex_signed_pdu (redaction RoomVersionRules_V11) None))"
    by code_simp
  moreover have "projr (redact ex_signed_pdu (redaction RoomVersionRules_V11) None) \<noteq> ex_signed_pdu" by code_simp
  ultimately show ?thesis
    using reference_hash_stable[of ex_signed_pdu RoomVersionRules_V11 None "projr (redact ex_signed_pdu (redaction RoomVersionRules_V11) None)"
      "''unsigned''"] by blast
qed

end
