(* ===== verification/Push_Match.thy ===== *)
theory Push_Match
  imports Rust_Std
begin

text \<open>
  Matching of strings against the patterns of push rules (the trait \<open>StrExt\<close> of
  \<open>core/src/push/condition.rs\<close>).  Lower-casing follows the Unicode tables; the glob matcher
  \<open>wildmatch\<close> and the crate \<open>regex\<close> are third-party code.  All of them are fields of
  \<open>matcher\<close>; \<open>regex_is_match r s\<close> is \<open>None\<close> when the regular expression cannot be built, on
  which the code panics.
\<close>

record matcher =
  to_lowercase :: "string \<Rightarrow> string"
  wild_match :: "string \<Rightarrow> string \<Rightarrow> bool"
  regex_escape :: "string \<Rightarrow> string"
  regex_is_match :: "string \<Rightarrow> string \<Rightarrow> bool option"

section \<open>Characters of a string\<close>

text \<open>A character is the bytes that encode it.  The loop of \<open>char_len\<close> stops at the latest at
  the end of the string.\<close>

definition is_word_char :: "string \<Rightarrow> bool" where
  "is_word_char c = (case c of [b] \<Rightarrow> is_ascii_alphanumeric b \<or> b = CHR ''_'' | _ \<Rightarrow> False)"

definition char_len :: "string \<Rightarrow> nat \<Rightarrow> nat" where
  "char_len s index = 1 + length (takeWhile (\<lambda>i. \<not> is_char_boundary s i) [index + 1 ..< length s])"

definition char_at :: "string \<Rightarrow> nat \<Rightarrow> string" where
  "char_at s index = take (char_len s index) (drop index s)"

fun prev_boundary :: "string \<Rightarrow> nat \<Rightarrow> nat" where
  "prev_boundary s 0 = 0"
| "prev_boundary s (Suc pos) = (if is_char_boundary s (Suc pos) then Suc pos else prev_boundary s pos)"

definition find_prev_char :: "string \<Rightarrow> nat \<Rightarrow> string option" where
  "find_prev_char s index = (if index = 0 then None else Some (char_at s (prev_boundary s (index - 1))))"

text \<open>\<open>str::find\<close> with a string and with a predicate on characters.\<close>

fun find_str :: "string \<Rightarrow> string \<Rightarrow> nat option" where
  "find_str pattern [] = (if pattern = [] then Some 0 else None)"
| "find_str pattern (c # s) =
     (if take (length pattern) (c # s) = pattern then Some 0 else map_option Suc (find_str pattern s))"

definition find_char :: "(string \<Rightarrow> bool) \<Rightarrow> string \<Rightarrow> nat option" where
  "find_char P s = find (\<lambda>i. is_char_boundary s i \<and> P (char_at s i)) [0..<length s]"

section \<open>Patterns\<close>

text \<open>Decimal digits of a number.\<close>

fun show_nat :: "nat \<Rightarrow> string" where
  "show_nat n = (if n < 10 then [char_of (48 + n)] else show_nat (n div 10) @ [char_of (48 + n mod 10)])"

declare show_nat.simps [simp del]

definition is_wildcard :: "char \<Rightarrow> bool" where
  "is_wildcard c \<longleftrightarrow> c = CHR ''?'' \<or> c = CHR ''*''"

definition wildcards_to_regex :: "string \<Rightarrow> string" where
  "wildcards_to_regex s =
     (let question_marks = length (filter (\<lambda>c. c = CHR ''?'') s)
      in if CHR ''*'' \<in> set s then ''.{'' @ show_nat question_marks @ '',}''
         else ''.{'' @ show_nat question_marks @ ''}'')"

record chunk_state =
  chunks_done :: "string list"
  prev_wildcard :: bool
  chunk_start :: nat

definition slice :: "string \<Rightarrow> nat \<Rightarrow> nat \<Rightarrow> string" where
  "slice s i j = take (j - i) (drop i s)"

definition chunk_step :: "matcher \<Rightarrow> string \<Rightarrow> nat \<Rightarrow> chunk_state \<Rightarrow> chunk_state" where
  "chunk_step M pattern i st =
     (if is_wildcard (pattern ! i) \<and> \<not> prev_wildcard st
      then (if i \<noteq> 0
            then \<lparr>chunks_done = chunks_done st @ [regex_escape M (slice pattern (chunk_start st) i)],
                  prev_wildcard = True, chunk_start = i\<rparr>
            else st\<lparr>prev_wildcard := True\<rparr>)
      else if prev_wildcard st
      then \<lparr>chunks_done = chunks_done st @ [wildcards_to_regex (slice pattern (chunk_start st) i)],
            prev_wildcard = False, chunk_start = i\<rparr>
      else st)"

definition pattern_chunks :: "matcher \<Rightarrow> string \<Rightarrow> string list" where
  "pattern_chunks M pattern =
     (let st = fold (chunk_step M pattern) (filter (is_char_boundary pattern) [0..<length pattern])
                 \<lparr>chunks_done = [], prev_wildcard = False, chunk_start = 0\<rparr>;
          rest = slice pattern (chunk_start st) (length pattern)
      in chunks_done st @ [if prev_wildcard st then wildcards_to_regex rest else regex_escape M rest])"

definition word_regex :: "matcher \<Rightarrow> string \<Rightarrow> string" where
  "word_regex M pattern =
     ''(?-u:^|'' @ [CHR 0x5C] @ ''W|'' @ [CHR 0x5C] @ ''b)'' @ concat (pattern_chunks M pattern)
       @ ''(?-u:'' @ [CHR 0x5C] @ ''b|'' @ [CHR 0x5C] @ ''W|$)''"

definition next_word :: "string \<Rightarrow> nat option" where
  "next_word s =
     (case find_char (\<lambda>c. \<not> is_word_char c) s of
        None \<Rightarrow> None
      | Some non_word \<Rightarrow> map_option (\<lambda>word. non_word + word) (find_char is_word_char (drop non_word s)))"

text \<open>The match at \<open>start\<close> has word boundaries.\<close>

definition match_is_word :: "string \<Rightarrow> string \<Rightarrow> nat \<Rightarrow> bool" where
  "match_is_word subject pattern start \<longleftrightarrow>
     (let stop = start + length pattern in
      (\<not> is_word_char (char_at subject start)
         \<or> \<not> (case find_prev_char subject start of None \<Rightarrow> False | Some c \<Rightarrow> is_word_char c))
      \<and> (stop = length subject
         \<or> \<not> (case find_prev_char subject stop of None \<Rightarrow> False | Some c \<Rightarrow> is_word_char c)
         \<or> \<not> is_word_char (char_at subject stop)))"

lemma find_char_Some:
  "find_char P s = Some i \<Longrightarrow> i < length s \<and> P (char_at s i)"
  by (auto simp: find_char_def find_Some_iff)

lemma next_word_pos: "next_word s = Some k \<Longrightarrow> 0 < k \<and> k < length s"
proof -
  assume "next_word s = Some k"
  then obtain n w where nw: "find_char (\<lambda>c. \<not> is_word_char c) s = Some n" "find_char is_word_char (drop n s) = Some w"
    "k = n + w" by (auto simp: next_word_def split: option.splits)
  from find_char_Some[OF nw(1)] find_char_Some[OF nw(2)] nw(3) show ?thesis by (cases n; cases w) auto
qed

function matches_word :: "matcher \<Rightarrow> string \<Rightarrow> string \<Rightarrow> bool option" where
  "matches_word M subject pattern =
     (if subject = pattern then Some True
      else if pattern = [] then Some False
      else if list_ex is_wildcard pattern then regex_is_match M (word_regex M pattern) subject
      else case find_str pattern subject of
             None \<Rightarrow> Some False
           | Some start \<Rightarrow>
               (if match_is_word subject pattern start then Some True
                else case next_word (drop start subject) of
                       None \<Rightarrow> Some False
                     | Some word \<Rightarrow> matches_word M (drop (start + word) subject) pattern))"
  by pat_completeness auto
termination
  by (relation "measure (\<lambda>(M, subject, pattern). length subject)") (auto dest!: next_word_pos)

declare matches_word.simps [simp del]

definition matches_pattern :: "matcher \<Rightarrow> string \<Rightarrow> string \<Rightarrow> bool \<Rightarrow> bool option" where
  "matches_pattern M s pattern match_words =
     (let subject = to_lowercase M s; pattern = to_lowercase M pattern
      in if match_words then matches_word M subject pattern else Some (wild_match M pattern subject))"

section \<open>Word boundaries on bytes\<close>

text \<open>What UTF-8 gives: a continuation byte never follows an ASCII byte.\<close>

definition is_continuation :: "char \<Rightarrow> bool" where
  "is_continuation b \<longleftrightarrow> 128 \<le> byte b \<and> byte b < 192"

definition utf8_text :: "string \<Rightarrow> bool" where
  "utf8_text s \<longleftrightarrow> (s \<noteq> [] \<longrightarrow> \<not> is_continuation (hd s))
     \<and> (\<forall>i. Suc i < length s \<longrightarrow> byte (s ! i) < 128 \<longrightarrow> \<not> is_continuation (s ! Suc i))"

definition word_byte :: "char \<Rightarrow> bool" where
  "word_byte b \<longleftrightarrow> is_ascii_alphanumeric b \<or> b = CHR ''_''"

definition word_boundary :: "string \<Rightarrow> nat \<Rightarrow> bool" where
  "word_boundary s i \<longleftrightarrow> i = 0 \<or> i = length s \<or> \<not> (word_byte (s ! (i - 1)) \<and> word_byte (s ! i))"

definition occurs_at :: "string \<Rightarrow> string \<Rightarrow> nat \<Rightarrow> bool" where
  "occurs_at pattern s i \<longleftrightarrow> i + length pattern \<le> length s \<and> take (length pattern) (drop i s) = pattern"

lemma word_byte_ascii: "word_byte b \<Longrightarrow> byte b < 128"
  by (auto simp: word_byte_def is_ascii_alphanumeric_def is_ascii_digit_def is_ascii_lower_def is_ascii_upper_def byte_def)

lemma boundary_continuation: "0 < i \<Longrightarrow> i < length s \<Longrightarrow> is_char_boundary s i \<longleftrightarrow> \<not> is_continuation (s ! i)"
  by (auto simp: is_char_boundary_def is_continuation_def)

lemma char_at_Cons: "i < length s \<Longrightarrow> \<exists>r. char_at s i = s ! i # r"
  by (simp add: char_at_def char_len_def Cons_nth_drop_Suc[symmetric])

lemma char_at_word:
  assumes "utf8_text s" "i < length s"
  shows "is_word_char (char_at s i) \<longleftrightarrow> word_byte (s ! i)"
proof -
  from char_at_Cons[OF assms(2)] obtain r where r: "char_at s i = s ! i # r" by blast
  have "r = []" if "byte (s ! i) < 128"
  proof (cases "Suc i < length s")
    case True
    with assms(1) that have "is_char_boundary s (Suc i)" by (simp add: boundary_continuation utf8_text_def)
    with True have "char_len s i = 1" by (simp add: char_len_def upt_conv_Cons)
    with r assms(2) show ?thesis by (simp add: char_at_def Cons_nth_drop_Suc[symmetric])
  next
    case False
    with r assms(2) show ?thesis by (simp add: char_at_def char_len_def Cons_nth_drop_Suc[symmetric])
  qed
  with r word_byte_ascii[of "s ! i"] show ?thesis
    by (cases r) (auto simp: is_word_char_def word_byte_def)
qed

lemma prev_boundary_cases:
  "n < length s \<Longrightarrow> prev_boundary s n = n \<and> (n = 0 \<or> is_char_boundary s n)
     \<or> prev_boundary s n < n \<and> (\<forall>i. prev_boundary s n < i \<and> i \<le> n \<longrightarrow> \<not> is_char_boundary s i)"
  by (induction n) (auto simp: le_Suc_eq)

lemma prev_char_word:
  assumes "utf8_text s" "0 < i" "i \<le> length s"
  shows "(case find_prev_char s i of None \<Rightarrow> False | Some c \<Rightarrow> is_word_char c) \<longleftrightarrow> word_byte (s ! (i - 1))"
proof -
  let ?n = "i - 1" and ?p = "prev_boundary s (i - 1)"
  have n: "?n < length s" using assms by simp
  from prev_boundary_cases[OF n] consider "?p = ?n"
    | "?p < ?n" "\<forall>j. ?p < j \<and> j \<le> ?n \<longrightarrow> \<not> is_char_boundary s j" by blast
  then show ?thesis
  proof cases
    case 1
    then show ?thesis using assms n by (simp add: find_prev_char_def char_at_word)
  next
    case 2
    then have c: "is_continuation (s ! Suc ?p)" "is_continuation (s ! ?n)"
      using n boundary_continuation[of "Suc ?p" s] boundary_continuation[of ?n s] by auto
    have "\<not> word_byte (s ! ?p)"
      using word_byte_ascii[of "s ! ?p"] assms(1) c(1) 2(1) n by (auto simp: utf8_text_def)
    moreover have "\<not> word_byte (s ! ?n)"
      using word_byte_ascii[of "s ! ?n"] c(2) by (auto simp: is_continuation_def)
    ultimately show ?thesis using assms n 2(1) by (simp add: find_prev_char_def char_at_word)
  qed
qed

lemma occurs_at_less: "occurs_at pattern s i \<Longrightarrow> pattern \<noteq> [] \<Longrightarrow> i < length s"
  by (cases pattern) (auto simp: occurs_at_def)

lemma match_is_word_iff:
  assumes "utf8_text s" "occurs_at pattern s start" "pattern \<noteq> []"
  shows "match_is_word s pattern start \<longleftrightarrow> word_boundary s start \<and> word_boundary s (start + length pattern)"
proof -
  have l: "start < length s" "start + length pattern \<le> length s" "0 < length pattern"
    using assms(2,3) occurs_at_less by (simp_all add: occurs_at_def)
  then have "(\<not> is_word_char (char_at s start)
         \<or> \<not> (case find_prev_char s start of None \<Rightarrow> False | Some c \<Rightarrow> is_word_char c)) \<longleftrightarrow> word_boundary s start"
    using char_at_word[OF assms(1) l(1)] prev_char_word[OF assms(1), of start]
    by (cases "start = 0") (auto simp: word_boundary_def find_prev_char_def)
  moreover have "(start + length pattern = length s
         \<or> \<not> (case find_prev_char s (start + length pattern) of None \<Rightarrow> False | Some c \<Rightarrow> is_word_char c)
         \<or> \<not> is_word_char (char_at s (start + length pattern))) \<longleftrightarrow> word_boundary s (start + length pattern)"
    using char_at_word[OF assms(1), of "start + length pattern"] prev_char_word[OF assms(1), of "start + length pattern"] l
    by (cases "start + length pattern = length s") (auto simp: word_boundary_def)
  ultimately show ?thesis by (simp add: match_is_word_def)
qed

section \<open>Searching\<close>

lemma occurs_at_Suc: "occurs_at pattern (c # s) (Suc i) \<longleftrightarrow> occurs_at pattern s i"
  by (simp add: occurs_at_def)

lemma find_str_correct:
  "pattern \<noteq> [] \<Longrightarrow> case find_str pattern s of
       None \<Rightarrow> \<forall>i. \<not> occurs_at pattern s i
     | Some i \<Rightarrow> occurs_at pattern s i \<and> (\<forall>j<i. \<not> occurs_at pattern s j)"
proof (induction pattern s rule: find_str.induct)
  case (1 pattern)
  then show ?case by (simp add: occurs_at_def)
next
  case (2 pattern c s)
  have 0: "occurs_at pattern (c # s) 0 \<longleftrightarrow> take (length pattern) (c # s) = pattern"
    by (metis add_0 drop0 length_take min_def nat_le_linear occurs_at_def take_all_iff)
  show ?case
  proof (cases "take (length pattern) (c # s) = pattern")
    case True
    with 0 show ?thesis by simp
  next
    case False
    note ih = 2(1)[OF False 2(2)]
    show ?thesis
    proof (cases "find_str pattern s")
      case None
      have "\<not> occurs_at pattern (c # s) i" for i
        using ih None 0 False by (cases i) (simp_all add: occurs_at_Suc)
      with None False show ?thesis by simp
    next
      case (Some k)
      have "\<not> occurs_at pattern (c # s) j" if "j < Suc k" for j
        using ih Some 0 False that by (cases j) (simp_all add: occurs_at_Suc)
      with ih Some False show ?thesis by (simp add: occurs_at_Suc)
    qed
  qed
qed

lemma utf8_text_drop:
  assumes "utf8_text s" "n < length s" "is_char_boundary s n"
  shows "utf8_text (drop n s)"
  using assms by (cases n) (auto simp: utf8_text_def hd_drop_conv_nth is_char_boundary_def is_continuation_def)

lemma boundary_after_word:
  "utf8_text s \<Longrightarrow> i < length s \<Longrightarrow> \<forall>j<i. word_byte (s ! j) \<Longrightarrow> is_char_boundary s i"
proof (cases i)
  case (Suc k)
  assume a: "utf8_text s" "i < length s" "\<forall>j<i. word_byte (s ! j)"
  with Suc have "byte (s ! k) < 128" by (simp add: word_byte_ascii)
  with a Suc show ?thesis by (simp add: boundary_continuation utf8_text_def)
qed (simp add: is_char_boundary_def)

lemma nonword_at_continuation: "i < length s \<Longrightarrow> \<not> is_char_boundary s i \<Longrightarrow> \<not> word_byte (s ! i)"
  using word_byte_ascii[of "s ! i"] by (auto simp: is_char_boundary_def)

lemma find_nonword:
  assumes "utf8_text s"
  shows "case find_char (\<lambda>c. \<not> is_word_char c) s of
       None \<Rightarrow> \<forall>i<length s. word_byte (s ! i)
     | Some n \<Rightarrow> n < length s \<and> is_char_boundary s n \<and> \<not> word_byte (s ! n) \<and> (\<forall>i<n. word_byte (s ! i))"
proof -
  have run: "\<forall>i<k. word_byte (s ! i)"
    if "k \<le> length s" "\<forall>i<k. is_char_boundary s i \<longrightarrow> is_word_char (char_at s i)" for k
    using that
  proof (induction k)
    case (Suc k)
    then have b: "\<forall>i<k. word_byte (s ! i)" by simp
    with boundary_after_word[OF assms, of k] Suc.prems have "is_word_char (char_at s k)" by simp
    with char_at_word[OF assms, of k] b Suc.prems(1) show ?case by (auto simp: less_Suc_eq)
  qed simp
  show ?thesis
  proof (cases "find_char (\<lambda>c. \<not> is_word_char c) s")
    case None
    then have "\<forall>i<length s. is_char_boundary s i \<longrightarrow> is_word_char (char_at s i)"
      by (auto simp: find_char_def find_None_iff)
    with run[of "length s"] None show ?thesis by simp
  next
    case (Some n)
    then have n: "n < length s" "is_char_boundary s n" "\<not> is_word_char (char_at s n)"
      "\<forall>i<n. is_char_boundary s i \<longrightarrow> is_word_char (char_at s i)"
      by (auto simp: find_char_def find_Some_iff)
    with run[of n] char_at_word[OF assms n(1)] Some show ?thesis by simp
  qed
qed

lemma find_word:
  assumes "utf8_text s"
  shows "case find_char is_word_char s of
       None \<Rightarrow> \<forall>i<length s. \<not> word_byte (s ! i)
     | Some n \<Rightarrow> n < length s \<and> word_byte (s ! n) \<and> (\<forall>i<n. \<not> word_byte (s ! i))"
proof -
  have eq: "is_char_boundary s i \<and> is_word_char (char_at s i) \<longleftrightarrow> word_byte (s ! i)" if "i < length s" for i
    using nonword_at_continuation[OF that] char_at_word[OF assms that] by blast
  show ?thesis
  proof (cases "find_char is_word_char s")
    case None
    then have "\<not> word_byte (s ! i)" if "i < length s" for i
      using eq[OF that] that by (auto simp: find_char_def find_None_iff)
    with None show ?thesis by simp
  next
    case (Some n)
    then have n: "n < length s" "is_char_boundary s n \<and> is_word_char (char_at s n)"
      "\<forall>i<n. \<not> (is_char_boundary s i \<and> is_word_char (char_at s i))"
      by (auto simp: find_char_def find_Some_iff)
    with eq Some show ?thesis by simp
  qed
qed

text \<open>From the start of the string there is first a run of word characters, then one of others up to the next
  word, which ends the string when there is no next word.\<close>

lemma next_word_runs:
  assumes "utf8_text s"
  obtains n k where "n \<le> k" "\<forall>i<n. word_byte (s ! i)" "\<forall>i. n \<le> i \<and> i < k \<longrightarrow> \<not> word_byte (s ! i)"
    "case next_word s of None \<Rightarrow> k = length s
       | Some w \<Rightarrow> w = k \<and> n < k \<and> k < length s \<and> word_byte (s ! k)"
proof (cases "find_char (\<lambda>c. \<not> is_word_char c) s")
  case None
  with find_nonword[OF assms] have "\<forall>i<length s. word_byte (s ! i)" by simp
  with None that[of "length s" "length s"] show ?thesis by (simp add: next_word_def)
next
  case (Some n)
  with find_nonword[OF assms] have n: "n < length s" "is_char_boundary s n" "\<not> word_byte (s ! n)"
    "\<forall>i<n. word_byte (s ! i)" by simp_all
  note w = find_word[OF utf8_text_drop[OF assms n(1,2)]]
  show ?thesis
  proof (cases "find_char is_word_char (drop n s)")
    case None
    have "\<not> word_byte (s ! i)" if "n \<le> i" "i < length s" for i
      using w None that n(1) nth_drop[of n s "i - n"] by (auto dest: spec[of _ "i - n"])
    with None Some n that[of n "length s"] show ?thesis by (simp add: next_word_def)
  next
    case s: (Some w')
    have "\<not> word_byte (s ! i)" if "n \<le> i" "i < n + w'" for i
      using w s that n(1) nth_drop[of n s "i - n"] by (auto dest: spec[of _ "i - n"])
    moreover have "n + w' < length s" "word_byte (s ! (n + w'))" using w s n(1) by (auto simp: nth_drop)
    moreover have "0 < w'" using w s n by (cases w') auto
    ultimately show ?thesis using s Some n that[of n "n + w'"] by (simp add: next_word_def)
  qed
qed

section \<open>Correctness of the word search\<close>

lemma occurs_nth: "occurs_at pattern s i \<Longrightarrow> j < length pattern \<Longrightarrow> s ! (i + j) = pattern ! j"
  by (metis add_leD1 nth_drop nth_take occurs_at_def)

lemma occurs_all_nonword:
  assumes "occurs_at pattern s i" "pattern \<noteq> []" "\<forall>j<length pattern. \<not> word_byte (pattern ! j)"
  shows "word_boundary s i" "word_boundary s (i + length pattern)"
proof -
  obtain m where m: "length pattern = Suc m" using assms(2) by (cases pattern) auto
  show "word_boundary s i" using occurs_nth[OF assms(1), of 0] assms(3) m by (simp add: word_boundary_def)
  show "word_boundary s (i + length pattern)"
    using occurs_nth[OF assms(1), of m] assms(3) m by (simp add: word_boundary_def)
qed

lemma no_word_match_before:
  assumes "occurs_at pattern s start" "pattern \<noteq> []"
    and fail: "\<not> (word_boundary s start \<and> word_boundary s (start + length pattern))"
    and "n \<le> k" and w: "\<forall>i<n. word_byte (drop start s ! i)"
    and nw: "\<forall>i. n \<le> i \<and> i < k \<longrightarrow> \<not> word_byte (drop start s ! i)"
    and k: "k = length (drop start s) \<or> k < length (drop start s) \<and> word_byte (drop start s ! k)"
    and occ: "occurs_at pattern s i" and i: "start < i" "i < start + k"
  shows "\<not> word_boundary s i"
proof
  assume b: "word_boundary s i"
  obtain m where m: "i = start + m" "0 < m" using i(1) by (auto dest: less_imp_Suc_add)
  have p: "0 < length pattern" using assms(2) by simp
  have l: "start + j < length s" if "j < k" for j using k that by auto
  have ls: "start \<le> length s" using assms(1) by (simp add: occurs_at_def)
  have get: "drop start s ! j = s ! (start + j)" for j using ls by (simp add: nth_drop)
  have "n \<le> m"
  proof (rule ccontr)
    assume "\<not> n \<le> m"
    then have "m < n" "m - 1 < n" by simp_all
    with w have "word_byte (drop start s ! m)" "word_byte (drop start s ! (m - 1))" by blast+
    then have "word_byte (s ! (i - 1))" "word_byte (s ! i)" using m get[of m] get[of "m - 1"] by simp_all
    moreover have "i < length s" "i \<noteq> 0" using l[of m] i m by auto
    ultimately show False using b by (simp add: word_boundary_def)
  qed
  then have "\<not> word_byte (drop start s ! m)" using nw m i(2) by simp
  then have "\<not> word_byte (s ! i)" using m get[of m] by simp
  then have p0: "\<not> word_byte (pattern ! 0)" using occurs_nth[OF occ, of 0] p by simp
  then have n0: "n = 0" using occurs_nth[OF assms(1), of 0] p w get[of 0] by (cases n) auto
  obtain j where j: "j < length pattern" "word_byte (pattern ! j)"
    using occurs_all_nonword[OF assms(1,2)] fail by blast
  define o1 where "o1 = (LEAST j. word_byte (pattern ! j))"
  have o1: "word_byte (pattern ! o1)" "o1 \<le> j" unfolding o1_def using j(2) by (auto intro: LeastI Least_le)
  then have o1l: "o1 < length pattern" using j(1) by simp
  have before: "\<not> word_byte (pattern ! x)" if "x < o1" for x using that not_less_Least unfolding o1_def by blast
  have at_start: "word_byte (s ! (start + o1))" using occurs_nth[OF assms(1) o1l] o1(1) by simp
  have at_i: "word_byte (s ! (i + o1))" using occurs_nth[OF occ o1l] o1(1) by simp
  have "k \<le> o1" using nw n0 at_start get[of o1] by (metis le0 not_le)
  moreover have "\<not> k < o1"
  proof
    assume ko: "k < o1"
    have "start + o1 < length s" using assms(1) o1l by (simp add: occurs_at_def)
    with k ko have "word_byte (s ! (start + k))" using get[of k] by auto
    with before[OF ko] occurs_nth[OF assms(1), of k] ko o1l show False by simp
  qed
  ultimately have ko: "k = o1" by simp
  have "start + k < length s" using assms(1) o1l ko by (simp add: occurs_at_def)
  then have "word_byte (s ! (start + k))" using k get[of k] by auto
  moreover have "start + k = i + (k - m)" "k - m < o1" using m i(2) ko by auto
  ultimately show False using before[of "k - m"] occurs_nth[OF occ, of "k - m"] o1l by simp
qed

lemma word_boundary_drop:
  assumes "k \<le> length s" "k = 0 \<or> k < length s \<and> \<not> word_byte (s ! (k - 1))"
  shows "word_boundary (drop k s) i \<longleftrightarrow> word_boundary s (k + i)"
  using assms by (cases i) (auto simp: word_boundary_def)

lemma occurs_at_drop: "k \<le> length s \<Longrightarrow> occurs_at pattern (drop k s) i \<longleftrightarrow> occurs_at pattern s (k + i)"
  by (auto simp: occurs_at_def add.commute)

definition word_match :: "string \<Rightarrow> string \<Rightarrow> bool" where
  "word_match s pattern \<longleftrightarrow>
     (\<exists>i. occurs_at pattern s i \<and> word_boundary s i \<and> word_boundary s (i + length pattern))"

lemma word_match_drop:
  assumes "utf8_text s" "k < length (drop start s)" "word_byte (drop start s ! k)"
    and "\<not> word_byte (drop start s ! (k - 1))" "0 < k"
    and late: "\<And>i. occurs_at pattern s i \<Longrightarrow> word_boundary s i \<Longrightarrow> word_boundary s (i + length pattern)
      \<Longrightarrow> start + k \<le> i"
  shows "utf8_text (drop (start + k) s) \<and> (word_match (drop (start + k) s) pattern \<longleftrightarrow> word_match s pattern)"
proof
  let ?t = "drop (start + k) s"
  have kl: "start + k < length s" using assms(2) by simp
  have "byte (s ! (start + k)) < 128" using assms(3) kl by (simp add: word_byte_ascii)
  then have "is_char_boundary s (start + k)" using kl by (simp add: is_char_boundary_def)
  then show "utf8_text ?t" using utf8_text_drop[OF assms(1) kl] by simp
  have nb: "\<not> word_byte (s ! (start + k - 1))" using assms(4,5) kl by simp
  note shift = occurs_at_drop[of "start + k" s] word_boundary_drop[of "start + k" s]
  show "word_match ?t pattern \<longleftrightarrow> word_match s pattern"
  proof
    assume "word_match ?t pattern"
    then obtain i where "occurs_at pattern ?t i" "word_boundary ?t i" "word_boundary ?t (i + length pattern)"
      by (auto simp: word_match_def)
    then show "word_match s pattern"
      using shift kl nb by (auto simp: word_match_def add.assoc intro!: exI[of _ "start + k + i"])
  next
    assume "word_match s pattern"
    then obtain i where i: "occurs_at pattern s i" "word_boundary s i" "word_boundary s (i + length pattern)"
      by (auto simp: word_match_def)
    then obtain j where "i = start + k + j" using late by (metis le_Suc_ex)
    with i show "word_match ?t pattern"
      using shift kl nb by (auto simp: word_match_def add.assoc intro!: exI[of _ j])
  qed
qed

lemma after_failed_match:
  assumes "pattern \<noteq> []" "utf8_text s" "utf8_text pattern"
    and occ: "occurs_at pattern s start" "\<forall>j < start. \<not> occurs_at pattern s j"
    and fail: "\<not> (word_boundary s start \<and> word_boundary s (start + length pattern))"
  shows "case next_word (drop start s) of
      None \<Rightarrow> \<not> word_match s pattern
    | Some w \<Rightarrow> utf8_text (drop (start + w) s) \<and> (word_match (drop (start + w) s) pattern \<longleftrightarrow> word_match s pattern)"
proof -
  have p: "0 < length pattern" using assms(1) by simp
  have sl: "start < length s" using occurs_at_less[OF occ(1) assms(1)] .
  have "\<not> is_continuation (s ! start)"
    using occurs_nth[OF occ(1), of 0] p assms(3) by (simp add: utf8_text_def hd_conv_nth)
  then have "is_char_boundary s start" using sl by (simp add: is_char_boundary_def is_continuation_def)
  then have u: "utf8_text (drop start s)" using utf8_text_drop[OF assms(2) sl] by simp
  from next_word_runs[OF u] obtain n k where r: "n \<le> k" "\<forall>i<n. word_byte (drop start s ! i)"
    "\<forall>i. n \<le> i \<and> i < k \<longrightarrow> \<not> word_byte (drop start s ! i)"
    "case next_word (drop start s) of None \<Rightarrow> k = length (drop start s)
       | Some w \<Rightarrow> w = k \<and> n < k \<and> k < length (drop start s) \<and> word_byte (drop start s ! k)" by blast
  then have kk: "k = length (drop start s) \<or> k < length (drop start s) \<and> word_byte (drop start s ! k)"
    by (auto split: option.splits)
  have late: "start + k \<le> i" if "occurs_at pattern s i" "word_boundary s i" "word_boundary s (i + length pattern)" for i
  proof (rule ccontr)
    assume "\<not> start + k \<le> i"
    moreover have "start \<le> i" using occ(2) that(1) by (meson not_le)
    moreover have "i \<noteq> start" using fail that by auto
    ultimately have "\<not> word_boundary s i"
      using no_word_match_before[OF occ(1) assms(1) fail r(1-3) kk that(1)] by simp
    with that(2) show False by simp
  qed
  show ?thesis
  proof (cases "next_word (drop start s)")
    case None
    with r(4) sl have "start + k = length s" by simp
    with late p have "\<not> word_match s pattern" by (auto simp: word_match_def occurs_at_def)
    with None show ?thesis by simp
  next
    case w: (Some w)
    with r(4) have k: "w = k" "n < k" "k < length (drop start s)" "word_byte (drop start s ! k)" by simp_all
    have nb: "\<not> word_byte (drop start s ! (k - 1))" using r(3) k(2) by auto
    from word_match_drop[OF assms(2) k(3,4) nb _ late] k(2) w k(1) show ?thesis by simp
  qed
qed


definition ex_matcher :: matcher where
  "ex_matcher = \<lparr>to_lowercase = id, wild_match = (\<lambda>p s. p = s), regex_escape = id, regex_is_match = (\<lambda>r s. None)\<rparr>"


text \<open>When two wildcards follow each other the second one takes the branch that closes a chunk, and is then
  quoted as part of the next literal chunk: the pattern matches only texts with a literal star.\<close>

lemma show_nat_zero: "show_nat 0 = ''0''"
  by code_simp

lemma adjacent_wildcards_quoted:
  "pattern_chunks M ''a**b'' = [regex_escape M ''a'', ''.{0,}'', regex_escape M ''*b'']"
  "pattern_chunks M ''a*b'' = [regex_escape M ''a'', ''.{0,}'', regex_escape M ''b'']"
  by (simp_all add: pattern_chunks_def chunk_step_def is_wildcard_def wildcards_to_regex_def slice_def
      is_char_boundary_def byte_def upt_conv_Cons show_nat_zero)

end
