(* ===== verification/Push_Flatten.thy ===== *)
theory Push_Flatten
  imports Json
begin

text \<open>
  The flattened form of an event on which push conditions are evaluated
  (\<open>core/src/push/condition/flattened_json.rs\<close>): a map from dot-separated property paths to
  scalar values, arrays of scalars and empty objects.
\<close>

section \<open>Values\<close>

datatype into_json_subset_error = IntConvert | NotInSubset

datatype scalar_json = ScNull | ScBool bool | ScInteger int | ScString string

datatype flattened_value =
    FlNull
  | FlBool bool
  | FlInteger int
  | FlString string
  | FlArray "scalar_json list"
  | FlEmptyObject

type_synonym flattened_json = "(string, flattened_value) btree"

definition number_as_i64 :: "int \<Rightarrow> int option" where
  "number_as_i64 n = (if i64_min \<le> n \<and> n \<le> i64_max then Some n else None)"

definition scalar_try_from_json_value :: "json \<Rightarrow> into_json_subset_error + scalar_json" where
  "scalar_try_from_json_value j =
     (case j of
        JBool b \<Rightarrow> Inr (ScBool b)
      | JInt n \<Rightarrow> map_ok ScInteger (ok_or IntConvert (number_as_i64 n))
      | JFloat _ \<Rightarrow> Inl IntConvert
      | JStr s \<Rightarrow> Inr (ScString s)
      | JNull \<Rightarrow> Inr ScNull
      | _ \<Rightarrow> Inl NotInSubset)"

definition flattened_from_json_value :: "json \<Rightarrow> flattened_value option" where
  "flattened_from_json_value j =
     (case j of
        JBool b \<Rightarrow> Some (FlBool b)
      | JInt n \<Rightarrow> map_option FlInteger (number_as_i64 n)
      | JFloat _ \<Rightarrow> None
      | JStr s \<Rightarrow> Some (FlString s)
      | JNull \<Rightarrow> Some FlNull
      | JArr vs \<Rightarrow> Some (FlArray (List.map_filter (\<lambda>v. ok_opt (scalar_try_from_json_value v)) vs))
      | JObj _ \<Rightarrow> None)"

fun flattened_as_bool :: "flattened_value \<Rightarrow> bool option" where
  "flattened_as_bool (FlBool b) = Some b"
| "flattened_as_bool _ = None"

fun flattened_as_integer :: "flattened_value \<Rightarrow> int option" where
  "flattened_as_integer (FlInteger n) = Some n"
| "flattened_as_integer _ = None"

fun flattened_as_str :: "flattened_value \<Rightarrow> string option" where
  "flattened_as_str (FlString s) = Some s"
| "flattened_as_str _ = None"

fun flattened_as_array :: "flattened_value \<Rightarrow> scalar_json list option" where
  "flattened_as_array (FlArray vs) = Some vs"
| "flattened_as_array _ = None"

text \<open>Comparison of a scalar with a flattened value.\<close>

fun scalar_eq :: "scalar_json \<Rightarrow> flattened_value \<Rightarrow> bool" where
  "scalar_eq ScNull v \<longleftrightarrow> v = FlNull"
| "scalar_eq (ScBool b) v \<longleftrightarrow> flattened_as_bool v = Some b"
| "scalar_eq (ScInteger n) v \<longleftrightarrow> flattened_as_integer v = Some n"
| "scalar_eq (ScString s) v \<longleftrightarrow> flattened_as_str v = Some s"

section \<open>Flattening\<close>

definition replace_char :: "char \<Rightarrow> string \<Rightarrow> string \<Rightarrow> string" where
  "replace_char c to s = concat (map (\<lambda>x. if x = c then to else [x]) s)"

definition escape_key :: "string \<Rightarrow> string" where
  "escape_key key = replace_char (CHR ''.'') [CHR 0x5C, CHR ''.''] (replace_char (CHR 0x5C) [CHR 0x5C, CHR 0x5C] key)"

definition child_path :: "string \<Rightarrow> string \<Rightarrow> string" where
  "child_path path key =
     (let key = escape_key key in if path = [] then key else path @ ''.'' @ key)"

fun flatten_value :: "json \<Rightarrow> string \<Rightarrow> flattened_json \<Rightarrow> flattened_json" where
  "flatten_value (JObj fields) path m =
     (if fields = [] then bt_insert path FlEmptyObject m
      else fold (\<lambda>e m. flatten_value (snd e) (child_path path (fst e)) m) fields m)"
| "flatten_value v path m =
     (case flattened_from_json_value v of None \<Rightarrow> m | Some f \<Rightarrow> bt_insert path f m)"

definition from_raw :: "json \<Rightarrow> flattened_json" where
  "from_raw raw = flatten_value (to_value raw) '''' []"

definition flattened_get_str :: "flattened_json \<Rightarrow> string \<Rightarrow> string option" where
  "flattened_get_str m path = Option.bind (bt_get m path) flattened_as_str"

definition MENTIONS :: string where
  "MENTIONS = ''content.m'' @ [CHR 0x5C] @ ''.mentions''"

definition contains_mentions :: "flattened_json \<Rightarrow> bool" where
  "contains_mentions m \<longleftrightarrow>
     list_ex (\<lambda>e. fst e = MENTIONS \<or> strip_prefix (MENTIONS @ ''.'') (fst e) \<noteq> None) m"

section \<open>Paths\<close>

text \<open>The value at a path of keys, and what of it is kept.\<close>

fun at_path :: "json \<Rightarrow> string list \<Rightarrow> json option" where
  "at_path j [] = Some j"
| "at_path (JObj es) (k # ks) = (case map_of es k of None \<Rightarrow> None | Some v \<Rightarrow> at_path v ks)"
| "at_path _ (k # ks) = None"

definition leaf :: "json \<Rightarrow> flattened_value option" where
  "leaf j = (if j = JObj [] then Some FlEmptyObject else flattened_from_json_value j)"

fun path_str :: "string list \<Rightarrow> string" where
  "path_str [] = []"
| "path_str (k # ks) = escape_key k @ concat (map (\<lambda>k. CHR ''.'' # escape_key k) ks)"

lemma escape_key_Nil [simp]: "escape_key [] = []"
  by (simp add: escape_key_def replace_char_def)

lemma escape_key_Cons:
  "escape_key (c # k) =
     (if c = CHR 0x5C then [CHR 0x5C, CHR 0x5C] else if c = CHR ''.'' then [CHR 0x5C, CHR ''.''] else [c]) @ escape_key k"
  by (simp add: escape_key_def replace_char_def)

lemma escape_key_eq_Nil: "escape_key k = [] \<longleftrightarrow> k = []"
  by (cases k) (simp_all add: escape_key_Cons)

definition dotted :: "string \<Rightarrow> bool" where
  "dotted r \<longleftrightarrow> r = [] \<or> hd r = CHR ''.''"

lemma escape_key_split:
  "escape_key k @ r = escape_key k' @ r' \<Longrightarrow> dotted r \<Longrightarrow> dotted r' \<Longrightarrow> k = k' \<and> r = r'"
proof (induction k arbitrary: k')
  case Nil
  then show ?case by (cases k') (auto simp: escape_key_Cons dotted_def split: if_splits)
next
  case (Cons c k)
  show ?case
  proof (cases k')
    case Nil
    with Cons.prems show ?thesis by (auto simp: escape_key_Cons dotted_def split: if_splits)
  next
    case (Cons c' l)
    with Cons.prems Cons.IH[of l] show ?thesis by (auto simp: escape_key_Cons split: if_splits)
  qed
qed

lemma dotted_concat: "dotted (concat (map (\<lambda>k. CHR ''.'' # escape_key k) ks))"
  by (cases ks) (simp_all add: dotted_def)

lemma suffix_inj:
  "concat (map (\<lambda>k. CHR ''.'' # escape_key k) ks) = concat (map (\<lambda>k. CHR ''.'' # escape_key k) ks') \<Longrightarrow> ks = ks'"
proof (induction ks arbitrary: ks')
  case Nil
  then show ?case by (cases ks') simp_all
next
  case (Cons k ks)
  then obtain k' l where l: "ks' = k' # l" by (cases ks') simp_all
  with Cons.prems escape_key_split[OF _ dotted_concat dotted_concat, of k ks k' l] Cons.IH[of l] show ?case by simp
qed

lemma path_str_inj: "ks \<noteq> [] \<Longrightarrow> ks' \<noteq> [] \<Longrightarrow> path_str ks = path_str ks' \<Longrightarrow> ks = ks'"
proof -
  assume a: "ks \<noteq> []" "ks' \<noteq> []" "path_str ks = path_str ks'"
  obtain k l k' l' where "ks = k # l" "ks' = k' # l'" using a(1,2) by (cases ks; cases ks') auto
  with a(3) escape_key_split[OF _ dotted_concat dotted_concat, of k l k' l'] suffix_inj[of l l'] show ?thesis by simp
qed

section \<open>What is found under a path\<close>

text \<open>The insertions that flattening makes, in order.\<close>

fun flat_entries :: "json \<Rightarrow> string \<Rightarrow> (string \<times> flattened_value) list" where
  "flat_entries (JObj fields) path =
     (if fields = [] then [(path, FlEmptyObject)]
      else concat (map (\<lambda>e. flat_entries (snd e) (child_path path (fst e))) fields))"
| "flat_entries v path = (case flattened_from_json_value v of None \<Rightarrow> [] | Some f \<Rightarrow> [(path, f)])"

lemma flatten_value_entries: "flatten_value v path m = fold (\<lambda>(k, x). bt_insert k x) (flat_entries v path) m"
proof (induction v path m rule: flatten_value.induct)
  case (1 fields path m)
  have "fold (\<lambda>e m. flatten_value (snd e) (child_path path (fst e)) m) es m' =
      fold (\<lambda>(k, x). bt_insert k x) (concat (map (\<lambda>e. flat_entries (snd e) (child_path path (fst e))) es)) m'"
    if "list_all (\<lambda>e. e \<in> set fields) es" "fields \<noteq> []" for es m'
    using that 1 by (induction es arbitrary: m') simp_all
  from this[of fields m] show ?case by (simp add: list_all_iff)
qed (simp_all split: option.split)

text \<open>Objects with one value per key, at every depth.\<close>

fun json_keys_distinct :: "json \<Rightarrow> bool" where
  "json_keys_distinct (JObj es) \<longleftrightarrow> distinct (map fst es) \<and> list_all (\<lambda>e. json_keys_distinct (snd e)) es"
| "json_keys_distinct _ \<longleftrightarrow> True"

lemma bt_from_iter_subset: "set (bt_from_iter es) \<subseteq> set es"
proof
  fix e assume "e \<in> set (bt_from_iter es)"
  then have "map_of (rev es) (fst e) = Some (snd e)"
    using bt_inv_set[OF bt_from_iter_inv, of "fst e" "snd e" es] by (simp add: bt_from_iter_get)
  then show "e \<in> set es" by (auto dest: map_of_SomeD)
qed

lemma to_value_keys_distinct: "json_keys_distinct (to_value j)"
proof (induction j rule: to_value.induct)
  case (2 es)
  have "json_keys_distinct (snd e)" if "e \<in> set (bt_from_iter (map (\<lambda>e. (fst e, to_value (snd e))) es))" for e
    using bt_from_iter_subset that 2 by fastforce
  then show ?case using bt_inv_distinct[OF bt_from_iter_inv] by (simp add: list_all_iff)
qed simp_all

definition extend :: "string \<Rightarrow> string list \<Rightarrow> string" where
  "extend path ks = path @ concat (map (\<lambda>k. CHR ''.'' # escape_key k) ks)"

lemma at_path_leaf: "at_path (JObj es) ks = Some v \<Longrightarrow> leaf v = Some f \<Longrightarrow> es \<noteq> [] \<Longrightarrow> \<exists>k l. ks = k # l"
  by (cases ks) (auto simp: leaf_def flattened_from_json_value_def split: if_splits)

lemma map_of_ex:
  assumes "distinct (map fst es)"
  shows "(\<exists>e\<in>set es. P (fst e) (snd e)) \<longleftrightarrow> (\<exists>k v. map_of es k = Some v \<and> P k v)"
  using map_of_eq_Some_iff[OF assms] by (metis fst_conv prod.collapse snd_conv)

lemma flat_entries_iff:
  "path \<noteq> [] \<Longrightarrow> json_keys_distinct v \<Longrightarrow>
     (p, f) \<in> set (flat_entries v path) \<longleftrightarrow> (\<exists>ks u. p = extend path ks \<and> at_path v ks = Some u \<and> leaf u = Some f)"
proof (induction v path arbitrary: p f rule: flat_entries.induct)
  case (1 fields path)
  show ?case
  proof (cases "fields = []")
    case True
    have "at_path (JObj []) ks = Some u \<longleftrightarrow> ks = [] \<and> u = JObj []" for ks u by (cases ks) auto
    with True show ?thesis by (auto simp: leaf_def extend_def)
  next
    case False
    have d: "distinct (map fst fields)" using 1(3) by simp
    have ih: "(p, f) \<in> set (flat_entries (snd e) (child_path path (fst e)))
        \<longleftrightarrow> (\<exists>ks u. p = extend path (fst e # ks) \<and> at_path (snd e) ks = Some u \<and> leaf u = Some f)" if "e \<in> set fields" for e
    proof -
      have "json_keys_distinct (snd e)" using 1(3) that by (auto simp: list_all_iff)
      moreover have "child_path path (fst e) = extend path [fst e]" "child_path path (fst e) \<noteq> []"
        using 1(2) by (simp_all add: child_path_def extend_def)
      ultimately show ?thesis using 1(1)[OF False that, of p f] by (simp add: extend_def)
    qed
    have "(p, f) \<in> set (flat_entries (JObj fields) path) \<longleftrightarrow>
        (\<exists>e\<in>set fields. \<exists>ks u. p = extend path (fst e # ks) \<and> at_path (snd e) ks = Some u \<and> leaf u = Some f)"
      using False ih by auto
    also have "\<dots> \<longleftrightarrow> (\<exists>k v ks u. map_of fields k = Some v \<and> p = extend path (k # ks) \<and> at_path v ks = Some u \<and> leaf u = Some f)"
      using map_of_ex[OF d, of "\<lambda>k v. \<exists>ks u. p = extend path (k # ks) \<and> at_path v ks = Some u \<and> leaf u = Some f"] by simp
    also have "\<dots> \<longleftrightarrow> (\<exists>ks u. p = extend path ks \<and> at_path (JObj fields) ks = Some u \<and> leaf u = Some f)" (is "?l \<longleftrightarrow> ?r")
    proof
      assume ?l
      then obtain k v ks u where "map_of fields k = Some v" "p = extend path (k # ks)" "at_path v ks = Some u" "leaf u = Some f"
        by blast
      then show ?r by (intro exI[of _ "k # ks"] exI[of _ u]) simp
    next
      assume ?r
      then obtain ks u where r: "p = extend path ks" "at_path (JObj fields) ks = Some u" "leaf u = Some f" by blast
      with at_path_leaf[OF r(2,3) False] obtain k l where "ks = k # l" by blast
      with r show ?l by (auto split: option.splits)
    qed
    finally show ?thesis .
  qed
qed (auto simp: leaf_def extend_def split: option.splits elim!: at_path.elims)

text \<open>At the top level the path is empty: a field there is only found under its own name when no name is
  empty.\<close>

lemma flat_entries_top:
  assumes "json_keys_distinct (JObj es)" "es \<noteq> []" "[] \<notin> fst ` set es"
  shows "(p, f) \<in> set (flat_entries (JObj es) []) \<longleftrightarrow>
    (\<exists>ks u. p = path_str ks \<and> at_path (JObj es) ks = Some u \<and> leaf u = Some f)"
proof -
  have d: "distinct (map fst es)" using assms(1) by simp
  have e: "(p, f) \<in> set (flat_entries (snd e) (child_path [] (fst e))) \<longleftrightarrow>
      (\<exists>ks u. p = path_str (fst e # ks) \<and> at_path (snd e) ks = Some u \<and> leaf u = Some f)" if "e \<in> set es" for e
  proof -
    have "fst e \<noteq> []" using assms(3) that by (metis imageI)
    moreover have "json_keys_distinct (snd e)" using assms(1) that by (auto simp: list_all_iff)
    ultimately show ?thesis
      using flat_entries_iff[of "child_path [] (fst e)" "snd e" p f] by (simp add: child_path_def escape_key_eq_Nil extend_def)
  qed
  have "(p, f) \<in> set (flat_entries (JObj es) []) \<longleftrightarrow>
      (\<exists>e\<in>set es. \<exists>ks u. p = path_str (fst e # ks) \<and> at_path (snd e) ks = Some u \<and> leaf u = Some f)"
    using assms(2) e by auto
  also have "\<dots> \<longleftrightarrow> (\<exists>k v ks u. map_of es k = Some v \<and> p = path_str (k # ks) \<and> at_path v ks = Some u \<and> leaf u = Some f)"
    using map_of_ex[OF d, of "\<lambda>k v. \<exists>ks u. p = path_str (k # ks) \<and> at_path v ks = Some u \<and> leaf u = Some f"] by simp
  also have "\<dots> \<longleftrightarrow> (\<exists>ks u. p = path_str ks \<and> at_path (JObj es) ks = Some u \<and> leaf u = Some f)" (is "?l \<longleftrightarrow> ?r")
  proof
    assume ?l
    then obtain k v ks u where "map_of es k = Some v" "p = path_str (k # ks)" "at_path v ks = Some u" "leaf u = Some f"
      by blast
    then show ?r by (intro exI[of _ "k # ks"] exI[of _ u]) simp
  next
    assume ?r
    then obtain ks u where r: "p = path_str ks" "at_path (JObj es) ks = Some u" "leaf u = Some f" by blast
    with at_path_leaf[OF r(2,3) assms(2)] obtain k l where "ks = k # l" by blast
    with r show ?l by (auto split: option.splits)
  qed
  finally show ?thesis .
qed

lemma map_of_functional:
  assumes "\<And>k v v'. (k, v) \<in> set es \<Longrightarrow> (k, v') \<in> set es \<Longrightarrow> v = v'"
  shows "map_of es k = Some v \<longleftrightarrow> (k, v) \<in> set es"
  using assms by (metis map_of_SomeD weak_map_of_SomeI)


definition ex_raw :: json where
  "ex_raw = JObj [(''sender'', JStr ''@a:h''), (''content'', JObj [(''m.mentions'', JObj [(''room'', JBool True)])])]"


text \<open>A field with an empty name keeps the path empty, so that what is below it is found under the names of
  top-level fields.\<close>

lemma empty_name_hides_level:
  "bt_get (from_raw (JObj [([], JObj [(''type'', JStr ''m.room.message'')])])) ''type'' = Some (FlString ''m.room.message'')"
  by code_simp

end
