(* ===== verification/Push_Condition.thy ===== *)
theory Push_Condition
  imports Push_Match Push_Flatten Power_Levels Identifiers
begin

text \<open>
  The conditions of push rules (\<open>core/src/push/condition.rs\<close> with
  \<open>condition/room_member_count_is.rs\<close> and \<open>condition/condition_serde.rs\<close>): their data, how they
  are written to and read from JSON, and whether they apply to an event.  Whether a condition
  applies is \<open>None\<close> when the evaluation panics.  All the unstable features the server turns on are
  part of the model.
\<close>

section \<open>Member counts\<close>

datatype comparison_operator = OpEq | OpLt | OpGt | OpGe | OpLe

record room_member_count_is =
  prefix_op :: comparison_operator
  member_limit :: nat

definition member_count_gt :: "nat \<Rightarrow> room_member_count_is" where
  "member_count_gt count = \<lparr>prefix_op = OpGt, member_limit = count\<rparr>"

definition member_count_from :: "nat \<Rightarrow> room_member_count_is" where
  "member_count_from x = \<lparr>prefix_op = OpEq, member_limit = x\<rparr>"

definition member_count_from_range_from :: "nat \<Rightarrow> room_member_count_is" where
  "member_count_from_range_from x = \<lparr>prefix_op = OpGe, member_limit = x\<rparr>"

definition member_count_from_range_to :: "nat \<Rightarrow> room_member_count_is" where
  "member_count_from_range_to x = \<lparr>prefix_op = OpLt, member_limit = x\<rparr>"

definition member_count_from_range_to_inclusive :: "nat \<Rightarrow> room_member_count_is" where
  "member_count_from_range_to_inclusive x = \<lparr>prefix_op = OpLe, member_limit = x\<rparr>"

fun operator_prefix :: "comparison_operator \<Rightarrow> string" where
  "operator_prefix OpEq = ''''"
| "operator_prefix OpLt = ''<''"
| "operator_prefix OpGt = ''>''"
| "operator_prefix OpGe = ''>=''"
| "operator_prefix OpLe = ''<=''"

definition member_count_display :: "room_member_count_is \<Rightarrow> string" where
  "member_count_display c = operator_prefix (prefix_op c) @ show_nat (member_limit c)"

definition member_count_prefix :: "string \<Rightarrow> comparison_operator \<times> string" where
  "member_count_prefix s =
     (case strip_prefix ''<='' s of Some r \<Rightarrow> (OpLe, r) | None \<Rightarrow>
     (case strip_prefix ''<'' s of Some r \<Rightarrow> (OpLt, r) | None \<Rightarrow>
     (case strip_prefix ''>='' s of Some r \<Rightarrow> (OpGe, r) | None \<Rightarrow>
     (case strip_prefix ''>'' s of Some r \<Rightarrow> (OpGt, r) | None \<Rightarrow>
     (case strip_prefix ''=='' s of Some r \<Rightarrow> (OpEq, r) | None \<Rightarrow> (OpEq, s))))))"

definition member_count_from_str :: "string \<Rightarrow> room_member_count_is option" where
  "member_count_from_str s =
     (let (op, count_str) = member_count_prefix s
      in map_option (\<lambda>n. \<lparr>prefix_op = op, member_limit = n\<rparr>) (parse_unsigned u64_max count_str))"

datatype bound = Included nat | Excluded nat | Unbounded

definition start_bound :: "room_member_count_is \<Rightarrow> bound" where
  "start_bound c =
     (case prefix_op c of
        OpEq \<Rightarrow> Included (member_limit c)
      | OpLt \<Rightarrow> Unbounded
      | OpLe \<Rightarrow> Unbounded
      | OpGt \<Rightarrow> Excluded (member_limit c)
      | OpGe \<Rightarrow> Included (member_limit c))"

definition end_bound :: "room_member_count_is \<Rightarrow> bound" where
  "end_bound c =
     (case prefix_op c of
        OpEq \<Rightarrow> Included (member_limit c)
      | OpGt \<Rightarrow> Unbounded
      | OpGe \<Rightarrow> Unbounded
      | OpLt \<Rightarrow> Excluded (member_limit c)
      | OpLe \<Rightarrow> Included (member_limit c))"

text \<open>\<open>RangeBounds::contains\<close> of the standard library.\<close>

definition range_contains :: "bound \<Rightarrow> bound \<Rightarrow> nat \<Rightarrow> bool" where
  "range_contains lo hi x \<longleftrightarrow>
     (case lo of Included a \<Rightarrow> a \<le> x | Excluded a \<Rightarrow> a < x | Unbounded \<Rightarrow> True)
     \<and> (case hi of Included b \<Rightarrow> x \<le> b | Excluded b \<Rightarrow> x < b | Unbounded \<Rightarrow> True)"

definition member_count_contains :: "room_member_count_is \<Rightarrow> nat \<Rightarrow> bool" where
  "member_count_contains c x = range_contains (start_bound c) (end_bound c) x"

section \<open>Conditions\<close>

datatype room_version_feature = ExtensibleEvents | CustomFeature string

fun list_for_room_version :: "room_version_id \<Rightarrow> room_version_feature list" where
  "list_for_room_version v = []"

definition feature_as_str :: "room_version_feature \<Rightarrow> string" where
  "feature_as_str f =
     (case f of ExtensibleEvents \<Rightarrow> ''org.matrix.msc3932.extensible_events'' | CustomFeature s \<Rightarrow> s)"

definition feature_from_str :: "string \<Rightarrow> room_version_feature" where
  "feature_from_str s =
     (if s = ''org.matrix.msc3932.extensible_events'' then ExtensibleEvents else CustomFeature s)"

datatype push_condition =
    EventMatch string string
  | ContainsDisplayName
  | RoomMemberCount room_member_count_is
  | SenderNotificationPermission string
  | RoomVersionSupports room_version_feature
  | EventPropertyIs string scalar_json
  | EventPropertyContains string scalar_json
  | ThreadSubscription bool
  | CustomCondition string "(string, json) btree"

fun condition_kind :: "push_condition \<Rightarrow> string" where
  "condition_kind (EventMatch _ _) = ''event_match''"
| "condition_kind ContainsDisplayName = ''contains_display_name''"
| "condition_kind (RoomMemberCount _) = ''room_member_count''"
| "condition_kind (SenderNotificationPermission _) = ''sender_notification_permission''"
| "condition_kind (RoomVersionSupports _) = ''org.matrix.msc3931.room_version_supports''"
| "condition_kind (EventPropertyIs _ _) = ''event_property_is''"
| "condition_kind (EventPropertyContains _ _) = ''event_property_contains''"
| "condition_kind (ThreadSubscription _) = ''io.element.msc4306.thread_subscription''"
| "condition_kind (CustomCondition kind _) = kind"

section \<open>Conditions as JSON\<close>

fun scalar_serialize :: "scalar_json \<Rightarrow> json" where
  "scalar_serialize ScNull = JNull"
| "scalar_serialize (ScBool b) = JBool b"
| "scalar_serialize (ScInteger n) = JInt n"
| "scalar_serialize (ScString s) = JStr s"

definition scalar_deserialize :: "json \<Rightarrow> de_error + scalar_json" where
  "scalar_deserialize j = map_err (\<lambda>_. DeError) (scalar_try_from_json_value (to_value j))"

fun condition_data :: "push_condition \<Rightarrow> (string \<times> json) list" where
  "condition_data (EventMatch key pattern) = [(''key'', JStr key), (''pattern'', JStr pattern)]"
| "condition_data ContainsDisplayName = []"
| "condition_data (RoomMemberCount c) = [(''is'', JStr (member_count_display c))]"
| "condition_data (SenderNotificationPermission key) = [(''key'', JStr key)]"
| "condition_data (RoomVersionSupports f) = [(''feature'', JStr (feature_as_str f))]"
| "condition_data (EventPropertyIs key v) = [(''key'', JStr key), (''value'', scalar_serialize v)]"
| "condition_data (EventPropertyContains key v) = [(''key'', JStr key), (''value'', scalar_serialize v)]"
| "condition_data (ThreadSubscription b) = [(''subscribed'', JBool b)]"
| "condition_data (CustomCondition _ data) = data"

definition condition_serialize :: "push_condition \<Rightarrow> json" where
  "condition_serialize c = JObj ((''kind'', JStr (condition_kind c)) # condition_data c)"

text \<open>The data of each kind is a struct with one or two required fields.\<close>

definition de_required2 ::
  "string \<Rightarrow> (json \<Rightarrow> de_error + 'a) \<Rightarrow> string \<Rightarrow> (json \<Rightarrow> de_error + 'b) \<Rightarrow> json \<Rightarrow> de_error + 'a \<times> 'b" where
  "de_required2 f df g dg j =
     and_then (struct_fields [(f, False), (g, False)] j) (\<lambda>fs.
     case (fs ! 0, fs ! 1) of
       (Some v, Some w) \<Rightarrow> and_then (df v) (\<lambda>x. map_ok (Pair x) (dg w))
     | _ \<Rightarrow> Inl DeError)"

definition de_member_count :: "json \<Rightarrow> de_error + room_member_count_is" where
  "de_member_count j = and_then (de_string j) (\<lambda>s. ok_or DeError (member_count_from_str s))"

definition condition_deserialize :: "json \<Rightarrow> de_error + push_condition" where
  "condition_deserialize j =
     and_then (de_required1 ''kind'' de_string j) (\<lambda>kind.
     if kind = ''event_match'' then
       map_ok (\<lambda>(k, p). EventMatch k p) (de_required2 ''key'' de_string ''pattern'' de_string j)
     else if kind = ''contains_display_name'' then Inr ContainsDisplayName
     else if kind = ''room_member_count'' then map_ok RoomMemberCount (de_required1 ''is'' de_member_count j)
     else if kind = ''sender_notification_permission'' then
       map_ok SenderNotificationPermission (de_required1 ''key'' de_string j)
     else if kind = ''org.matrix.msc3931.room_version_supports'' then
       map_ok (\<lambda>s. RoomVersionSupports (feature_from_str s)) (de_required1 ''feature'' de_string j)
     else if kind = ''event_property_is'' then
       map_ok (\<lambda>(k, v). EventPropertyIs k v) (de_required2 ''key'' de_string ''value'' scalar_deserialize j)
     else if kind = ''event_property_contains'' then
       map_ok (\<lambda>(k, v). EventPropertyContains k v) (de_required2 ''key'' de_string ''value'' scalar_deserialize j)
     else if kind = ''io.element.msc4306.thread_subscription'' then
       map_ok ThreadSubscription (de_required1 ''subscribed'' de_bool j)
     else case to_value j of
            JObj data \<Rightarrow> Inr (CustomCondition kind (bt_remove ''kind'' data))
          | _ \<Rightarrow> Inl DeError)"

section \<open>Evaluation\<close>

record push_power_levels_ctx =
  pctx_users :: "(string, int) btree"
  pctx_users_default :: int
  pctx_notifications :: notification_power_levels
  pctx_rules :: room_power_levels_rules

record push_room_ctx =
  ctx_room_id :: string
  ctx_member_count :: nat
  ctx_user_id :: string
  ctx_user_display_name :: string
  ctx_power_levels :: "push_power_levels_ctx option"
  ctx_supported_features :: "room_version_feature list"
  ctx_has_thread_subscription_fn :: "(string \<Rightarrow> bool) option"

definition ctx_from_room_power_levels :: "room_power_levels \<Rightarrow> push_power_levels_ctx" where
  "ctx_from_room_power_levels c =
     \<lparr>pctx_users = pl_users c, pctx_users_default = pl_users_default c, pctx_notifications = pl_notifications c,
      pctx_rules = pl_rules c\<rparr>"

definition room_ctx_new :: "string \<Rightarrow> nat \<Rightarrow> string \<Rightarrow> string \<Rightarrow> push_room_ctx" where
  "room_ctx_new room_id member_count user_id display_name =
     \<lparr>ctx_room_id = room_id, ctx_member_count = member_count, ctx_user_id = user_id,
      ctx_user_display_name = display_name, ctx_power_levels = None, ctx_supported_features = [],
      ctx_has_thread_subscription_fn = None\<rparr>"

definition with_power_levels :: "push_power_levels_ctx \<Rightarrow> push_room_ctx \<Rightarrow> push_room_ctx" where
  "with_power_levels levels ctx = ctx\<lparr>ctx_power_levels := Some levels\<rparr>"

definition with_has_thread_subscription_fn :: "(string \<Rightarrow> bool) \<Rightarrow> push_room_ctx \<Rightarrow> push_room_ctx" where
  "with_has_thread_subscription_fn f ctx = ctx\<lparr>ctx_has_thread_subscription_fn := Some f\<rparr>"

definition sent_by_self :: "flattened_json \<Rightarrow> push_room_ctx \<Rightarrow> bool" where
  "sent_by_self event ctx \<longleftrightarrow> flattened_get_str event ''sender'' = Some (ctx_user_id ctx)"

definition check_event_match ::
  "matcher \<Rightarrow> flattened_json \<Rightarrow> string \<Rightarrow> string \<Rightarrow> push_room_ctx \<Rightarrow> bool option" where
  "check_event_match M event key pattern ctx =
     (case (if key = ''room_id'' then Some (ctx_room_id ctx) else flattened_get_str event key) of
        None \<Rightarrow> Some False
      | Some v \<Rightarrow> matches_pattern M v pattern (key = ''content.body''))"

definition sender_notification_permission_applies ::
  "string \<Rightarrow> flattened_json \<Rightarrow> push_room_ctx \<Rightarrow> bool" where
  "sender_notification_permission_applies key event ctx \<longleftrightarrow>
     (case ctx_power_levels ctx of
        None \<Rightarrow> False
      | Some levels \<Rightarrow>
          (case flattened_get_str event ''sender'' of
             None \<Rightarrow> False
           | Some sender \<Rightarrow>
               is_ok (user_id_validate sender)
               \<and> (let sender_level = unwrap_or (pctx_users_default levels) (bt_get (pctx_users levels) sender)
                   in case notification_get (pctx_notifications levels) key of
                        Some level \<Rightarrow> level \<le> sender_level
                      | None \<Rightarrow> False)))"

definition room_version_supports_applies :: "room_version_feature \<Rightarrow> push_room_ctx \<Rightarrow> bool" where
  "room_version_supports_applies f ctx \<longleftrightarrow>
     (case f of
        ExtensibleEvents \<Rightarrow> ExtensibleEvents \<in> set (ctx_supported_features ctx)
      | CustomFeature _ \<Rightarrow> False)"

definition event_property_is_applies :: "string \<Rightarrow> scalar_json \<Rightarrow> flattened_json \<Rightarrow> bool" where
  "event_property_is_applies key v event \<longleftrightarrow>
     (case bt_get event key of None \<Rightarrow> False | Some x \<Rightarrow> scalar_eq v x)"

definition event_property_contains_applies :: "string \<Rightarrow> scalar_json \<Rightarrow> flattened_json \<Rightarrow> bool" where
  "event_property_contains_applies key v event \<longleftrightarrow>
     (case Option.bind (bt_get event key) flattened_as_array of None \<Rightarrow> False | Some vs \<Rightarrow> v \<in> set vs)"

definition REL_TYPE :: string where "REL_TYPE = ''content.m'' @ [CHR 0x5C] @ ''.relates_to.rel_type''"
definition REL_EVENT_ID :: string where "REL_EVENT_ID = ''content.m'' @ [CHR 0x5C] @ ''.relates_to.event_id''"

definition thread_subscription_applies :: "bool \<Rightarrow> flattened_json \<Rightarrow> push_room_ctx \<Rightarrow> bool" where
  "thread_subscription_applies subscribed event ctx \<longleftrightarrow>
     (case ctx_has_thread_subscription_fn ctx of
        None \<Rightarrow> False
      | Some has_subscription \<Rightarrow>
          flattened_get_str event REL_TYPE = Some ''m.thread''
          \<and> (case flattened_get_str event REL_EVENT_ID of
                None \<Rightarrow> False
              | Some thread_root \<Rightarrow>
                  is_ok (event_id_validate thread_root) \<and> subscribed = has_subscription thread_root))"

definition condition_applies :: "matcher \<Rightarrow> flattened_json \<Rightarrow> push_room_ctx \<Rightarrow> push_condition \<Rightarrow> bool option" where
  "condition_applies M event ctx c =
     (if sent_by_self event ctx then Some False else
      case c of
        EventMatch key pattern \<Rightarrow> check_event_match M event key pattern ctx
      | ContainsDisplayName \<Rightarrow>
          (case flattened_get_str event ''content.body'' of
             None \<Rightarrow> Some False
           | Some v \<Rightarrow> matches_pattern M v (ctx_user_display_name ctx) True)
      | RoomMemberCount is_count \<Rightarrow> Some (member_count_contains is_count (ctx_member_count ctx))
      | SenderNotificationPermission key \<Rightarrow> Some (sender_notification_permission_applies key event ctx)
      | RoomVersionSupports f \<Rightarrow> Some (room_version_supports_applies f ctx)
      | EventPropertyIs key v \<Rightarrow> Some (event_property_is_applies key v event)
      | EventPropertyContains key v \<Rightarrow> Some (event_property_contains_applies key v event)
      | ThreadSubscription subscribed \<Rightarrow> Some (thread_subscription_applies subscribed event ctx)
      | CustomCondition _ _ \<Rightarrow> Some False)"

section \<open>Member counts read back\<close>

lemma digit_char: "d < 10 \<Longrightarrow> digit_val 10 (char_of (48 + d)) = Some d"
  by (simp add: digit_val_def is_ascii_digit_def byte_def)

lemma show_nat_digits: "show_nat n \<noteq> [] \<and> all_digits 10 (show_nat n) \<and> digits_val 10 (show_nat n) = n"
proof (induction n rule: show_nat.induct)
  case (1 n)
  then show ?case
    by (subst (1 2 3) show_nat.simps) (auto simp: all_digits_def digits_val_def digit_char unwrap_or_def)
qed

lemma show_nat_Cons: "\<exists>c r. show_nat n = c # r \<and> c \<notin> {CHR ''='', CHR ''<'', CHR ''>'', CHR ''+'', CHR ''-''}"
proof -
  obtain c r where s: "show_nat n = c # r" using show_nat_digits[of n] by (cases "show_nat n") auto
  with show_nat_digits[of n] have "digit_val 10 c \<noteq> None" by (simp add: all_digits_def)
  then have "48 \<le> byte c \<and> byte c \<le> 57" 
    by (auto simp: digit_val_def is_ascii_digit_def is_ascii_lower_def is_ascii_upper_def split: if_splits)
  with s show ?thesis by (auto simp: byte_def)
qed

lemma parse_show_nat: "n \<le> mx \<Longrightarrow> parse_unsigned mx (show_nat n) = Some n"
  using show_nat_digits[of n] show_nat_Cons[of n] by (auto simp: parse_unsigned_def Let_def)

lemma member_count_read_back:
  assumes "member_limit c \<le> u64_max"
  shows "member_count_from_str (member_count_display c) = Some c"
proof -
  obtain x r where s: "show_nat (member_limit c) = x # r" "x \<notin> {CHR ''='', CHR ''<'', CHR ''>'', CHR ''+'', CHR ''-''}"
    using show_nat_Cons by blast
  have "member_count_prefix (member_count_display c) = (prefix_op c, show_nat (member_limit c))"
    using s by (cases "prefix_op c") (auto simp: member_count_display_def member_count_prefix_def)
  with parse_show_nat[OF assms] show ?thesis by (simp add: member_count_from_str_def)
qed

lemma member_count_contains_iff:
  "member_count_contains c x \<longleftrightarrow>
     (case prefix_op c of OpEq \<Rightarrow> x = member_limit c | OpLt \<Rightarrow> x < member_limit c | OpGt \<Rightarrow> member_limit c < x
        | OpGe \<Rightarrow> member_limit c \<le> x | OpLe \<Rightarrow> x \<le> member_limit c)"
  by (cases "prefix_op c") (auto simp: member_count_contains_def range_contains_def start_bound_def end_bound_def)

section \<open>Conditions read back\<close>

text \<open>What the types of the code guarantee of a condition, and that a custom condition is not one of the known
  kinds and carries no second \<open>kind\<close>.\<close>

definition known_kinds :: "string list" where
  "known_kinds = [''event_match'', ''contains_display_name'', ''room_member_count'', ''sender_notification_permission'',
     ''org.matrix.msc3931.room_version_supports'', ''event_property_is'', ''event_property_contains'',
     ''io.element.msc4306.thread_subscription'']"

fun scalar_ok :: "scalar_json \<Rightarrow> bool" where
  "scalar_ok (ScInteger n) \<longleftrightarrow> i64_min \<le> n \<and> n \<le> i64_max"
| "scalar_ok _ \<longleftrightarrow> True"

fun condition_ok :: "push_condition \<Rightarrow> bool" where
  "condition_ok (RoomMemberCount c) \<longleftrightarrow> member_limit c \<le> u64_max"
| "condition_ok (RoomVersionSupports f) \<longleftrightarrow> f \<noteq> CustomFeature ''org.matrix.msc3932.extensible_events''"
| "condition_ok (EventPropertyIs _ v) \<longleftrightarrow> scalar_ok v"
| "condition_ok (EventPropertyContains _ v) \<longleftrightarrow> scalar_ok v"
| "condition_ok (CustomCondition kind data) \<longleftrightarrow>
     kind \<notin> set known_kinds \<and> bt_inv data \<and> ''kind'' \<notin> fst ` set data \<and> (\<forall>e\<in>set data. to_value (snd e) = snd e)"
| "condition_ok _ \<longleftrightarrow> True"

lemma scalar_read_back: "scalar_ok v \<Longrightarrow> scalar_deserialize (scalar_serialize v) = Inr v"
  by (cases v) (simp_all add: scalar_deserialize_def scalar_try_from_json_value_def number_as_i64_def)

lemma custom_data_value:
  assumes "bt_inv data" "''kind'' \<notin> fst ` set data" "\<forall>e\<in>set data. to_value (snd e) = snd e"
  shows "to_value (JObj ((''kind'', JStr kind) # data)) = JObj (bt_insert ''kind'' (JStr kind) data)"
proof -
  have "map (\<lambda>e. (fst e, to_value (snd e))) data = data" using assms(3) by (simp add: map_idI)
  moreover have "bt_from_iter ((''kind'', JStr kind) # data) = bt_insert ''kind'' (JStr kind) data"
  proof (rule bt_inv_ext)
    have "map_of (rev data) = map_of data"
      using assms(1) by (metis bt_inv_distinct distinct_rev map_of_eq_Some_iff map_of_inject_set rev_map set_rev)
    moreover have "bt_get data ''kind'' = None" using assms(2) by (simp add: map_of_eq_None_iff)
    ultimately show "bt_get (bt_from_iter ((''kind'', JStr kind) # data)) = bt_get (bt_insert ''kind'' (JStr kind) data)"
      using assms(1) by (auto simp: bt_from_iter_get bt_simps map_add_def fun_eq_iff split: option.splits)
  qed (simp_all add: bt_from_iter_inv bt_inv_insert assms(1))
  ultimately show ?thesis by simp
qed

lemma struct_fields_obj1: "struct_fields [(f, False)] (JObj es) = (if length (field_values f es) > 1 then Inl DeError else Inr [map_of es f])"
  by (simp add: struct_fields_def)

lemma condition_data_no_kind: "condition_ok c \<Longrightarrow> ''kind'' \<notin> fst ` set (condition_data c)"
  by (cases c) simp_all

lemma kind_read_back:
  "condition_ok c \<Longrightarrow> de_required1 ''kind'' de_string (condition_serialize c) = Inr (condition_kind c)"
  using condition_data_no_kind[of c]
  by (auto simp: de_required1_def condition_serialize_def struct_fields_obj1 field_values_def de_string_def
      filter_empty_conv image_iff)

text \<open>A push condition that is written to JSON is read back unchanged, for every kind of condition and for
  custom conditions with any data.\<close>

theorem condition_round_trip:
  assumes "condition_ok c"
  shows "condition_deserialize (condition_serialize c) = Inr c"
proof (cases c)
  case (CustomCondition kind data)
  with assms have k: "kind \<notin> set known_kinds" "bt_inv data" "''kind'' \<notin> fst ` set data" "\<forall>e\<in>set data. to_value (snd e) = snd e"
    by simp_all
  have "to_value (condition_serialize c) = JObj (bt_insert ''kind'' (JStr kind) data)"
    unfolding condition_serialize_def CustomCondition using custom_data_value[OF k(2-4), of kind] by simp
  moreover have "bt_remove ''kind'' (bt_insert ''kind'' (JStr kind) data) = data"
    using k(2) map_of_eq_None_iff[of data "''kind''"] k(3)
    by (intro bt_inv_ext) (auto simp: bt_simps bt_inv_remove fun_eq_iff)
  moreover have "de_required1 ''kind'' de_string (condition_serialize c) = Inr kind"
    using kind_read_back[OF assms] CustomCondition by simp
  ultimately show ?thesis
    using k(1) CustomCondition by (simp add: condition_deserialize_def known_kinds_def)
next
  case (RoomMemberCount n)
  with assms show ?thesis
    by (simp add: condition_deserialize_def kind_read_back[OF assms] condition_serialize_def de_required1_def
        struct_fields_obj1 field_values_def de_member_count_def de_string_def member_count_read_back)
next
  case (RoomVersionSupports f)
  with assms show ?thesis
    by (cases f) (simp_all add: condition_deserialize_def kind_read_back[OF assms] condition_serialize_def de_required1_def
        struct_fields_obj1 field_values_def de_string_def feature_as_str_def feature_from_str_def)
qed (use assms in \<open>simp_all add: condition_deserialize_def kind_read_back[OF assms] condition_serialize_def de_required1_def
        de_required2_def struct_fields_def field_values_def de_string_def de_bool_def scalar_read_back\<close>)

theorem condition_round_trip_witness:
  "condition_deserialize (condition_serialize (RoomMemberCount (member_count_gt 2))) = Inr (RoomMemberCount (member_count_gt 2))"
  by (rule condition_round_trip) (simp add: member_count_gt_def u64_max_def)

text \<open>C33: For a sender who is not a privileged creator, the condition on the permission to notify the whole room
  agrees with \<open>user_can_trigger_room_notification\<close> of the same power levels.  For a privileged creator,
  whose level is infinite, the condition still looks at the listed levels only.\<close>

theorem notification_permission_agrees:
  assumes "ctx_power_levels ctx = Some (ctx_from_room_power_levels pl)"
    and "flattened_get_str event ''sender'' = Some sender" "is_ok (user_id_validate sender)"
  shows "(sender_notification_permission_applies ''room'' event ctx \<longleftrightarrow> user_can_trigger_room_notification pl sender)
    \<longleftrightarrow> (\<not> is_privileged_creator pl sender
          \<or> npl_room (pl_notifications pl) \<le> unwrap_or (pl_users_default pl) (bt_get (pl_users pl) sender))"
proof -
  have "sender_notification_permission_applies ''room'' event ctx
      \<longleftrightarrow> npl_room (pl_notifications pl) \<le> unwrap_or (pl_users_default pl) (bt_get (pl_users pl) sender)"
    using assms by (simp add: sender_notification_permission_applies_def ctx_from_room_power_levels_def notification_get_def)
  then show ?thesis
    by (auto simp: user_can_trigger_room_notification_def for_user_def level_ge_def)
qed

definition ex_creator_levels :: room_power_levels where
  "ex_creator_levels =
     \<lparr>pl_ban = 50, pl_events = [], pl_events_default = 0, pl_invite = 0, pl_kick = 50, pl_redact = 50, pl_state_default = 50,
      pl_users = [], pl_users_default = 0, pl_notifications = \<lparr>npl_room = 50\<rparr>,
      pl_rules = \<lparr>privileged_creators = Some {''@a:h''}\<rparr>\<rparr>"

theorem notification_permission_agrees_witness:
  "\<not> (sender_notification_permission_applies ''room'' (from_raw ex_raw)
         (with_power_levels (ctx_from_room_power_levels ex_creator_levels) (room_ctx_new ''!r:h'' 2 ''@b:h'' ''B''))
       \<longleftrightarrow> user_can_trigger_room_notification ex_creator_levels ''@a:h'')"
proof -
  let ?ctx = "with_power_levels (ctx_from_room_power_levels ex_creator_levels) (room_ctx_new ''!r:h'' 2 ''@b:h'' ''B'')"
  have "flattened_get_str (from_raw ex_raw) ''sender'' = Some ''@a:h''" by code_simp
  moreover have "is_ok (user_id_validate ''@a:h'')" by code_simp
  moreover have "ctx_power_levels ?ctx = Some (ctx_from_room_power_levels ex_creator_levels)"
    by (simp add: with_power_levels_def)
  ultimately show ?thesis
    using notification_permission_agrees[of ?ctx ex_creator_levels "from_raw ex_raw" "''@a:h''"]
    by (simp add: ex_creator_levels_def is_privileged_creator_def unwrap_or_def)
qed

end
