(* ===== verification/Push_Rules.thy ===== *)
theory Push_Rules
  imports Push_Condition
begin

text \<open>
  Push rules and their actions (\<open>core/src/push/action.rs\<close>, \<open>push_rule.rs\<close>,
  \<open>simple_push_rule.rs\<close>, \<open>conditional_push_rule.rs\<close>, \<open>patterned_push_rule.rs\<close>,
  \<open>iter.rs\<close>) and the predefined rules (\<open>predefined.rs\<close>).
\<close>

section \<open>Actions\<close>

datatype sound_tweak_value = SoundDefault | SoundCustom string

datatype highlight_tweak_value = HighlightYes | HighlightNo

datatype tweak =
    SoundTweak sound_tweak_value
  | HighlightTweak highlight_tweak_value
  | CustomTweak string "json option"

datatype custom_action_data = ActionString string | ActionObject "(string, json) btree"

datatype action = Notify | SetTweak tweak | CustomAction custom_action_data

definition sound_from_str :: "string \<Rightarrow> sound_tweak_value" where
  "sound_from_str s = (if s = ''default'' then SoundDefault else SoundCustom s)"

fun sound_as_str :: "sound_tweak_value \<Rightarrow> string" where
  "sound_as_str SoundDefault = ''default''"
| "sound_as_str (SoundCustom s) = s"

definition highlight_from :: "bool \<Rightarrow> highlight_tweak_value" where
  "highlight_from b = (if b then HighlightYes else HighlightNo)"

definition tweak_new :: "string \<Rightarrow> json option \<Rightarrow> de_error + tweak" where
  "tweak_new set_tweak v =
     (if set_tweak = ''sound'' then
        and_then (ok_or DeError v) (\<lambda>j. map_ok (\<lambda>s. SoundTweak (sound_from_str s)) (de_string j))
      else if set_tweak = ''highlight'' then
        (case v of
           None \<Rightarrow> Inr (HighlightTweak HighlightYes)
         | Some j \<Rightarrow> map_ok (\<lambda>b. HighlightTweak (highlight_from b)) (de_bool j))
      else Inr (CustomTweak set_tweak v))"

text \<open>A missing or null \<open>value\<close> is \<open>None\<close>.\<close>

definition tweak_deserialize :: "json \<Rightarrow> de_error + tweak" where
  "tweak_deserialize j =
     and_then (struct_fields [(''set_tweak'', False), (''value'', False)] j) (\<lambda>fs.
     case fs ! 0 of
       None \<Rightarrow> Inl DeError
     | Some name \<Rightarrow> and_then (de_string name) (\<lambda>set_tweak.
         tweak_new set_tweak (if fs ! 1 = Some JNull then None else fs ! 1)))"

definition action_new :: "custom_action_data \<Rightarrow> de_error + action" where
  "action_new data =
     (case data of
        ActionString s \<Rightarrow> Inr (if s = ''notify'' then Notify else CustomAction (ActionString s))
      | ActionObject m \<Rightarrow>
          if bt_get m ''set_tweak'' \<noteq> None then map_ok SetTweak (tweak_deserialize (JObj m))
          else Inr (CustomAction (ActionObject m)))"

definition action_deserialize :: "json \<Rightarrow> de_error + action" where
  "action_deserialize j =
     (case to_value j of
        JStr s \<Rightarrow> action_new (ActionString s)
      | JObj m \<Rightarrow> action_new (ActionObject m)
      | _ \<Rightarrow> Inl DeError)"

fun tweak_serialize :: "tweak \<Rightarrow> json" where
  "tweak_serialize (SoundTweak s) = JObj [(''set_tweak'', JStr ''sound''), (''value'', JStr (sound_as_str s))]"
| "tweak_serialize (HighlightTweak HighlightYes) = JObj [(''set_tweak'', JStr ''highlight'')]"
| "tweak_serialize (HighlightTweak HighlightNo) = JObj [(''set_tweak'', JStr ''highlight''), (''value'', JBool False)]"
| "tweak_serialize (CustomTweak name None) = JObj [(''set_tweak'', JStr name)]"
| "tweak_serialize (CustomTweak name (Some v)) = JObj [(''set_tweak'', JStr name), (''value'', v)]"

fun action_serialize :: "action \<Rightarrow> json" where
  "action_serialize Notify = JStr ''notify''"
| "action_serialize (SetTweak t) = tweak_serialize t"
| "action_serialize (CustomAction (ActionString s)) = JStr s"
| "action_serialize (CustomAction (ActionObject m)) = JObj m"

definition is_highlight :: "action \<Rightarrow> bool" where
  "is_highlight a \<longleftrightarrow> a = SetTweak (HighlightTweak HighlightYes)"

definition should_notify :: "action \<Rightarrow> bool" where
  "should_notify a \<longleftrightarrow> a = Notify"

fun action_sound :: "action \<Rightarrow> sound_tweak_value option" where
  "action_sound (SetTweak (SoundTweak s)) = Some s"
| "action_sound _ = None"

section \<open>Rules\<close>

record simple_push_rule =
  rule_actions :: "action list"
  rule_default :: bool
  rule_enabled :: bool
  rule_id :: string

record conditional_push_rule = simple_push_rule +
  rule_conditions :: "push_condition list"

record patterned_push_rule = simple_push_rule +
  rule_pattern :: string

record push_rule = simple_push_rule +
  any_conditions :: "push_condition list option"
  any_pattern :: "string option"

datatype rule_kind = KindOverride | KindUnderride | KindSender | KindRoom | KindContent | KindPostContent | KindCustom string

datatype new_push_rule =
    NewOverride string "push_condition list" "action list"
  | NewContent string string "action list"
  | NewPostContent string "push_condition list" "action list"
  | NewRoom string "action list"
  | NewSender string "action list"
  | NewUnderride string "push_condition list" "action list"

fun new_rule_kind :: "new_push_rule \<Rightarrow> rule_kind" where
  "new_rule_kind (NewOverride _ _ _) = KindOverride"
| "new_rule_kind (NewContent _ _ _) = KindContent"
| "new_rule_kind (NewPostContent _ _ _) = KindPostContent"
| "new_rule_kind (NewRoom _ _) = KindRoom"
| "new_rule_kind (NewSender _ _) = KindSender"
| "new_rule_kind (NewUnderride _ _ _) = KindUnderride"

fun new_rule_id :: "new_push_rule \<Rightarrow> string" where
  "new_rule_id (NewOverride i _ _) = i"
| "new_rule_id (NewContent i _ _) = i"
| "new_rule_id (NewPostContent i _ _) = i"
| "new_rule_id (NewRoom i _) = i"
| "new_rule_id (NewSender i _) = i"
| "new_rule_id (NewUnderride i _ _) = i"

definition conditional_from_new :: "string \<Rightarrow> push_condition list \<Rightarrow> action list \<Rightarrow> conditional_push_rule" where
  "conditional_from_new i conditions actions =
     \<lparr>rule_actions = actions, rule_default = False, rule_enabled = True, rule_id = i, rule_conditions = conditions\<rparr>"

definition patterned_from_new :: "string \<Rightarrow> string \<Rightarrow> action list \<Rightarrow> patterned_push_rule" where
  "patterned_from_new i pattern actions =
     \<lparr>rule_actions = actions, rule_default = False, rule_enabled = True, rule_id = i, rule_pattern = pattern\<rparr>"

definition simple_from_new :: "string \<Rightarrow> action list \<Rightarrow> simple_push_rule" where
  "simple_from_new i actions = \<lparr>rule_actions = actions, rule_default = False, rule_enabled = True, rule_id = i\<rparr>"

definition push_rule_from_conditional :: "conditional_push_rule \<Rightarrow> push_rule" where
  "push_rule_from_conditional r =
     \<lparr>rule_actions = rule_actions r, rule_default = rule_default r, rule_enabled = rule_enabled r, rule_id = rule_id r,
      any_conditions = Some (rule_conditions r), any_pattern = None\<rparr>"

definition push_rule_from_patterned :: "patterned_push_rule \<Rightarrow> push_rule" where
  "push_rule_from_patterned r =
     \<lparr>rule_actions = rule_actions r, rule_default = rule_default r, rule_enabled = rule_enabled r, rule_id = rule_id r,
      any_conditions = None, any_pattern = Some (rule_pattern r)\<rparr>"

definition push_rule_from_simple :: "simple_push_rule \<Rightarrow> push_rule" where
  "push_rule_from_simple r =
     \<lparr>rule_actions = rule_actions r, rule_default = rule_default r, rule_enabled = rule_enabled r, rule_id = rule_id r,
      any_conditions = None, any_pattern = None\<rparr>"

definition conditional_from_push_rule :: "push_rule \<Rightarrow> conditional_push_rule" where
  "conditional_from_push_rule r =
     \<lparr>rule_actions = rule_actions r, rule_default = rule_default r, rule_enabled = rule_enabled r, rule_id = rule_id r,
      rule_conditions = unwrap_or [] (any_conditions r)\<rparr>"

datatype missing_pattern_error = MissingPatternError

definition patterned_try_from_push_rule :: "push_rule \<Rightarrow> missing_pattern_error + patterned_push_rule" where
  "patterned_try_from_push_rule r =
     (case any_pattern r of
        Some pattern \<Rightarrow> Inr \<lparr>rule_actions = rule_actions r, rule_default = rule_default r,
          rule_enabled = rule_enabled r, rule_id = rule_id r, rule_pattern = pattern\<rparr>
      | None \<Rightarrow> Inl MissingPatternError)"

text \<open>The identifier type of a simple rule decides which strings it accepts.\<close>

definition simple_try_from_push_rule :: "(string \<Rightarrow> id_error + unit) \<Rightarrow> push_rule \<Rightarrow> id_error + simple_push_rule" where
  "simple_try_from_push_rule validate r =
     map_ok (\<lambda>_. \<lparr>rule_actions = rule_actions r, rule_default = rule_default r, rule_enabled = rule_enabled r,
       rule_id = rule_id r\<rparr>) (validate (rule_id r))"

datatype any_push_rule =
    AnyOverride conditional_push_rule
  | AnyContent patterned_push_rule
  | AnyPostContent conditional_push_rule
  | AnyRoom simple_push_rule
  | AnySender simple_push_rule
  | AnyUnderride conditional_push_rule

fun any_simple :: "any_push_rule \<Rightarrow> simple_push_rule" where
  "any_simple (AnyOverride r) = simple_push_rule.truncate r"
| "any_simple (AnyContent r) = simple_push_rule.truncate r"
| "any_simple (AnyPostContent r) = simple_push_rule.truncate r"
| "any_simple (AnyRoom r) = r"
| "any_simple (AnySender r) = r"
| "any_simple (AnyUnderride r) = simple_push_rule.truncate r"

definition any_enabled :: "any_push_rule \<Rightarrow> bool" where
  "any_enabled r = rule_enabled (any_simple r)"

definition any_actions :: "any_push_rule \<Rightarrow> action list" where
  "any_actions r = rule_actions (any_simple r)"

definition any_rule_id :: "any_push_rule \<Rightarrow> string" where
  "any_rule_id r = rule_id (any_simple r)"

definition any_is_server_default :: "any_push_rule \<Rightarrow> bool" where
  "any_is_server_default r = rule_default (any_simple r)"

definition triggers_highlight :: "any_push_rule \<Rightarrow> bool" where
  "triggers_highlight r = list_ex is_highlight (any_actions r)"

definition triggers_notification :: "any_push_rule \<Rightarrow> bool" where
  "triggers_notification r = list_ex should_notify (any_actions r)"

definition triggers_sound :: "any_push_rule \<Rightarrow> sound_tweak_value option" where
  "triggers_sound r = (case List.map_filter action_sound (any_actions r) of [] \<Rightarrow> None | s # _ \<Rightarrow> Some s)"

text \<open>The conversion of a rule after the content rules has no arm and is declared unreachable.\<close>

fun push_rule_from_any :: "any_push_rule \<Rightarrow> push_rule option" where
  "push_rule_from_any (AnyOverride r) = Some (push_rule_from_conditional r)"
| "push_rule_from_any (AnyContent r) = Some (push_rule_from_patterned r)"
| "push_rule_from_any (AnyRoom r) = Some (push_rule_from_simple r)"
| "push_rule_from_any (AnySender r) = Some (push_rule_from_simple r)"
| "push_rule_from_any (AnyUnderride r) = Some (push_rule_from_conditional r)"
| "push_rule_from_any (AnyPostContent r) = None"

section \<open>Identifiers of the predefined rules\<close>

datatype predefined_override_rule_id =
    OMaster | OSuppressNotices | OInviteForMe | OMemberEvent | OIsUserMention | OContainsDisplayName | OIsRoomMention
  | ORoomNotif | OTombstone | OReaction | ORoomServerAcl | OSuppressEdits | OPollResponse | OCustom string

fun override_rule_id :: "predefined_override_rule_id \<Rightarrow> string" where
  "override_rule_id OMaster = ''.m.rule.master''"
| "override_rule_id OSuppressNotices = ''.m.rule.suppress_notices''"
| "override_rule_id OInviteForMe = ''.m.rule.invite_for_me''"
| "override_rule_id OMemberEvent = ''.m.rule.member_event''"
| "override_rule_id OIsUserMention = ''.m.rule.is_user_mention''"
| "override_rule_id OContainsDisplayName = ''.m.rule.contains_display_name''"
| "override_rule_id OIsRoomMention = ''.m.rule.is_room_mention''"
| "override_rule_id ORoomNotif = ''.m.rule.roomnotif''"
| "override_rule_id OTombstone = ''.m.rule.tombstone''"
| "override_rule_id OReaction = ''.m.rule.reaction''"
| "override_rule_id ORoomServerAcl = ''.m.rule.room.server_acl''"
| "override_rule_id OSuppressEdits = ''.m.rule.suppress_edits''"
| "override_rule_id OPollResponse = ''.org.matrix.msc3930.rule.poll_response''"
| "override_rule_id (OCustom s) = s"

datatype predefined_underride_rule_id =
    UCall | UEncryptedRoomOneToOne | URoomOneToOne | UMessage | UEncrypted | UPollStartOneToOne | UPollStart
  | UPollEndOneToOne | UPollEnd | UUnsubscribedThread | USubscribedThread | UCustom string

fun underride_rule_id :: "predefined_underride_rule_id \<Rightarrow> string" where
  "underride_rule_id UCall = ''.m.rule.call''"
| "underride_rule_id UEncryptedRoomOneToOne = ''.m.rule.encrypted_room_one_to_one''"
| "underride_rule_id URoomOneToOne = ''.m.rule.room_one_to_one''"
| "underride_rule_id UMessage = ''.m.rule.message''"
| "underride_rule_id UEncrypted = ''.m.rule.encrypted''"
| "underride_rule_id UPollStartOneToOne = ''.org.matrix.msc3930.rule.poll_start_one_to_one''"
| "underride_rule_id UPollStart = ''.org.matrix.msc3930.rule.poll_start''"
| "underride_rule_id UPollEndOneToOne = ''.org.matrix.msc3930.rule.poll_end_one_to_one''"
| "underride_rule_id UPollEnd = ''.org.matrix.msc3930.rule.poll_end''"
| "underride_rule_id UUnsubscribedThread = ''.io.element.msc4306.rule.unsubscribed_thread''"
| "underride_rule_id USubscribedThread = ''.io.element.msc4306.rule.subscribed_thread''"
| "underride_rule_id (UCustom s) = s"

datatype predefined_content_rule_id = CContainsUserName | CCustom string

fun content_rule_id :: "predefined_content_rule_id \<Rightarrow> string" where
  "content_rule_id CContainsUserName = ''.m.rule.contains_user_name''"
| "content_rule_id (CCustom s) = s"

section \<open>Whether a rule applies\<close>

fun is_room_version_supports :: "push_condition \<Rightarrow> bool" where
  "is_room_version_supports (RoomVersionSupports _) = True"
| "is_room_version_supports _ = False"

fun all_apply :: "matcher \<Rightarrow> flattened_json \<Rightarrow> push_room_ctx \<Rightarrow> push_condition list \<Rightarrow> bool option" where
  "all_apply M event ctx [] = Some True"
| "all_apply M event ctx (c # cs) =
     (case condition_applies M event ctx c of
        None \<Rightarrow> None
      | Some False \<Rightarrow> Some False
      | Some True \<Rightarrow> all_apply M event ctx cs)"

definition conditional_applies ::
  "matcher \<Rightarrow> flattened_json \<Rightarrow> push_room_ctx \<Rightarrow> conditional_push_rule \<Rightarrow> bool option" where
  "conditional_applies M event ctx rule =
     (if \<not> rule_enabled rule then Some False
      else if rule_id rule \<noteq> override_rule_id OMaster \<and> rule_id rule \<noteq> override_rule_id OIsUserMention
          \<and> rule_id rule \<noteq> override_rule_id OIsRoomMention
          \<and> ExtensibleEvents \<in> set (ctx_supported_features ctx)
          \<and> \<not> list_ex is_room_version_supports (rule_conditions rule)
      then Some False
      else if (rule_id rule = ''.m.rule.roomnotif'' \<or> rule_id rule = ''.m.rule.contains_display_name'')
          \<and> contains_mentions event
      then Some False
      else all_apply M event ctx (rule_conditions rule))"

definition patterned_applies_to ::
  "matcher \<Rightarrow> string \<Rightarrow> flattened_json \<Rightarrow> push_room_ctx \<Rightarrow> patterned_push_rule \<Rightarrow> bool option" where
  "patterned_applies_to M key event ctx rule =
     (if rule_id rule = content_rule_id CContainsUserName \<and> contains_mentions event then Some False
      else if sent_by_self event ctx then Some False
      else if \<not> rule_enabled rule then Some False
      else check_event_match M event key (rule_pattern rule) ctx)"

definition any_applies :: "matcher \<Rightarrow> flattened_json \<Rightarrow> push_room_ctx \<Rightarrow> any_push_rule \<Rightarrow> bool option" where
  "any_applies M event ctx rule =
     (if sent_by_self event ctx then Some False else
      case rule of
        AnyOverride r \<Rightarrow> conditional_applies M event ctx r
      | AnyUnderride r \<Rightarrow> conditional_applies M event ctx r
      | AnyContent r \<Rightarrow> patterned_applies_to M ''content.body'' event ctx r
      | AnyPostContent r \<Rightarrow> conditional_applies M event ctx r
      | AnyRoom r \<Rightarrow>
          if rule_enabled r then check_event_match M event ''room_id'' (rule_id r) ctx else Some False
      | AnySender r \<Rightarrow>
          if rule_enabled r then check_event_match M event ''sender'' (rule_id r) ctx else Some False)"

section \<open>The predefined rules\<close>

definition notify_sound :: "action list" where
  "notify_sound = [Notify, SetTweak (SoundTweak SoundDefault)]"

definition notify_highlight :: "action list" where
  "notify_highlight = [Notify, SetTweak (HighlightTweak HighlightYes)]"

definition default_rule :: "string \<Rightarrow> push_condition list \<Rightarrow> action list \<Rightarrow> conditional_push_rule" where
  "default_rule i conditions actions =
     \<lparr>rule_actions = actions, rule_default = True, rule_enabled = True, rule_id = i, rule_conditions = conditions\<rparr>"

definition master :: conditional_push_rule where
  "master = (default_rule (override_rule_id OMaster) [] [])\<lparr>rule_enabled := False\<rparr>"

definition suppress_notices :: conditional_push_rule where
  "suppress_notices = default_rule (override_rule_id OSuppressNotices) [EventMatch ''content.msgtype'' ''m.notice''] []"

definition invite_for_me :: "string \<Rightarrow> conditional_push_rule" where
  "invite_for_me user_id = default_rule (override_rule_id OInviteForMe)
     [EventMatch ''type'' ''m.room.member'', EventMatch ''content.membership'' ''invite'', EventMatch ''state_key'' user_id]
     notify_sound"

definition member_event :: conditional_push_rule where
  "member_event = default_rule (override_rule_id OMemberEvent) [EventMatch ''type'' ''m.room.member''] []"

definition is_user_mention :: "string \<Rightarrow> conditional_push_rule" where
  "is_user_mention user_id = default_rule (override_rule_id OIsUserMention)
     [EventPropertyContains (MENTIONS @ ''.user_ids'') (ScString user_id)]
     [Notify, SetTweak (SoundTweak SoundDefault), SetTweak (HighlightTweak HighlightYes)]"

definition contains_display_name :: conditional_push_rule where
  "contains_display_name = default_rule (override_rule_id OContainsDisplayName) [ContainsDisplayName]
     [Notify, SetTweak (SoundTweak SoundDefault), SetTweak (HighlightTweak HighlightYes)]"

definition tombstone :: conditional_push_rule where
  "tombstone = default_rule (override_rule_id OTombstone)
     [EventMatch ''type'' ''m.room.tombstone'', EventMatch ''state_key'' ''''] notify_highlight"

definition is_room_mention :: conditional_push_rule where
  "is_room_mention = default_rule (override_rule_id OIsRoomMention)
     [EventPropertyIs (MENTIONS @ ''.room'') (ScBool True), SenderNotificationPermission ''room''] notify_highlight"

definition reaction :: conditional_push_rule where
  "reaction = default_rule (override_rule_id OReaction) [EventMatch ''type'' ''m.reaction''] []"

definition server_acl :: conditional_push_rule where
  "server_acl = default_rule (override_rule_id ORoomServerAcl)
     [EventMatch ''type'' ''m.room.server_acl'', EventMatch ''state_key'' ''''] []"

definition suppress_edits :: conditional_push_rule where
  "suppress_edits = default_rule (override_rule_id OSuppressEdits) [EventPropertyIs REL_TYPE (ScString ''m.replace'')] []"

definition poll_response :: conditional_push_rule where
  "poll_response = default_rule (override_rule_id OPollResponse)
     [EventMatch ''type'' ''org.matrix.msc3381.poll.response''] []"

definition call_rule :: conditional_push_rule where
  "call_rule = default_rule (underride_rule_id UCall) [EventMatch ''type'' ''m.call.invite'']
     [Notify, SetTweak (SoundTweak (sound_from_str ''ring''))]"

definition encrypted_room_one_to_one :: conditional_push_rule where
  "encrypted_room_one_to_one = default_rule (underride_rule_id UEncryptedRoomOneToOne)
     [RoomMemberCount (member_count_from 2), EventMatch ''type'' ''m.room.encrypted''] notify_sound"

definition room_one_to_one :: conditional_push_rule where
  "room_one_to_one = default_rule (underride_rule_id URoomOneToOne)
     [RoomMemberCount (member_count_from 2), EventMatch ''type'' ''m.room.message''] notify_sound"

definition message_rule :: conditional_push_rule where
  "message_rule = default_rule (underride_rule_id UMessage) [EventMatch ''type'' ''m.room.message''] [Notify]"

definition encrypted_rule :: conditional_push_rule where
  "encrypted_rule = default_rule (underride_rule_id UEncrypted) [EventMatch ''type'' ''m.room.encrypted''] [Notify]"

definition poll_start_one_to_one :: conditional_push_rule where
  "poll_start_one_to_one = default_rule (underride_rule_id UPollStartOneToOne)
     [RoomMemberCount (member_count_from 2), EventMatch ''type'' ''org.matrix.msc3381.poll.start''] notify_sound"

definition poll_start :: conditional_push_rule where
  "poll_start = default_rule (underride_rule_id UPollStart) [EventMatch ''type'' ''org.matrix.msc3381.poll.start''] [Notify]"

definition poll_end_one_to_one :: conditional_push_rule where
  "poll_end_one_to_one = default_rule (underride_rule_id UPollEndOneToOne)
     [RoomMemberCount (member_count_from 2), EventMatch ''type'' ''org.matrix.msc3381.poll.end''] notify_sound"

definition poll_end :: conditional_push_rule where
  "poll_end = default_rule (underride_rule_id UPollEnd) [EventMatch ''type'' ''org.matrix.msc3381.poll.end''] [Notify]"

definition unsubscribed_thread :: conditional_push_rule where
  "unsubscribed_thread = default_rule (underride_rule_id UUnsubscribedThread) [ThreadSubscription False] []"

definition subscribed_thread :: conditional_push_rule where
  "subscribed_thread = default_rule (underride_rule_id USubscribedThread) [ThreadSubscription True] notify_sound"

end
