(* ===== verification/Push_Ruleset.thy ===== *)
theory Push_Ruleset
  imports Push_Rules "HOL-Library.Multiset"
begin

text \<open>
  Rule sets (\<open>core/src/push/ruleset.rs\<close>, \<open>core/src/push.rs\<close>, \<open>predefined.rs\<close>):
  looking up, inserting, moving, changing and removing rules, refreshing the predefined rules, and
  finding the first rule that applies to an event.  The rules of a kind are kept in an
  \<open>IndexSet\<close> of the crate \<open>indexmap\<close>, here the list of its elements in iteration order.  Its
  operations are third-party code and fields of \<open>index_ops\<close>; the locale \<open>index_set\<close>
  states what their documentation promises.
\<close>

section \<open>Sets with an order\<close>

record 'r index_ops =
  ix_get :: "string \<Rightarrow> 'r list \<Rightarrow> 'r option"
  ix_index_of :: "string \<Rightarrow> 'r list \<Rightarrow> nat option"
  ix_replace_full :: "'r \<Rightarrow> 'r list \<Rightarrow> (nat \<times> 'r option) \<times> 'r list"
  ix_insert_full :: "'r \<Rightarrow> 'r list \<Rightarrow> nat \<times> 'r list"
  ix_move_index :: "nat \<Rightarrow> nat \<Rightarrow> 'r list \<Rightarrow> 'r list option"
  ix_shift_take :: "string \<Rightarrow> 'r list \<Rightarrow> 'r option \<times> 'r list"
  ix_swap_take :: "string \<Rightarrow> 'r list \<Rightarrow> 'r option \<times> 'r list"
  ix_retain :: "('r \<Rightarrow> bool) \<Rightarrow> 'r list \<Rightarrow> 'r list"

fun position :: "('r \<Rightarrow> string) \<Rightarrow> string \<Rightarrow> 'r list \<Rightarrow> nat option" where
  "position rid k [] = None"
| "position rid k (r # rs) = (if rid r = k then Some 0 else map_option Suc (position rid k rs))"

definition move :: "nat \<Rightarrow> nat \<Rightarrow> 'r list \<Rightarrow> 'r list" where
  "move i j xs = (let ys = take i xs @ drop (Suc i) xs in take j ys @ [xs ! i] @ drop j ys)"

definition swap_remove :: "nat \<Rightarrow> 'r list \<Rightarrow> 'r list" where
  "swap_remove i xs = butlast (xs[i := last xs])"

text \<open>The documented behaviour: \<open>replace_full\<close> and \<open>insert_full\<close> add a new element at the end and
  differ on one that is present, \<open>move_index\<close> shifts the elements in between and panics out of
  range, \<open>shift_take\<close> keeps the order and \<open>swap_take\<close> fills the gap with the last element.\<close>

locale index_set =
  fixes rid :: "'r \<Rightarrow> string" and ops :: "'r index_ops"
  assumes get: "ix_get ops k xs = map_option (\<lambda>i. xs ! i) (position rid k xs)"
    and index_of: "ix_index_of ops k xs = position rid k xs"
    and replace_full: "ix_replace_full ops r xs =
      (case position rid (rid r) xs of
         Some i \<Rightarrow> ((i, Some (xs ! i)), xs[i := r])
       | None \<Rightarrow> ((length xs, None), xs @ [r]))"
    and insert_full: "ix_insert_full ops r xs =
      (case position rid (rid r) xs of Some i \<Rightarrow> (i, xs) | None \<Rightarrow> (length xs, xs @ [r]))"
    and move_index: "ix_move_index ops i j xs = (if i < length xs \<and> j < length xs then Some (move i j xs) else None)"
    and shift_take: "ix_shift_take ops k xs =
      (case position rid k xs of Some i \<Rightarrow> (Some (xs ! i), take i xs @ drop (Suc i) xs) | None \<Rightarrow> (None, xs))"
    and swap_take: "ix_swap_take ops k xs =
      (case position rid k xs of Some i \<Rightarrow> (Some (xs ! i), swap_remove i xs) | None \<Rightarrow> (None, xs))"
    and retain: "ix_retain ops P xs = filter P xs"

text \<open>A straightforward implementation meets it.\<close>

definition list_index_ops :: "('r \<Rightarrow> string) \<Rightarrow> 'r index_ops" where
  "list_index_ops rid =
     \<lparr>ix_get = (\<lambda>k xs. map_option (\<lambda>i. xs ! i) (position rid k xs)),
      ix_index_of = position rid,
      ix_replace_full = (\<lambda>r xs. case position rid (rid r) xs of
         Some i \<Rightarrow> ((i, Some (xs ! i)), xs[i := r]) | None \<Rightarrow> ((length xs, None), xs @ [r])),
      ix_insert_full = (\<lambda>r xs. case position rid (rid r) xs of Some i \<Rightarrow> (i, xs) | None \<Rightarrow> (length xs, xs @ [r])),
      ix_move_index = (\<lambda>i j xs. if i < length xs \<and> j < length xs then Some (move i j xs) else None),
      ix_shift_take = (\<lambda>k xs. case position rid k xs of
         Some i \<Rightarrow> (Some (xs ! i), take i xs @ drop (Suc i) xs) | None \<Rightarrow> (None, xs)),
      ix_swap_take = (\<lambda>k xs. case position rid k xs of
         Some i \<Rightarrow> (Some (xs ! i), swap_remove i xs) | None \<Rightarrow> (None, xs)),
      ix_retain = filter\<rparr>"

interpretation list_ix: index_set rid "list_index_ops rid" for rid
  by unfold_locales (simp_all add: list_index_ops_def)

section \<open>Rule sets\<close>

record ruleset =
  rs_content :: "patterned_push_rule list"
  rs_postcontent :: "conditional_push_rule list"
  rs_override :: "conditional_push_rule list"
  rs_room :: "simple_push_rule list"
  rs_sender :: "simple_push_rule list"
  rs_underride :: "conditional_push_rule list"
  rs_extra :: "(string, json) btree"

definition ruleset_new :: ruleset where
  "ruleset_new =
     \<lparr>rs_content = [], rs_postcontent = [], rs_override = [], rs_room = [], rs_sender = [], rs_underride = [], rs_extra = []\<rparr>"

text \<open>The operations at the three types of rules.\<close>

record rule_sets =
  conditional_sets :: "conditional_push_rule index_ops"
  patterned_sets :: "patterned_push_rule index_ops"
  simple_sets :: "simple_push_rule index_ops"

definition rule_sets_ok :: "rule_sets \<Rightarrow> bool" where
  "rule_sets_ok IX \<longleftrightarrow> index_set rule_id (conditional_sets IX) \<and> index_set rule_id (patterned_sets IX)
     \<and> index_set rule_id (simple_sets IX)"

datatype insert_push_rule_error =
    ServerDefaultRuleId
  | InvalidRuleId
  | RelativeToServerDefaultRule
  | UnknownRuleId
  | BeforeHigherThanAfter

datatype rule_not_found_error = RuleNotFoundError

datatype remove_push_rule_error = RemoveServerDefault | RemoveNotFound

text \<open>The position a rule is moved to.\<close>

definition target_position ::
  "'r index_ops \<Rightarrow> nat \<Rightarrow> string option \<Rightarrow> string option \<Rightarrow> 'r list \<Rightarrow> insert_push_rule_error + nat" where
  "target_position ops default_position after before rules =
     and_then
       (case after of
          None \<Rightarrow> Inr default_position
        | Some i \<Rightarrow> map_ok Suc (ok_or UnknownRuleId (ix_index_of ops i rules))) (\<lambda>to.
     case before of
       None \<Rightarrow> Inr to
     | Some i \<Rightarrow>
         and_then (ok_or UnknownRuleId (ix_index_of ops i rules)) (\<lambda>idx.
         if idx < to then Inl BeforeHigherThanAfter else Inr idx))"

definition insert_and_move_rule ::
  "'r index_ops \<Rightarrow> 'r list \<Rightarrow> 'r \<Rightarrow> nat \<Rightarrow> string option \<Rightarrow> string option
     \<Rightarrow> (insert_push_rule_error fault + unit) \<times> 'r list" where
  "insert_and_move_rule ops rules rule default_position after before =
     (let ((from, replaced), rules) = ix_replace_full ops rule rules in
      case target_position ops default_position after before rules of
        Inl e \<Rightarrow> (Inl (Err e), rules)
      | Inr to \<Rightarrow>
          if replaced = None \<or> after \<noteq> None \<or> before \<noteq> None
          then (case ix_move_index ops from to rules of None \<Rightarrow> (Inl Panic, rules) | Some rules \<Rightarrow> (Inr (), rules))
          else (Inr (), rules))"

text \<open>A rule that replaces another one keeps its flag \<open>enabled\<close>.\<close>

definition keep_enabled ::
  "('r simple_push_rule_scheme) index_ops \<Rightarrow> 'r simple_push_rule_scheme list \<Rightarrow> 'r simple_push_rule_scheme
     \<Rightarrow> 'r simple_push_rule_scheme" where
  "keep_enabled ops rules rule =
     (case ix_get ops (rule_id rule) rules of None \<Rightarrow> rule | Some prev_rule \<Rightarrow> rule\<lparr>rule_enabled := rule_enabled prev_rule\<rparr>)"

definition check_insert :: "string \<Rightarrow> string option \<Rightarrow> string option \<Rightarrow> insert_push_rule_error + unit" where
  "check_insert i after before =
     (if starts_with (CHR ''.'') i then Inl ServerDefaultRuleId
      else if CHR ''/'' \<in> set i then Inl InvalidRuleId
      else if CHR 0x5C \<in> set i then Inl InvalidRuleId
      else if (case after of None \<Rightarrow> False | Some s \<Rightarrow> starts_with (CHR ''.'') s) then Inl RelativeToServerDefaultRule
      else if (case before of None \<Rightarrow> False | Some s \<Rightarrow> starts_with (CHR ''.'') s) then Inl RelativeToServerDefaultRule
      else Inr ())"

definition insert_in ::
  "'r simple_push_rule_scheme index_ops \<Rightarrow> nat \<Rightarrow> string option \<Rightarrow> string option \<Rightarrow> 'r simple_push_rule_scheme
     \<Rightarrow> 'r simple_push_rule_scheme list \<Rightarrow> (insert_push_rule_error fault + unit) \<times> 'r simple_push_rule_scheme list" where
  "insert_in ops default_position after before rule rules =
     insert_and_move_rule ops rules (keep_enabled ops rules rule) default_position after before"

definition ruleset_insert ::
  "rule_sets \<Rightarrow> new_push_rule \<Rightarrow> string option \<Rightarrow> string option \<Rightarrow> ruleset
     \<Rightarrow> (insert_push_rule_error fault + unit) \<times> ruleset" where
  "ruleset_insert IX rule after before rs =
     (case check_insert (new_rule_id rule) after before of
        Inl e \<Rightarrow> (Inl (Err e), rs)
      | Inr _ \<Rightarrow>
          (case rule of
             NewOverride i conditions actions \<Rightarrow>
               map_prod id (\<lambda>s. rs\<lparr>rs_override := s\<rparr>)
                 (insert_in (conditional_sets IX) 1 after before (conditional_from_new i conditions actions) (rs_override rs))
           | NewPostContent i conditions actions \<Rightarrow>
               map_prod id (\<lambda>s. rs\<lparr>rs_postcontent := s\<rparr>)
                 (insert_in (conditional_sets IX) 0 after before (conditional_from_new i conditions actions) (rs_postcontent rs))
           | NewUnderride i conditions actions \<Rightarrow>
               map_prod id (\<lambda>s. rs\<lparr>rs_underride := s\<rparr>)
                 (insert_in (conditional_sets IX) 0 after before (conditional_from_new i conditions actions) (rs_underride rs))
           | NewContent i pattern actions \<Rightarrow>
               map_prod id (\<lambda>s. rs\<lparr>rs_content := s\<rparr>)
                 (insert_in (patterned_sets IX) 0 after before (patterned_from_new i pattern actions) (rs_content rs))
           | NewRoom i actions \<Rightarrow>
               map_prod id (\<lambda>s. rs\<lparr>rs_room := s\<rparr>)
                 (insert_in (simple_sets IX) 0 after before (simple_from_new i actions) (rs_room rs))
           | NewSender i actions \<Rightarrow>
               map_prod id (\<lambda>s. rs\<lparr>rs_sender := s\<rparr>)
                 (insert_in (simple_sets IX) 0 after before (simple_from_new i actions) (rs_sender rs))))"

definition ruleset_get :: "rule_sets \<Rightarrow> rule_kind \<Rightarrow> string \<Rightarrow> ruleset \<Rightarrow> any_push_rule option" where
  "ruleset_get IX kind i rs =
     (case kind of
        KindOverride \<Rightarrow> map_option AnyOverride (ix_get (conditional_sets IX) i (rs_override rs))
      | KindUnderride \<Rightarrow> map_option AnyUnderride (ix_get (conditional_sets IX) i (rs_underride rs))
      | KindSender \<Rightarrow> map_option AnySender (ix_get (simple_sets IX) i (rs_sender rs))
      | KindRoom \<Rightarrow> map_option AnyRoom (ix_get (simple_sets IX) i (rs_room rs))
      | KindContent \<Rightarrow> map_option AnyContent (ix_get (patterned_sets IX) i (rs_content rs))
      | KindPostContent \<Rightarrow> map_option AnyPostContent (ix_get (conditional_sets IX) i (rs_postcontent rs))
      | KindCustom _ \<Rightarrow> None)"

text \<open>A copy of the rule with a change replaces it.\<close>

definition change_rule ::
  "'r index_ops \<Rightarrow> string \<Rightarrow> ('r \<Rightarrow> 'r) \<Rightarrow> 'r list \<Rightarrow> rule_not_found_error + 'r list" where
  "change_rule ops i f rules =
     map_ok (\<lambda>rule. snd (ix_replace_full ops (f rule) rules)) (ok_or RuleNotFoundError (ix_get ops i rules))"

definition change_in ::
  "rule_sets \<Rightarrow> rule_kind \<Rightarrow> string \<Rightarrow> (conditional_push_rule \<Rightarrow> conditional_push_rule)
     \<Rightarrow> (patterned_push_rule \<Rightarrow> patterned_push_rule) \<Rightarrow> (simple_push_rule \<Rightarrow> simple_push_rule) \<Rightarrow> ruleset
     \<Rightarrow> rule_not_found_error + ruleset" where
  "change_in IX kind i fc fp fs rs =
     (case kind of
        KindOverride \<Rightarrow> map_ok (\<lambda>s. rs\<lparr>rs_override := s\<rparr>) (change_rule (conditional_sets IX) i fc (rs_override rs))
      | KindUnderride \<Rightarrow> map_ok (\<lambda>s. rs\<lparr>rs_underride := s\<rparr>) (change_rule (conditional_sets IX) i fc (rs_underride rs))
      | KindSender \<Rightarrow> map_ok (\<lambda>s. rs\<lparr>rs_sender := s\<rparr>) (change_rule (simple_sets IX) i fs (rs_sender rs))
      | KindRoom \<Rightarrow> map_ok (\<lambda>s. rs\<lparr>rs_room := s\<rparr>) (change_rule (simple_sets IX) i fs (rs_room rs))
      | KindContent \<Rightarrow> map_ok (\<lambda>s. rs\<lparr>rs_content := s\<rparr>) (change_rule (patterned_sets IX) i fp (rs_content rs))
      | KindPostContent \<Rightarrow>
          map_ok (\<lambda>s. rs\<lparr>rs_postcontent := s\<rparr>) (change_rule (conditional_sets IX) i fc (rs_postcontent rs))
      | KindCustom _ \<Rightarrow> Inl RuleNotFoundError)"

definition ruleset_set_enabled ::
  "rule_sets \<Rightarrow> rule_kind \<Rightarrow> string \<Rightarrow> bool \<Rightarrow> ruleset \<Rightarrow> rule_not_found_error + ruleset" where
  "ruleset_set_enabled IX kind i b rs =
     change_in IX kind i (\<lambda>r. r\<lparr>rule_enabled := b\<rparr>) (\<lambda>r. r\<lparr>rule_enabled := b\<rparr>) (\<lambda>r. r\<lparr>rule_enabled := b\<rparr>) rs"

definition ruleset_set_actions ::
  "rule_sets \<Rightarrow> rule_kind \<Rightarrow> string \<Rightarrow> action list \<Rightarrow> ruleset \<Rightarrow> rule_not_found_error + ruleset" where
  "ruleset_set_actions IX kind i acts rs =
     change_in IX kind i (\<lambda>r. r\<lparr>rule_actions := acts\<rparr>) (\<lambda>r. r\<lparr>rule_actions := acts\<rparr>) (\<lambda>r. r\<lparr>rule_actions := acts\<rparr>) rs"

definition ruleset_remove :: "rule_sets \<Rightarrow> rule_kind \<Rightarrow> string \<Rightarrow> ruleset \<Rightarrow> remove_push_rule_error + ruleset" where
  "ruleset_remove IX kind i rs =
     (case ruleset_get IX kind i rs of
        None \<Rightarrow> Inl RemoveNotFound
      | Some rule \<Rightarrow>
          if any_is_server_default rule then Inl RemoveServerDefault
          else Inr (case kind of
             KindOverride \<Rightarrow> rs\<lparr>rs_override := snd (ix_shift_take (conditional_sets IX) i (rs_override rs))\<rparr>
           | KindUnderride \<Rightarrow> rs\<lparr>rs_underride := snd (ix_shift_take (conditional_sets IX) i (rs_underride rs))\<rparr>
           | KindSender \<Rightarrow> rs\<lparr>rs_sender := snd (ix_shift_take (simple_sets IX) i (rs_sender rs))\<rparr>
           | KindRoom \<Rightarrow> rs\<lparr>rs_room := snd (ix_shift_take (simple_sets IX) i (rs_room rs))\<rparr>
           | KindContent \<Rightarrow> rs\<lparr>rs_content := snd (ix_shift_take (patterned_sets IX) i (rs_content rs))\<rparr>
           | KindPostContent \<Rightarrow> rs\<lparr>rs_postcontent := snd (ix_shift_take (conditional_sets IX) i (rs_postcontent rs))\<rparr>
           | KindCustom _ \<Rightarrow> rs))"

section \<open>The predefined rule set\<close>

definition from_array :: "'r index_ops \<Rightarrow> 'r list \<Rightarrow> 'r list" where
  "from_array ops rs = fold (\<lambda>r s. snd (ix_insert_full ops r s)) rs []"

definition extend_set :: "'r index_ops \<Rightarrow> 'r list \<Rightarrow> 'r list \<Rightarrow> 'r list" where
  "extend_set ops new rs = fold (\<lambda>r s. snd (ix_insert_full ops r s)) new rs"

definition override_defaults :: "string \<Rightarrow> conditional_push_rule list" where
  "override_defaults user_id =
     [master, suppress_notices, invite_for_me user_id, member_event, is_user_mention user_id, contains_display_name,
      is_room_mention, tombstone, reaction, server_acl, suppress_edits, poll_response]"

definition postcontent_defaults :: "conditional_push_rule list" where
  "postcontent_defaults = [unsubscribed_thread, subscribed_thread]"

definition underride_defaults :: "conditional_push_rule list" where
  "underride_defaults =
     [call_rule, encrypted_room_one_to_one, room_one_to_one, message_rule, encrypted_rule, poll_start_one_to_one,
      poll_start, poll_end_one_to_one, poll_end]"

definition server_default :: "rule_sets \<Rightarrow> string \<Rightarrow> ruleset" where
  "server_default IX user_id = ruleset_new
     \<lparr>rs_override := from_array (conditional_sets IX) (override_defaults user_id),
      rs_postcontent := from_array (conditional_sets IX) postcontent_defaults,
      rs_underride := from_array (conditional_sets IX) underride_defaults\<rparr>"

text \<open>Refreshing the predefined rules: the state of the old rules is copied to the new ones while the old
  ones are taken out, the remaining old default rules are dropped, the master rule goes to the
  front and the other new rules to the end.\<close>

fun copy_rules_state ::
  "'r simple_push_rule_scheme index_ops \<Rightarrow> 'r simple_push_rule_scheme list \<Rightarrow> 'r simple_push_rule_scheme list
     \<Rightarrow> 'r simple_push_rule_scheme list \<times> 'r simple_push_rule_scheme list" where
  "copy_rules_state ops [] old = ([], old)"
| "copy_rules_state ops (new_rule # new) old =
     (let (taken, old) = ix_swap_take ops (rule_id new_rule) old;
          new_rule = (case taken of
            None \<Rightarrow> new_rule
          | Some old_rule \<Rightarrow> new_rule\<lparr>rule_enabled := rule_enabled old_rule, rule_actions := rule_actions old_rule\<rparr>);
          (new, old) = copy_rules_state ops new old
      in (new_rule # new, old))"

definition refresh ::
  "'r simple_push_rule_scheme index_ops \<Rightarrow> 'r simple_push_rule_scheme list \<Rightarrow> 'r simple_push_rule_scheme list
     \<Rightarrow> 'r simple_push_rule_scheme list \<times> 'r simple_push_rule_scheme list" where
  "refresh ops new old =
     (let (new, old) = copy_rules_state ops new old
      in (from_array ops new, ix_retain ops (\<lambda>rule. \<not> rule_default rule) old))"

definition merge_rules ::
  "'r simple_push_rule_scheme index_ops \<Rightarrow> 'r simple_push_rule_scheme list \<Rightarrow> 'r simple_push_rule_scheme list
     \<Rightarrow> 'r simple_push_rule_scheme list" where
  "merge_rules ops new old = (let (new, old) = refresh ops new old in extend_set ops new old)"

definition merge_override ::
  "conditional_push_rule index_ops \<Rightarrow> conditional_push_rule list \<Rightarrow> conditional_push_rule list
     \<Rightarrow> conditional_push_rule list option" where
  "merge_override ops new old =
     (let (new, old) = refresh ops new old; (master_rule, new) = ix_shift_take ops (override_rule_id OMaster) new
      in map_option (extend_set ops new)
           (case master_rule of
              None \<Rightarrow> Some old
            | Some m \<Rightarrow> let (pos, old) = ix_insert_full ops m old in ix_move_index ops pos 0 old))"

definition update_with_server_default :: "rule_sets \<Rightarrow> ruleset \<Rightarrow> ruleset \<Rightarrow> ruleset option" where
  "update_with_server_default IX new rs =
     map_option (\<lambda>override.
       rs\<lparr>rs_override := override,
          rs_content := merge_rules (patterned_sets IX) (rs_content new) (rs_content rs),
          rs_room := merge_rules (simple_sets IX) (rs_room new) (rs_room rs),
          rs_sender := merge_rules (simple_sets IX) (rs_sender new) (rs_sender rs),
          rs_underride := merge_rules (conditional_sets IX) (rs_underride new) (rs_underride rs),
          rs_postcontent := merge_rules (conditional_sets IX) (rs_postcontent new) (rs_postcontent rs)\<rparr>)
       (merge_override (conditional_sets IX) (rs_override new) (rs_override rs))"

section \<open>The rule that applies\<close>

definition ruleset_iter :: "ruleset \<Rightarrow> any_push_rule list" where
  "ruleset_iter rs =
     map AnyOverride (rs_override rs) @ map AnyContent (rs_content rs) @ map AnyPostContent (rs_postcontent rs)
     @ map AnyRoom (rs_room rs) @ map AnySender (rs_sender rs) @ map AnyUnderride (rs_underride rs)"

fun first_applying ::
  "matcher \<Rightarrow> flattened_json \<Rightarrow> push_room_ctx \<Rightarrow> any_push_rule list \<Rightarrow> any_push_rule option option" where
  "first_applying M event ctx [] = Some None"
| "first_applying M event ctx (rule # rules) =
     (case any_applies M event ctx rule of
        None \<Rightarrow> None
      | Some True \<Rightarrow> Some (Some rule)
      | Some False \<Rightarrow> first_applying M event ctx rules)"

definition get_match :: "matcher \<Rightarrow> json \<Rightarrow> push_room_ctx \<Rightarrow> ruleset \<Rightarrow> any_push_rule option option" where
  "get_match M raw ctx rs =
     (let event = from_raw raw
      in if sent_by_self event ctx then Some None else first_applying M event ctx (ruleset_iter rs))"

definition get_actions :: "matcher \<Rightarrow> json \<Rightarrow> push_room_ctx \<Rightarrow> ruleset \<Rightarrow> action list option" where
  "get_actions M raw ctx rs =
     map_option (\<lambda>m. case m of None \<Rightarrow> [] | Some rule \<Rightarrow> any_actions rule) (get_match M raw ctx rs)"

section \<open>Lists of rules\<close>

lemma position_Some: "position rid k xs = Some i \<Longrightarrow> i < length xs \<and> rid (xs ! i) = k"
  by (induction xs arbitrary: i) (auto split: if_splits)

lemma position_None: "position rid k xs = None \<longleftrightarrow> k \<notin> rid ` set xs"
  by (induction xs) auto

lemma position_append_new: "rid r \<notin> rid ` set xs \<Longrightarrow> position rid (rid r) (xs @ [r]) = Some (length xs)"
  by (induction xs) auto

lemma position_unique:
  "distinct (map rid xs) \<Longrightarrow> i < length xs \<Longrightarrow> position rid (rid (xs ! i)) xs = Some i"
proof (induction xs arbitrary: i)
  case (Cons x xs)
  show ?case
  proof (cases i)
    case (Suc n)
    with Cons.prems have "n < length xs" "rid x \<noteq> rid (xs ! n)" by (auto simp: image_iff)
    with Cons Suc show ?thesis by simp
  qed simp
qed simp

lemma split_nth: "i < length xs \<Longrightarrow> xs = take i xs @ xs ! i # drop (Suc i) xs"
  by (rule id_take_nth_drop)

lemma move_split:
  assumes "i < length xs"
  obtains us vs where "take i xs @ drop (Suc i) xs = us @ vs" "move i j xs = us @ xs ! i # vs"
  using that[of "take j (take i xs @ drop (Suc i) xs)" "drop j (take i xs @ drop (Suc i) xs)"]
  by (simp only: append_take_drop_id move_def Let_def append_Cons append_Nil simp_thms)

lemma move_mset: "i < length xs \<Longrightarrow> mset (move i j xs) = mset xs"
proof -
  assume i: "i < length xs"
  obtain us vs where m: "take i xs @ drop (Suc i) xs = us @ vs" "move i j xs = us @ xs ! i # vs" by (rule move_split[OF i])
  have "mset xs = add_mset (xs ! i) (mset (take i xs @ drop (Suc i) xs))" by (subst split_nth[OF i]) simp
  with m show ?thesis by simp
qed

lemma move_filter: "i < length xs \<Longrightarrow> \<not> P (xs ! i) \<Longrightarrow> filter P (move i j xs) = filter P xs"
proof -
  assume i: "i < length xs" and P: "\<not> P (xs ! i)"
  obtain us vs where m: "take i xs @ drop (Suc i) xs = us @ vs" "move i j xs = us @ xs ! i # vs" by (rule move_split[OF i])
  have "filter P xs = filter P (take i xs @ drop (Suc i) xs)" by (subst split_nth[OF i]) (simp add: P)
  with m P show ?thesis by simp
qed

lemma move_Suc: "move (Suc i) (Suc j) (x # xs) = x # move i j xs"
  by (simp add: move_def Let_def)

lemma distinct_map_mset: "mset xs = mset ys \<Longrightarrow> distinct (map f xs) \<longleftrightarrow> distinct (map f ys)"
  using mset_eq_imp_distinct_iff[of "map f xs" "map f ys"] by simp

lemma filter_update:
  assumes "\<not> P (xs ! i)" "\<not> P y"
  shows "filter P (xs[i := y]) = filter P xs"
proof (cases "i < length xs")
  case True
  note assms
  moreover have "xs[i := y] = take i xs @ y # drop (Suc i) xs" using True by (rule upd_conv_take_nth_drop)
  moreover have "filter P xs = filter P (take i xs @ xs ! i # drop (Suc i) xs)" using split_nth[OF True] by simp
  ultimately show ?thesis by simp
qed (simp add: list_update_beyond)

lemma map_update_same: "f y = f (xs ! i) \<Longrightarrow> map f (xs[i := y]) = map f xs"
  by (cases "i < length xs") (simp_all add: map_update list_update_same_conv list_update_beyond)

lemma swap_remove_mset: "i < length xs \<Longrightarrow> mset (swap_remove i xs) = mset xs - {#xs ! i#}"
proof -
  assume i: "i < length xs"
  then have ne: "xs \<noteq> []" by auto
  show ?thesis
  proof (cases "i = length xs - 1")
    case True
    then have "xs[i := last xs] = xs" "xs ! i = last xs" using ne by (simp_all add: last_conv_nth)
    moreover have "mset xs = mset (butlast xs) + {#last xs#}"
      by (subst append_butlast_last_id[OF ne, symmetric]) simp
    ultimately show ?thesis by (simp add: swap_remove_def)
  next
    case False
    with i have il: "i < length (butlast xs)" by simp
    have x: "xs = butlast xs @ [last xs]" using ne by simp
    have "swap_remove i xs = (butlast xs)[i := last xs]"
      unfolding swap_remove_def using il by (subst (1) x) (simp add: list_update_append)
    then have "mset (swap_remove i xs) = add_mset (last xs) (mset (butlast xs)) - {#butlast xs ! i#}"
      using il by (simp add: mset_update)
    moreover have "mset xs = add_mset (last xs) (mset (butlast xs))" by (subst x) simp
    ultimately show ?thesis using il by (simp add: nth_butlast)
  qed
qed

section \<open>What the operations keep, for every set that keeps its promises\<close>

context index_set begin

lemma replace_full_cases:
  assumes "distinct (map rid xs)" "ix_replace_full ops r xs = ((i, replaced), zs)"
  shows "i < length zs \<and> zs ! i = r \<and> distinct (map rid zs)
    \<and> (replaced = None \<and> i = length xs \<and> zs = xs @ [r] \<and> rid r \<notin> rid ` set xs
       \<or> replaced = Some (xs ! i) \<and> i < length xs \<and> rid (xs ! i) = rid r \<and> zs = xs[i := r])"
proof (cases "position rid (rid r) xs")
  case None
  with assms show ?thesis by (auto simp: replace_full position_None)
next
  case (Some j)
  with position_Some[OF Some] assms show ?thesis by (auto simp: replace_full map_update_same)
qed

lemma insert_cases:
  assumes "distinct (map rid xs)" "insert_and_move_rule ops xs r d a b = (res, ys)"
  obtains zs i replaced where "ix_replace_full ops r xs = ((i, replaced), zs)"
    "ys = zs \<or> (\<exists>j. target_position ops d a b zs = Inr j \<and> ys = move i j zs \<and> i < length zs)"
proof -
  obtain i replaced zs where z: "ix_replace_full ops r xs = ((i, replaced), zs)" by (metis surj_pair)
  from assms(2) z have "ys = zs \<or> (\<exists>j. target_position ops d a b zs = Inr j \<and> ys = move i j zs \<and> i < length zs)"
    by (auto simp: insert_and_move_rule_def move_index split: sum.splits if_splits option.splits)
  with z that show ?thesis by blast
qed

lemma insert_keeps:
  assumes "distinct (map rid xs)" "insert_and_move_rule ops xs r d a b = (res, ys)"
    and "\<not> P r" "\<forall>x\<in>set xs. rid x = rid r \<longrightarrow> \<not> P x"
  shows "distinct (map rid ys) \<and> filter P ys = filter P xs \<and> set ys \<subseteq> insert r (set xs)"
proof -
  obtain zs i replaced where z: "ix_replace_full ops r xs = ((i, replaced), zs)"
    and y: "ys = zs \<or> (\<exists>j. target_position ops d a b zs = Inr j \<and> ys = move i j zs \<and> i < length zs)"
    by (rule insert_cases[OF assms(1,2)])
  note zc = replace_full_cases[OF assms(1) z]
  then consider (new) "zs = xs @ [r]" | (old) "i < length xs" "rid (xs ! i) = rid r" "zs = xs[i := r]" by blast
  then have f: "filter P zs = filter P xs \<and> set zs \<subseteq> insert r (set xs)"
  proof cases
    case new
    then show ?thesis using assms(3) by auto
  next
    case old
    then have "\<not> P (xs ! i)" using assms(4) by simp
    then show ?thesis unfolding old(3) using filter_update[of P xs i r] assms(3) set_update_subset_insert[of xs i r] by simp
  qed
  from y have "mset ys = mset zs \<and> filter P ys = filter P zs"
  proof
    assume "\<exists>j. target_position ops d a b zs = Inr j \<and> ys = move i j zs \<and> i < length zs"
    then obtain j where "ys = move i j zs" "i < length zs" by blast
    then show ?thesis using move_mset[of i zs j] move_filter[of i zs P j] zc assms(3) by simp
  qed simp
  moreover from this have "set ys = set zs" "distinct (map rid ys)"
    using mset_eq_setD[of ys zs] distinct_map_mset[of ys zs rid] zc by simp_all
  ultimately show ?thesis using f by simp
qed

lemma target_not_first:
  assumes "target_position ops d a b (m # zs) = Inr j" "1 \<le> d" "b \<noteq> Some (rid m)"
  obtains j' where "j = Suc j'"
proof -
  from assms(1) obtain to where to: "(case a of None \<Rightarrow> Inr d | Some i \<Rightarrow> map_ok Suc (ok_or UnknownRuleId (position rid i (m # zs)))) = Inr to"
    "(case b of None \<Rightarrow> Inr to | Some i \<Rightarrow> and_then (ok_or UnknownRuleId (position rid i (m # zs))) (\<lambda>idx.
       if idx < to then Inl BeforeHigherThanAfter else Inr idx)) = Inr j"
    unfolding target_position_def index_of by (elim and_then_InrE)
  from to(1) assms(2) have "to \<noteq> 0" by (cases a) (auto simp: map_ok_Inr_iff split: if_splits)
  then have "j \<noteq> 0" using to(2) assms(3) by (cases b) (auto simp: and_then_Inr_iff ok_or_Inr_iff split: if_splits)
  with that show ?thesis by (cases j) auto
qed

lemma insert_keeps_first:
  assumes "distinct (map rid (m # xs))" "insert_and_move_rule ops (m # xs) r d a b = (res, ys)"
    and "rid m \<noteq> rid r" "1 \<le> d" "b \<noteq> Some (rid m)"
  shows "\<exists>ys'. ys = m # ys'"
proof -
  obtain zs i replaced where z: "ix_replace_full ops r (m # xs) = ((i, replaced), zs)"
    and y: "ys = zs \<or> (\<exists>j. target_position ops d a b zs = Inr j \<and> ys = move i j zs \<and> i < length zs)"
    by (rule insert_cases[OF assms(1,2)])
  from replace_full_cases[OF assms(1) z] assms(3) obtain zs' i' where m: "zs = m # zs'" "i = Suc i'"
    by (cases i) auto
  from y show ?thesis
  proof
    assume "\<exists>j. target_position ops d a b zs = Inr j \<and> ys = move i j zs \<and> i < length zs"
    then obtain j where j: "target_position ops d a b (m # zs') = Inr j" "ys = move (Suc i') j (m # zs')" using m by blast
    from target_not_first[OF j(1) assms(4,5)] obtain j' where "j = Suc j'" .
    with j(2) show ?thesis by (simp add: move_Suc)
  qed (use m in simp)
qed

lemma insert_new:
  assumes "rid r \<notin> rid ` set xs"
  shows "insert_and_move_rule ops xs r d a b =
    (case target_position ops d a b (xs @ [r]) of
       Inl e \<Rightarrow> (Inl (Err e), xs @ [r])
     | Inr to \<Rightarrow> if to \<le> length xs then (Inr (), take to xs @ r # drop to xs) else (Inl Panic, xs @ [r]))"
  using assms by (auto simp: insert_and_move_rule_def replace_full position_None[THEN iffD2] move_index move_def
      split: sum.splits)

lemma change_keeps:
  assumes "change_rule ops k f xs = Inr ys" "\<And>x. rid (f x) = rid x" "\<And>x. P (f x) = P x"
  shows "map rid ys = map rid xs \<and> map P ys = map P xs"
proof -
  from assms(1) obtain i where i: "position rid k xs = Some i" "ys = snd (ix_replace_full ops (f (xs ! i)) xs)"
    by (auto simp: change_rule_def res_simps get)
  have "\<exists>j. position rid k xs = Some j \<and> ys = xs[j := f (xs ! i)]"
    using i position_Some[OF i(1)] assms(2)[of "xs ! i"] by (simp add: replace_full)
  with i assms(2,3) show ?thesis by (auto simp: map_update_same)
qed

lemma shift_take_keeps:
  assumes "distinct (map rid xs)" "\<forall>x\<in>set xs. rid x = k \<longrightarrow> \<not> P x"
  shows "distinct (map rid (snd (ix_shift_take ops k xs))) \<and> filter P (snd (ix_shift_take ops k xs)) = filter P xs
    \<and> set (snd (ix_shift_take ops k xs)) \<subseteq> set xs"
proof (cases "position rid k xs")
  case (Some i)
  note p = position_Some[OF Some]
  then have x: "xs = take i xs @ xs ! i # drop (Suc i) xs" by (simp add: id_take_nth_drop)
  have "distinct (map rid (take i xs @ drop (Suc i) xs))" using assms(1) by (subst (asm) x) auto
  moreover have "filter P xs = filter P (take i xs @ drop (Suc i) xs)" using p assms(2) by (subst x) simp
  moreover have "set (take i xs @ drop (Suc i) xs) \<subseteq> set xs" by (auto dest: in_set_takeD in_set_dropD)
  ultimately show ?thesis using Some by (simp add: shift_take)
qed (use assms in \<open>simp add: shift_take\<close>)

lemma insert_all_new:
  "distinct (map rid (xs @ new)) \<Longrightarrow> fold (\<lambda>r s. snd (ix_insert_full ops r s)) new xs = xs @ new"
proof (induction new arbitrary: xs)
  case (Cons r new)
  then have "position rid (rid r) xs = None" by (auto simp: position_None)
  with Cons show ?case by (simp add: insert_full)
qed simp

lemma from_array_distinct: "distinct (map rid new) \<Longrightarrow> from_array ops new = new"
  using insert_all_new[of "[]" new] by (simp add: from_array_def)

lemma swap_take_cases:
  assumes "distinct (map rid xs)" "ix_swap_take ops k xs = (t, ys)"
  shows "distinct (map rid ys)" "mset ys = filter_mset (\<lambda>x. rid x \<noteq> k) (mset xs)"
    "t = map_option (\<lambda>i. xs ! i) (position rid k xs)"
proof -
  have "distinct (map rid ys) \<and> mset ys = filter_mset (\<lambda>x. rid x \<noteq> k) (mset xs)
      \<and> t = map_option (\<lambda>i. xs ! i) (position rid k xs)"
  proof (cases "position rid k xs")
    case None
    then have "filter (\<lambda>x. rid x \<noteq> k) xs = xs" by (auto simp: position_None filter_id_conv)
    then have "filter_mset (\<lambda>x. rid x \<noteq> k) (mset xs) = mset xs" by (metis mset_filter)
    with None assms show ?thesis by (simp add: swap_take)
  next
    case (Some i)
    note p = position_Some[OF Some]
    then have x: "xs = take i xs @ xs ! i # drop (Suc i) xs" by (simp add: id_take_nth_drop)
    have "distinct (map rid (take i xs @ xs ! i # drop (Suc i) xs))" using assms(1) by (subst (asm) x)
    then have d: "distinct (map rid (take i xs @ drop (Suc i) xs))" "k \<notin> rid ` set (take i xs @ drop (Suc i) xs)"
      using p by auto
    have "mset ys = mset xs - {#xs ! i#}" using Some assms(2) p by (auto simp: swap_take swap_remove_mset)
    also have m: "\<dots> = mset (take i xs @ drop (Suc i) xs)" by (subst (1) x) simp
    finally have ys: "mset ys = mset (take i xs @ drop (Suc i) xs)" .
    have "filter (\<lambda>x. rid x \<noteq> k) (take i xs @ drop (Suc i) xs) = take i xs @ drop (Suc i) xs"
      using d(2) by (intro filter_True ballI) (metis imageI)
    moreover have "filter (\<lambda>x. rid x \<noteq> k) xs = filter (\<lambda>x. rid x \<noteq> k) (take i xs @ drop (Suc i) xs)"
      by (subst x) (simp add: p)
    ultimately have "filter (\<lambda>x. rid x \<noteq> k) xs = take i xs @ drop (Suc i) xs" by simp
    then have "filter_mset (\<lambda>x. rid x \<noteq> k) (mset xs) = mset (take i xs @ drop (Suc i) xs)" by (metis mset_filter)
    moreover have "distinct (map rid ys)" using d(1) distinct_map_mset[OF ys] by blast
    ultimately show ?thesis using Some assms(2) ys by (simp add: swap_take)
  qed
  then show "distinct (map rid ys)" "mset ys = filter_mset (\<lambda>x. rid x \<noteq> k) (mset xs)"
    "t = map_option (\<lambda>i. xs ! i) (position rid k xs)" by simp_all
qed

end

section \<open>Refreshing\<close>

definition rule_of :: "string \<Rightarrow> 'r simple_push_rule_scheme list \<Rightarrow> 'r simple_push_rule_scheme option" where
  "rule_of k xs = find (\<lambda>r. rule_id r = k) xs"

text \<open>A new default rule with the state of the rule it replaces.\<close>

definition with_state :: "'r simple_push_rule_scheme list \<Rightarrow> 'r simple_push_rule_scheme \<Rightarrow> 'r simple_push_rule_scheme" where
  "with_state old r =
     (case rule_of (rule_id r) old of
        None \<Rightarrow> r
      | Some q \<Rightarrow> r\<lparr>rule_enabled := rule_enabled q, rule_actions := rule_actions q\<rparr>)"

lemma with_state_simps [simp]: "rule_id (with_state old r) = rule_id r" "rule_default (with_state old r) = rule_default r"
  by (simp_all add: with_state_def split: option.split)

lemma rule_of_position: "map_option (\<lambda>i. xs ! i) (position rule_id k xs) = rule_of k xs"
  by (induction xs) (auto simp: rule_of_def option.map_comp comp_def)

lemma rule_of_Some: "distinct (map rule_id xs) \<Longrightarrow> rule_of k xs = Some r \<longleftrightarrow> r \<in> set xs \<and> rule_id r = k"
  by (induction xs) (auto simp: rule_of_def)

lemma rule_of_filter:
  assumes "distinct (map rule_id xs)" "distinct (map rule_id ys)" "mset ys = filter_mset P (mset xs)"
    and "\<And>r. rule_id r = k \<Longrightarrow> P r"
  shows "rule_of k ys = rule_of k xs"
proof -
  have "set ys = {r \<in> set xs. P r}" using assms(3) by (metis set_mset_filter set_mset_mset)
  then have "rule_of k ys = Some r \<longleftrightarrow> rule_of k xs = Some r" for r
    using assms(4) by (auto simp: rule_of_Some[OF assms(1)] rule_of_Some[OF assms(2)])
  then show ?thesis by (metis not_Some_eq)
qed

locale rule_index_set = index_set rule_id ops for ops :: "'r simple_push_rule_scheme index_ops"
begin

lemma copy_rules_state_correct:
  assumes "distinct (map rule_id new)" "distinct (map rule_id old)" "copy_rules_state ops new old = (new', old')"
  shows "new' = map (with_state old) new \<and> distinct (map rule_id old')
    \<and> mset old' = filter_mset (\<lambda>r. rule_id r \<notin> rule_id ` set new) (mset old)"
  using assms
proof (induction new arbitrary: old new' old')
  case (Cons n new)
  obtain t mid where t: "ix_swap_take ops (rule_id n) old = (t, mid)" by fastforce
  note s = swap_take_cases[OF Cons.prems(2) t]
  obtain ns os where c: "copy_rules_state ops new mid = (ns, os)" by fastforce
  have d: "distinct (map rule_id new)" "rule_id n \<notin> rule_id ` set new" using Cons.prems(1) by auto
  from Cons.IH[OF d(1) s(1) c] have ih: "ns = map (with_state mid) new" "distinct (map rule_id os)"
    "mset os = filter_mset (\<lambda>r. rule_id r \<notin> rule_id ` set new) (mset mid)" by simp_all
  have "with_state mid r = with_state old r" if "r \<in> set new" for r
  proof -
    have "rule_id r \<noteq> rule_id n" using d(2) that by (metis imageI)
    then show ?thesis using rule_of_filter[OF Cons.prems(2) s(1,2), of "rule_id r"] by (simp add: with_state_def)
  qed
  then have ns: "ns = map (with_state old) new" unfolding ih(1) by simp
  have n: "(case t of None \<Rightarrow> n | Some q \<Rightarrow> n\<lparr>rule_enabled := rule_enabled q, rule_actions := rule_actions q\<rparr>) = with_state old n"
    by (simp add: s(3) rule_of_position with_state_def)
  have "mset os = filter_mset (\<lambda>r. rule_id r \<notin> rule_id ` set (n # new)) (mset old)"
    unfolding ih(3) s(2) by (simp add: filter_filter_mset)
  moreover have "new' = with_state old n # ns" "old' = os"
    using Cons.prems(3) by (simp_all add: t c n)
  ultimately show ?case using ns ih(2) by simp
qed simp

lemma refresh_correct:
  assumes "distinct (map rule_id new)" "distinct (map rule_id old)"
  shows "\<exists>us. refresh ops new old = (map (with_state old) new, us) \<and> distinct (map rule_id us)
    \<and> mset us = filter_mset (\<lambda>r. rule_id r \<notin> rule_id ` set new \<and> \<not> rule_default r) (mset old)"
proof -
  obtain new' old' where c: "copy_rules_state ops new old = (new', old')" by fastforce
  note cc = copy_rules_state_correct[OF assms c]
  have "from_array ops new' = new'" using cc assms(1) by (intro from_array_distinct) (simp add: comp_def)
  moreover have "mset (filter (\<lambda>r. \<not> rule_default r) old') = filter_mset (\<lambda>r. rule_id r \<notin> rule_id ` set new \<and> \<not> rule_default r) (mset old)"
    using cc by (simp add: filter_filter_mset conj_commute)
  moreover have "distinct (map rule_id (filter (\<lambda>r. \<not> rule_default r) old'))" using cc by (simp add: distinct_map_filter)
  ultimately show ?thesis using c cc by (simp add: refresh_def retain)
qed

lemma merge_rules_correct:
  assumes "distinct (map rule_id new)" "distinct (map rule_id old)"
  shows "\<exists>us. merge_rules ops new old = us @ map (with_state old) new \<and> distinct (map rule_id (us @ new))
    \<and> mset us = filter_mset (\<lambda>r. rule_id r \<notin> rule_id ` set new \<and> \<not> rule_default r) (mset old)"
proof -
  from refresh_correct[OF assms] obtain us where u: "refresh ops new old = (map (with_state old) new, us)"
    "distinct (map rule_id us)" "mset us = filter_mset (\<lambda>r. rule_id r \<notin> rule_id ` set new \<and> \<not> rule_default r) (mset old)"
    by blast
  have "set us = {r \<in> set old. rule_id r \<notin> rule_id ` set new \<and> \<not> rule_default r}"
    using u(3) by (metis set_mset_filter set_mset_mset)
  then have d: "distinct (map rule_id (us @ new))" using u(2) assms(1) by auto
  then have "extend_set ops (map (with_state old) new) us = us @ map (with_state old) new"
    unfolding extend_set_def by (intro insert_all_new) (simp add: comp_def image_image)
  with u d show ?thesis by (auto simp: merge_rules_def)
qed

end

interpretation list_rule_ix: rule_index_set "list_index_ops rule_id"
  by unfold_locales

lemma rule_index_setI: "index_set rule_id ops \<Longrightarrow> rule_index_set ops"
  by (simp add: rule_index_set_def)

lemma merge_override_correct:
  assumes ix: "index_set rule_id ops" and d: "distinct (map rule_id (m # new))" "distinct (map rule_id old)"
    and m: "rule_id m = override_rule_id OMaster"
  shows "\<exists>us. merge_override ops (m # new) old = Some (with_state old m # us @ map (with_state old) new)
    \<and> distinct (map rule_id (m # us @ new))
    \<and> mset us = filter_mset (\<lambda>r. rule_id r \<notin> rule_id ` set (m # new) \<and> \<not> rule_default r) (mset old)"
proof -
  from rule_index_set.refresh_correct[OF rule_index_setI[OF ix] d] obtain us where
    u: "refresh ops (m # new) old = (map (with_state old) (m # new), us)" "distinct (map rule_id us)"
      "mset us = filter_mset (\<lambda>r. rule_id r \<notin> rule_id ` set (m # new) \<and> \<not> rule_default r) (mset old)" by blast
  have "set_mset (mset us) = set_mset (filter_mset (\<lambda>r. rule_id r \<notin> rule_id ` set (m # new) \<and> \<not> rule_default r) (mset old))"
    by (simp only: u(3))
  then have "rule_id ` set us \<inter> rule_id ` set (m # new) = {}" by auto
  then have du: "distinct (map rule_id (m # us @ new))" using u(2) d(1) by auto
  then have pn: "position rule_id (rule_id (with_state old m)) us = None" by (simp add: position_None)
  have "ix_shift_take ops (override_rule_id OMaster) (map (with_state old) (m # new))
      = (Some (with_state old m), map (with_state old) new)"
    using m by (simp add: index_set.shift_take[OF ix])
  moreover have "ix_insert_full ops (with_state old m) us = (length us, us @ [with_state old m])"
    by (simp add: index_set.insert_full[OF ix] pn del: with_state_simps)
  moreover have "ix_move_index ops (length us) 0 (us @ [with_state old m]) = Some (with_state old m # us)"
    by (simp add: index_set.move_index[OF ix] move_def)
  moreover have "extend_set ops (map (with_state old) new) (with_state old m # us)
      = (with_state old m # us) @ map (with_state old) new"
    unfolding extend_set_def using du by (intro index_set.insert_all_new[OF ix]) (simp add: comp_def image_image)
  ultimately have "merge_override ops (m # new) old = Some (with_state old m # us @ map (with_state old) new)"
    unfolding merge_override_def u(1) by simp
  with du u(3) show ?thesis by blast
qed

section \<open>Invariants of a user's push rules\<close>

definition kind_ok :: "'r simple_push_rule_scheme list \<Rightarrow> string list \<Rightarrow> bool" where
  "kind_ok rules defaults \<longleftrightarrow> distinct (map rule_id rules)
     \<and> (\<forall>r\<in>set rules. rule_default r \<longleftrightarrow> starts_with (CHR ''.'') (rule_id r))
     \<and> map rule_id (filter rule_default rules) = defaults"

definition ruleset_ok :: "string \<Rightarrow> ruleset \<Rightarrow> bool" where
  "ruleset_ok user_id rs \<longleftrightarrow>
     kind_ok (rs_override rs) (map rule_id (override_defaults user_id))
     \<and> kind_ok (rs_underride rs) (map rule_id underride_defaults)
     \<and> kind_ok (rs_postcontent rs) (map rule_id postcontent_defaults)
     \<and> kind_ok (rs_content rs) [] \<and> kind_ok (rs_room rs) [] \<and> kind_ok (rs_sender rs) []
     \<and> (\<exists>m rest. rs_override rs = m # rest \<and> rule_id m = override_rule_id OMaster)"

text \<open>Everything a user or the server does to the push rules of the user.\<close>

inductive push_rules_reachable :: "rule_sets \<Rightarrow> string \<Rightarrow> ruleset \<Rightarrow> bool" for IX user_id where
  start: "push_rules_reachable IX user_id (server_default IX user_id)"
| insert: "push_rules_reachable IX user_id rs \<Longrightarrow> ruleset_insert IX rule after before rs = (res, rs')
     \<Longrightarrow> push_rules_reachable IX user_id rs'"
| set_enabled: "push_rules_reachable IX user_id rs \<Longrightarrow> ruleset_set_enabled IX kind i b rs = Inr rs'
     \<Longrightarrow> push_rules_reachable IX user_id rs'"
| set_actions: "push_rules_reachable IX user_id rs \<Longrightarrow> ruleset_set_actions IX kind i acts rs = Inr rs'
     \<Longrightarrow> push_rules_reachable IX user_id rs'"
| remove: "push_rules_reachable IX user_id rs \<Longrightarrow> ruleset_remove IX kind i rs = Inr rs'
     \<Longrightarrow> push_rules_reachable IX user_id rs'"
| refresh: "push_rules_reachable IX user_id rs
     \<Longrightarrow> update_with_server_default IX (server_default IX user_id) rs = Some rs' \<Longrightarrow> push_rules_reachable IX user_id rs'"

lemma insert_in_ok:
  assumes "index_set rule_id ops" "kind_ok rules defaults" "insert_in ops d a b rule rules = (res, rules')"
    and "\<not> starts_with (CHR ''.'') (rule_id rule)" "\<not> rule_default rule"
  shows "kind_ok rules' defaults"
proof -
  let ?rule = "keep_enabled ops rules rule"
  have r: "rule_id ?rule = rule_id rule" "rule_default ?rule = rule_default rule"
    by (simp_all add: keep_enabled_def split: option.split)
  from assms(2) have k: "distinct (map rule_id rules)"
    "\<forall>r\<in>set rules. rule_default r \<longleftrightarrow> starts_with (CHR ''.'') (rule_id r)" "map rule_id (filter rule_default rules) = defaults"
    by (simp_all add: kind_ok_def)
  have n: "\<forall>x\<in>set rules. rule_id x = rule_id ?rule \<longrightarrow> \<not> rule_default x" using k(2) assms(4) r by simp
  from index_set.insert_keeps[OF assms(1) k(1) assms(3)[unfolded insert_in_def], of rule_default] r n assms(5)
  have "distinct (map rule_id rules')" "filter rule_default rules' = filter rule_default rules"
    "set rules' \<subseteq> insert ?rule (set rules)" by simp_all
  with k assms(4,5) r show ?thesis by (auto simp: kind_ok_def)
qed

lemma change_rule_ok:
  assumes "index_set rule_id ops" "kind_ok rules defaults" "change_rule ops k f rules = Inr rules'"
    and "\<And>r. rule_id (f r) = rule_id r" "\<And>r. rule_default (f r) = rule_default r"
  shows "kind_ok rules' defaults"
proof -
  from index_set.change_keeps[OF assms(1,3), of rule_default] assms(4,5)
  have m: "map rule_id rules' = map rule_id rules" "map rule_default rules' = map rule_default rules" by auto
  have f: "map rule_id (filter rule_default xs) = map snd (filter fst (zip (map rule_default xs) (map rule_id xs)))"
    for xs :: "'a simple_push_rule_scheme list" by (induction xs) simp_all
  have g: "(\<forall>r\<in>set xs. rule_default r \<longleftrightarrow> starts_with (CHR ''.'') (rule_id r))
      \<longleftrightarrow> list_all2 (\<lambda>d i. d \<longleftrightarrow> starts_with (CHR ''.'') i) (map rule_default xs) (map rule_id xs)"
    for xs :: "'a simple_push_rule_scheme list" by (induction xs) simp_all
  show ?thesis using assms(2) unfolding kind_ok_def f g m .
qed

lemma shift_take_ok:
  assumes "index_set rule_id ops" "kind_ok rules defaults" "ix_get ops k rules = Some r" "\<not> rule_default r"
  shows "kind_ok (snd (ix_shift_take ops k rules)) defaults"
proof -
  have k: "distinct (map rule_id rules)" using assms(2) by (simp add: kind_ok_def)
  have "rule_of k rules = Some r" using assms(3) by (simp add: index_set.get[OF assms(1)] rule_of_position)
  then have "x = r" if "x \<in> set rules" "rule_id x = k" for x
    using rule_of_Some[OF k, of k x] that by simp
  then have "\<forall>x\<in>set rules. rule_id x = k \<longrightarrow> \<not> rule_default x" using assms(4) by blast
  from index_set.shift_take_keeps[OF assms(1) k this] assms(2) show ?thesis by (auto simp: kind_ok_def)
qed

lemmas predefined_defs = master_def suppress_notices_def invite_for_me_def member_event_def is_user_mention_def
  contains_display_name_def tombstone_def is_room_mention_def reaction_def server_acl_def suppress_edits_def
  poll_response_def call_rule_def encrypted_room_one_to_one_def room_one_to_one_def message_rule_def encrypted_rule_def
  poll_start_one_to_one_def poll_start_def poll_end_one_to_one_def poll_end_def unsubscribed_thread_def
  subscribed_thread_def default_rule_def

lemma default_ids:
  "map rule_id (override_defaults user_id) = map override_rule_id [OMaster, OSuppressNotices, OInviteForMe, OMemberEvent,
     OIsUserMention, OContainsDisplayName, OIsRoomMention, OTombstone, OReaction, ORoomServerAcl, OSuppressEdits, OPollResponse]"
  "map rule_id underride_defaults = map underride_rule_id [UCall, UEncryptedRoomOneToOne, URoomOneToOne, UMessage,
     UEncrypted, UPollStartOneToOne, UPollStart, UPollEndOneToOne, UPollEnd]"
  "map rule_id postcontent_defaults = map underride_rule_id [UUnsubscribedThread, USubscribedThread]"
  by (simp_all add: override_defaults_def underride_defaults_def postcontent_defaults_def predefined_defs
      del: override_rule_id.simps underride_rule_id.simps)

definition defaults_ok :: "'r simple_push_rule_scheme list \<Rightarrow> bool" where
  "defaults_ok rules \<longleftrightarrow> distinct (map rule_id rules)
     \<and> list_all (\<lambda>r. rule_default r \<and> starts_with (CHR ''.'') (rule_id r)) rules"

lemma defaults_ok:
  "defaults_ok (override_defaults user_id)" "defaults_ok underride_defaults" "defaults_ok postcontent_defaults"
proof -
  have "distinct (map override_rule_id [OMaster, OSuppressNotices, OInviteForMe, OMemberEvent,
     OIsUserMention, OContainsDisplayName, OIsRoomMention, OTombstone, OReaction, ORoomServerAcl, OSuppressEdits, OPollResponse])"
    by code_simp
  then show "defaults_ok (override_defaults user_id)"
    unfolding defaults_ok_def default_ids by (simp add: override_defaults_def predefined_defs)
  have "distinct (map underride_rule_id [UCall, UEncryptedRoomOneToOne, URoomOneToOne, UMessage,
     UEncrypted, UPollStartOneToOne, UPollStart, UPollEndOneToOne, UPollEnd])" by code_simp
  then show "defaults_ok underride_defaults"
    unfolding defaults_ok_def default_ids by (simp add: underride_defaults_def predefined_defs)
  show "defaults_ok postcontent_defaults"
    unfolding defaults_ok_def default_ids by (simp add: postcontent_defaults_def predefined_defs)
qed

lemma defaults_kind_ok:
  assumes "index_set rule_id ops" "defaults_ok rules"
  shows "kind_ok (from_array ops rules) (map rule_id rules)" "from_array ops rules = rules"
proof -
  show f: "from_array ops rules = rules"
    using assms by (simp add: index_set.from_array_distinct defaults_ok_def)
  have "filter rule_default rules = rules" using assms(2) by (simp add: defaults_ok_def list_all_iff filter_id_conv)
  then show "kind_ok (from_array ops rules) (map rule_id rules)"
    unfolding f using assms(2) by (simp add: kind_ok_def defaults_ok_def list_all_iff)
qed

lemma merged_ok:
  assumes "defaults_ok (new1 @ new2)" "kind_ok old ds"
    and "distinct (map rule_id (new1 @ us @ new2))"
    and "mset us = filter_mset (\<lambda>r. rule_id r \<notin> rule_id ` set (new1 @ new2) \<and> \<not> rule_default r) (mset old)"
  shows "kind_ok (map (with_state old) new1 @ us @ map (with_state old) new2) (map rule_id (new1 @ new2))"
proof -
  have "set_mset (mset us) = set_mset (filter_mset (\<lambda>r. rule_id r \<notin> rule_id ` set (new1 @ new2) \<and> \<not> rule_default r) (mset old))"
    by (simp only: assms(4))
  then have u: "\<forall>r\<in>set us. \<not> rule_default r \<and> r \<in> set old" by auto
  with assms(2) have u2: "\<forall>r\<in>set us. rule_default r \<longleftrightarrow> starts_with (CHR ''.'') (rule_id r)" by (auto simp: kind_ok_def)
  have n: "\<forall>r\<in>set new1 \<union> set new2. rule_default r \<and> starts_with (CHR ''.'') (rule_id r)"
    using assms(1) by (auto simp: defaults_ok_def list_all_iff)
  have "filter rule_default us = []" using u by (simp add: filter_empty_conv)
  moreover have "filter rule_default (map (with_state old) xs) = map (with_state old) xs"
    if "set xs \<subseteq> set new1 \<union> set new2" for xs using that n by (auto simp: filter_id_conv)
  ultimately show ?thesis
    using assms(3) u2 n by (auto simp: kind_ok_def comp_def image_image)
qed

lemma merge_rules_ok:
  assumes "index_set rule_id ops" "defaults_ok new" "kind_ok old ds"
  shows "kind_ok (merge_rules ops new old) (map rule_id new)"
proof -
  have d: "distinct (map rule_id new)" "distinct (map rule_id old)" using assms by (simp_all add: defaults_ok_def kind_ok_def)
  from rule_index_set.merge_rules_correct[OF rule_index_setI[OF assms(1)] d] obtain us where
    "merge_rules ops new old = us @ map (with_state old) new" "distinct (map rule_id (us @ new))"
    "mset us = filter_mset (\<lambda>r. rule_id r \<notin> rule_id ` set new \<and> \<not> rule_default r) (mset old)" by blast
  with merged_ok[of "[]" new old ds us] assms show ?thesis by simp
qed

section \<open>Preservation by every operation\<close>

lemma rule_sets_okD:
  "rule_sets_ok IX \<Longrightarrow> index_set rule_id (conditional_sets IX)"
  "rule_sets_ok IX \<Longrightarrow> index_set rule_id (patterned_sets IX)"
  "rule_sets_ok IX \<Longrightarrow> index_set rule_id (simple_sets IX)"
  by (simp_all add: rule_sets_ok_def)

lemma server_default_fields:
  assumes "rule_sets_ok IX"
  shows "rs_override (server_default IX user_id) = override_defaults user_id"
    "rs_underride (server_default IX user_id) = underride_defaults"
    "rs_postcontent (server_default IX user_id) = postcontent_defaults"
    "rs_content (server_default IX user_id) = []" "rs_room (server_default IX user_id) = []"
    "rs_sender (server_default IX user_id) = []"
  using defaults_kind_ok(2)[OF rule_sets_okD(1)[OF assms]] defaults_ok by (simp_all add: server_default_def ruleset_new_def)

lemma server_default_ok:
  assumes "rule_sets_ok IX"
  shows "ruleset_ok user_id (server_default IX user_id)"
proof -
  note k = defaults_kind_ok[OF rule_sets_okD(1)[OF assms]]
  have "\<exists>m rest. override_defaults user_id = m # rest \<and> rule_id m = override_rule_id OMaster"
    by (simp add: override_defaults_def master_def default_rule_def)
  moreover have "kind_ok (override_defaults user_id) (map rule_id (override_defaults user_id))"
    "kind_ok underride_defaults (map rule_id underride_defaults)" "kind_ok postcontent_defaults (map rule_id postcontent_defaults)"
    using k(1)[OF defaults_ok(1)] k(1)[OF defaults_ok(2)] k(1)[OF defaults_ok(3)]
      k(2)[OF defaults_ok(1)] k(2)[OF defaults_ok(2)] k(2)[OF defaults_ok(3)] by simp_all
  moreover have "kind_ok ([] :: 'a simple_push_rule_scheme list) []" by (simp add: kind_ok_def)
  moreover have "kind_ok ([] :: simple_push_rule list) []" "kind_ok ([] :: patterned_push_rule list) []"
    by (simp_all add: kind_ok_def)
  ultimately show ?thesis unfolding ruleset_ok_def server_default_fields[OF assms] by blast
qed

lemma check_insert_Inr:
  "check_insert i a b = Inr u \<Longrightarrow> \<not> starts_with (CHR ''.'') i \<and> (\<forall>k. b = Some k \<longrightarrow> \<not> starts_with (CHR ''.'') k)"
  by (auto simp: check_insert_def split: if_splits option.splits)

lemma insert_override_ok:
  assumes ix: "index_set rule_id ops" and k: "kind_ok (m # rest) ds" "rule_id m = override_rule_id OMaster"
    and c: "check_insert (rule_id rule) a b = Inr u" "\<not> rule_default rule"
    and i: "insert_in ops 1 a b rule (m # rest) = (res, rules')"
  shows "kind_ok rules' ds \<and> (\<exists>m rest. rules' = m # rest \<and> rule_id m = override_rule_id OMaster)"
proof
  note cc = check_insert_Inr[OF c(1)]
  show "kind_ok rules' ds" using insert_in_ok[OF ix k(1) i _ c(2)] cc by simp
  let ?rule = "keep_enabled ops (m # rest) rule"
  have "rule_id ?rule = rule_id rule" by (simp add: keep_enabled_def split: option.split)
  moreover have "starts_with (CHR ''.'') (rule_id m)" using k(2) by simp
  ultimately have "rule_id m \<noteq> rule_id ?rule" "b \<noteq> Some (rule_id m)" using cc by auto
  moreover have "distinct (map rule_id (m # rest))" using k(1) by (simp add: kind_ok_def)
  ultimately obtain ys where "rules' = m # ys"
    using index_set.insert_keeps_first[OF ix _ i[unfolded insert_in_def]] by auto
  with k(2) show "\<exists>m rest. rules' = m # rest \<and> rule_id m = override_rule_id OMaster" by simp
qed

lemma insert_in_step:
  assumes "index_set rule_id ops" "kind_ok rules defaults" "map_prod id F (insert_in ops d a b rule rules) = (res, rs')"
    and "\<not> starts_with (CHR ''.'') (rule_id rule)" "\<not> rule_default rule"
  shows "\<exists>rules'. rs' = F rules' \<and> kind_ok rules' defaults"
proof -
  obtain res' rules' where r: "insert_in ops d a b rule rules = (res', rules')" by fastforce
  from insert_in_ok[OF assms(1,2) r assms(4,5)] assms(3) r show ?thesis by auto
qed

lemma ruleset_insert_ok:
  assumes "rule_sets_ok IX" "ruleset_ok user_id rs" "ruleset_insert IX rule a b rs = (res, rs')"
  shows "ruleset_ok user_id rs'"
proof (cases "check_insert (new_rule_id rule) a b")
  case (Inl e)
  with assms show ?thesis by (simp add: ruleset_insert_def)
next
  case (Inr u)
  note ix = rule_sets_okD[OF assms(1)]
  have new: "rule_id (conditional_from_new i cs acts) = i" "\<not> rule_default (conditional_from_new i cs acts)"
    "rule_id (patterned_from_new i p acts) = i" "\<not> rule_default (patterned_from_new i p acts)"
    "rule_id (simple_from_new i acts) = i" "\<not> rule_default (simple_from_new i acts)" for i cs p acts
    by (simp_all add: conditional_from_new_def patterned_from_new_def simple_from_new_def)
  from assms(2) obtain m rest where o: "rs_override rs = m # rest" "rule_id m = override_rule_id OMaster"
    by (auto simp: ruleset_ok_def)
  note k = assms(2)[unfolded ruleset_ok_def]
  then have kc: "kind_ok (rs_content rs) []" and kp: "kind_ok (rs_postcontent rs) (map rule_id postcontent_defaults)"
    and kr: "kind_ok (rs_room rs) []" and ks: "kind_ok (rs_sender rs) []"
    and ku: "kind_ok (rs_underride rs) (map rule_id underride_defaults)" by blast+
  note n = check_insert_Inr[OF Inr]
  show ?thesis
  proof (cases rule)
    case (NewOverride i cs acts)
    with assms(3) Inr obtain rules' where r: "insert_in (conditional_sets IX) 1 a b (conditional_from_new i cs acts) (m # rest)
        = (res, rules')" "rs' = rs\<lparr>rs_override := rules'\<rparr>"
      by (auto simp: ruleset_insert_def o map_prod_def split: prod.splits)
    have c: "check_insert (rule_id (conditional_from_new i cs acts)) a b = Inr u" using Inr NewOverride by (simp add: new)
    have "kind_ok (m # rest) (map rule_id (override_defaults user_id))" using k o(1) by simp
    from insert_override_ok[OF ix(1) this o(2) c new(2) r(1)] k r(2) show ?thesis by (simp add: ruleset_ok_def)
  next
    case (NewContent i p acts)
    with assms(3) Inr have "map_prod id (\<lambda>s. rs\<lparr>rs_content := s\<rparr>)
        (insert_in (patterned_sets IX) 0 a b (patterned_from_new i p acts) (rs_content rs)) = (res, rs')" by (simp add: ruleset_insert_def)
    from insert_in_step[OF ix(2) kc this] n NewContent new
    obtain rules' where "rs' = rs\<lparr>rs_content := rules'\<rparr>" "kind_ok rules' []" by auto
    with k show ?thesis by (simp add: ruleset_ok_def)
  next
    case (NewPostContent i cs acts)
    with assms(3) Inr have "map_prod id (\<lambda>s. rs\<lparr>rs_postcontent := s\<rparr>)
        (insert_in (conditional_sets IX) 0 a b (conditional_from_new i cs acts) (rs_postcontent rs)) = (res, rs')" by (simp add: ruleset_insert_def)
    from insert_in_step[OF ix(1) kp this] n NewPostContent new
    obtain rules' where "rs' = rs\<lparr>rs_postcontent := rules'\<rparr>" "kind_ok rules' (map rule_id postcontent_defaults)" by auto
    with k show ?thesis by (simp add: ruleset_ok_def)
  next
    case (NewRoom i acts)
    with assms(3) Inr have "map_prod id (\<lambda>s. rs\<lparr>rs_room := s\<rparr>)
        (insert_in (simple_sets IX) 0 a b (simple_from_new i acts) (rs_room rs)) = (res, rs')" by (simp add: ruleset_insert_def)
    from insert_in_step[OF ix(3) kr this] n NewRoom new
    obtain rules' where "rs' = rs\<lparr>rs_room := rules'\<rparr>" "kind_ok rules' []" by auto
    with k show ?thesis by (simp add: ruleset_ok_def)
  next
    case (NewSender i acts)
    with assms(3) Inr have "map_prod id (\<lambda>s. rs\<lparr>rs_sender := s\<rparr>)
        (insert_in (simple_sets IX) 0 a b (simple_from_new i acts) (rs_sender rs)) = (res, rs')" by (simp add: ruleset_insert_def)
    from insert_in_step[OF ix(3) ks this] n NewSender new
    obtain rules' where "rs' = rs\<lparr>rs_sender := rules'\<rparr>" "kind_ok rules' []" by auto
    with k show ?thesis by (simp add: ruleset_ok_def)
  next
    case (NewUnderride i cs acts)
    with assms(3) Inr have "map_prod id (\<lambda>s. rs\<lparr>rs_underride := s\<rparr>)
        (insert_in (conditional_sets IX) 0 a b (conditional_from_new i cs acts) (rs_underride rs)) = (res, rs')" by (simp add: ruleset_insert_def)
    from insert_in_step[OF ix(1) ku this] n NewUnderride new
    obtain rules' where "rs' = rs\<lparr>rs_underride := rules'\<rparr>" "kind_ok rules' (map rule_id underride_defaults)" by auto
    with k show ?thesis by (simp add: ruleset_ok_def)
  qed
qed

lemma change_rule_first:
  assumes "index_set rule_id ops" "change_rule ops k f (m # rest) = Inr rules'" "\<And>r. rule_id (f r) = rule_id r"
  shows "\<exists>m' rest'. rules' = m' # rest' \<and> rule_id m' = rule_id m"
proof -
  have "map rule_id rules' = map rule_id (m # rest)"
    using index_set.change_keeps[OF assms(1,2), of "\<lambda>_. True"] assms(3) by simp
  then show ?thesis by (cases rules') simp_all
qed

lemma change_in_ok:
  assumes "rule_sets_ok IX" "ruleset_ok user_id rs" "change_in IX kind i fc fp fs rs = Inr rs'"
    and c: "\<And>r. rule_id (fc r) = rule_id r \<and> rule_default (fc r) = rule_default r"
      "\<And>r. rule_id (fp r) = rule_id r \<and> rule_default (fp r) = rule_default r"
      "\<And>r. rule_id (fs r) = rule_id r \<and> rule_default (fs r) = rule_default r"
  shows "ruleset_ok user_id rs'"
proof -
  note ix = rule_sets_okD[OF assms(1)] and k = assms(2)[unfolded ruleset_ok_def]
  from k obtain m rest where o: "rs_override rs = m # rest" "rule_id m = override_rule_id OMaster" by blast
  show ?thesis
  proof (cases kind)
    case KindOverride
    with assms(3) o obtain rules' where r: "change_rule (conditional_sets IX) i fc (m # rest) = Inr rules'"
      "rs' = rs\<lparr>rs_override := rules'\<rparr>" by (auto simp: change_in_def res_simps)
    have "kind_ok rules' (map rule_id (override_defaults user_id))"
      using change_rule_ok[OF ix(1) _ r(1)] k o(1) c(1) by simp
    moreover have "\<exists>m rest. rules' = m # rest \<and> rule_id m = override_rule_id OMaster"
      using change_rule_first[OF ix(1) r(1)] c(1) o(2) by auto
    ultimately show ?thesis using k r(2) by (simp add: ruleset_ok_def)
  next
    case KindUnderride
    with assms(3) obtain rules' where "change_rule (conditional_sets IX) i fc (rs_underride rs) = Inr rules'"
      "rs' = rs\<lparr>rs_underride := rules'\<rparr>" by (auto simp: change_in_def res_simps)
    with change_rule_ok[OF ix(1) _ this(1)] k c(1) show ?thesis by (simp add: ruleset_ok_def)
  next
    case KindSender
    with assms(3) obtain rules' where "change_rule (simple_sets IX) i fs (rs_sender rs) = Inr rules'"
      "rs' = rs\<lparr>rs_sender := rules'\<rparr>" by (auto simp: change_in_def res_simps)
    with change_rule_ok[OF ix(3) _ this(1)] k c(3) show ?thesis by (simp add: ruleset_ok_def)
  next
    case KindRoom
    with assms(3) obtain rules' where "change_rule (simple_sets IX) i fs (rs_room rs) = Inr rules'"
      "rs' = rs\<lparr>rs_room := rules'\<rparr>" by (auto simp: change_in_def res_simps)
    with change_rule_ok[OF ix(3) _ this(1)] k c(3) show ?thesis by (simp add: ruleset_ok_def)
  next
    case KindContent
    with assms(3) obtain rules' where "change_rule (patterned_sets IX) i fp (rs_content rs) = Inr rules'"
      "rs' = rs\<lparr>rs_content := rules'\<rparr>" by (auto simp: change_in_def res_simps)
    with change_rule_ok[OF ix(2) _ this(1)] k c(2) show ?thesis by (simp add: ruleset_ok_def)
  next
    case KindPostContent
    with assms(3) obtain rules' where "change_rule (conditional_sets IX) i fc (rs_postcontent rs) = Inr rules'"
      "rs' = rs\<lparr>rs_postcontent := rules'\<rparr>" by (auto simp: change_in_def res_simps)
    with change_rule_ok[OF ix(1) _ this(1)] k c(1) show ?thesis by (simp add: ruleset_ok_def)
  next
    case (KindCustom s)
    with assms(3) show ?thesis by (simp add: change_in_def)
  qed
qed

lemma shift_take_first:
  assumes "index_set rule_id ops" "rule_id m \<noteq> k"
  shows "\<exists>rest'. snd (ix_shift_take ops k (m # rest)) = m # rest'"
  using assms by (auto simp: index_set.shift_take[OF assms(1)] split: option.splits)

lemma ruleset_remove_ok:
  assumes "rule_sets_ok IX" "ruleset_ok user_id rs" "ruleset_remove IX kind i rs = Inr rs'"
  shows "ruleset_ok user_id rs'"
proof -
  note ix = rule_sets_okD[OF assms(1)] and k = assms(2)[unfolded ruleset_ok_def]
  from assms(3) obtain rule where g: "ruleset_get IX kind i rs = Some rule" "\<not> any_is_server_default rule"
    by (auto simp: ruleset_remove_def split: option.splits if_splits)
  note rem = assms(3)[unfolded ruleset_remove_def g(1) option.simps if_not_P[OF g(2)]]
  from k obtain m rest where o: "rs_override rs = m # rest" "rule_id m = override_rule_id OMaster" by blast
  show ?thesis
  proof (cases kind)
    case KindOverride
    with g o obtain r where r: "ix_get (conditional_sets IX) i (m # rest) = Some r" "\<not> rule_default r"
      by (auto simp: ruleset_get_def any_is_server_default_def simple_push_rule.defs)
    have km: "kind_ok (m # rest) (map rule_id (override_defaults user_id))" using k o(1) by simp
    have "rule_of i (m # rest) = Some r" using r(1) unfolding index_set.get[OF ix(1)] rule_of_position .
    then have "rule_id m \<noteq> i" using km r(2) o(2) by (auto simp: rule_of_def kind_ok_def)
    from shift_take_first[OF ix(1) this, of rest] shift_take_ok[OF ix(1) km r] rem KindOverride k o
    show ?thesis by (auto simp: ruleset_ok_def)
  next
    case KindUnderride
    with g obtain r where r: "ix_get (conditional_sets IX) i (rs_underride rs) = Some r" "\<not> rule_default r"
      by (auto simp: ruleset_get_def any_is_server_default_def simple_push_rule.defs)
    with shift_take_ok[OF ix(1) _ r] rem KindUnderride k show ?thesis by (auto simp: ruleset_ok_def)
  next
    case KindSender
    with g obtain r where r: "ix_get (simple_sets IX) i (rs_sender rs) = Some r" "\<not> rule_default r"
      by (auto simp: ruleset_get_def any_is_server_default_def)
    with shift_take_ok[OF ix(3) _ r] rem KindSender k show ?thesis by (auto simp: ruleset_ok_def)
  next
    case KindRoom
    with g obtain r where r: "ix_get (simple_sets IX) i (rs_room rs) = Some r" "\<not> rule_default r"
      by (auto simp: ruleset_get_def any_is_server_default_def)
    with shift_take_ok[OF ix(3) _ r] rem KindRoom k show ?thesis by (auto simp: ruleset_ok_def)
  next
    case KindContent
    with g obtain r where r: "ix_get (patterned_sets IX) i (rs_content rs) = Some r" "\<not> rule_default r"
      by (auto simp: ruleset_get_def any_is_server_default_def simple_push_rule.defs)
    with shift_take_ok[OF ix(2) _ r] rem KindContent k show ?thesis by (auto simp: ruleset_ok_def)
  next
    case KindPostContent
    with g obtain r where r: "ix_get (conditional_sets IX) i (rs_postcontent rs) = Some r" "\<not> rule_default r"
      by (auto simp: ruleset_get_def any_is_server_default_def simple_push_rule.defs)
    with shift_take_ok[OF ix(1) _ r] rem KindPostContent k show ?thesis by (auto simp: ruleset_ok_def)
  next
    case (KindCustom s)
    with g show ?thesis by (simp add: ruleset_get_def)
  qed
qed

lemma update_ok:
  assumes "rule_sets_ok IX" "ruleset_ok user_id rs"
  shows "\<exists>rs'. update_with_server_default IX (server_default IX user_id) rs = Some rs' \<and> ruleset_ok user_id rs'"
proof -
  note ix = rule_sets_okD[OF assms(1)] and k = assms(2)[unfolded ruleset_ok_def]
  have nil: "defaults_ok ([] :: patterned_push_rule list)" "defaults_ok ([] :: simple_push_rule list)"
    by (simp_all add: defaults_ok_def)
  obtain rest where o: "override_defaults user_id = master # rest" by (simp add: override_defaults_def)
  have m: "rule_id master = override_rule_id OMaster" by (simp add: master_def default_rule_def)
  have d: "distinct (map rule_id (master # rest))" "distinct (map rule_id (rs_override rs))"
    using defaults_ok(1)[of user_id] k by (simp_all add: defaults_ok_def kind_ok_def o)
  from merge_override_correct[OF ix(1) d m] obtain us where
    u: "merge_override (conditional_sets IX) (master # rest) (rs_override rs)
        = Some (with_state (rs_override rs) master # us @ map (with_state (rs_override rs)) rest)"
      "distinct (map rule_id (master # us @ rest))"
      "mset us = filter_mset (\<lambda>r. rule_id r \<notin> rule_id ` set (master # rest) \<and> \<not> rule_default r) (mset (rs_override rs))"
    by blast
  have "kind_ok (map (with_state (rs_override rs)) [master] @ us @ map (with_state (rs_override rs)) rest) (map rule_id ([master] @ rest))"
    using merged_ok[of "[master]" rest "rs_override rs" "map rule_id (master # rest)" us] defaults_ok(1)[of user_id] k u(2,3) by (simp add: o)
  then have "kind_ok (with_state (rs_override rs) master # us @ map (with_state (rs_override rs)) rest) (map rule_id (override_defaults user_id))"
    by (simp add: o)
  moreover have "rule_id (with_state (rs_override rs) master) = override_rule_id OMaster" using m by simp
  moreover have "kind_ok (merge_rules (conditional_sets IX) underride_defaults (rs_underride rs)) (map rule_id underride_defaults)"
    "kind_ok (merge_rules (conditional_sets IX) postcontent_defaults (rs_postcontent rs)) (map rule_id postcontent_defaults)"
    "kind_ok (merge_rules (patterned_sets IX) [] (rs_content rs)) []"
    "kind_ok (merge_rules (simple_sets IX) [] (rs_room rs)) []" "kind_ok (merge_rules (simple_sets IX) [] (rs_sender rs)) []"
    using merge_rules_ok[OF ix(1) defaults_ok(2)] merge_rules_ok[OF ix(1) defaults_ok(3)] merge_rules_ok[OF ix(2) nil(1)]
      merge_rules_ok[OF ix(3) nil(2)] k by (auto simp del: map_append)
  ultimately show ?thesis
    unfolding update_with_server_default_def server_default_fields[OF assms(1)] o u(1)
    by (simp add: ruleset_ok_def o)
qed

section \<open>Properties\<close>

definition list_rule_sets :: rule_sets where
  "list_rule_sets = \<lparr>conditional_sets = list_index_ops rule_id, patterned_sets = list_index_ops rule_id,
     simple_sets = list_index_ops rule_id\<rparr>"

lemma list_rule_sets_ok: "rule_sets_ok list_rule_sets"
  unfolding rule_sets_ok_def list_rule_sets_def by (simp add: list_ix.index_set_axioms)

text \<open>C27: Whatever sequence of insertions (successful or refused), changes, removals and refreshes is applied to the
  push rules of a user, every kind of rule holds each identifier once, identifiers that start with a dot are exactly
  those of the predefined rules, all predefined rules are present in their order, and the master rule comes first.\<close>

theorem push_rules_invariant:
  assumes "rule_sets_ok IX" "push_rules_reachable IX user_id rs"
  shows "ruleset_ok user_id rs"
  using assms(2)
proof (induction rule: push_rules_reachable.induct)
  case start
  show ?case by (rule server_default_ok[OF assms(1)])
next
  case (insert rs rule after before res rs')
  then show ?case using ruleset_insert_ok[OF assms(1)] by blast
next
  case (set_enabled rs kind i b rs')
  then show ?case unfolding ruleset_set_enabled_def using change_in_ok[OF assms(1)] by simp
next
  case (set_actions rs kind i acts rs')
  then show ?case unfolding ruleset_set_actions_def using change_in_ok[OF assms(1)] by simp
next
  case (remove rs kind i rs')
  then show ?case using ruleset_remove_ok[OF assms(1)] by blast
next
  case (refresh rs rs')
  then show ?case using update_ok[OF assms(1)] by (metis option.inject)
qed

definition ex_ruleset :: ruleset where
  "ex_ruleset = snd (ruleset_insert list_rule_sets (NewOverride ''mine'' [] [Notify]) None None
     (server_default list_rule_sets ''@a:h''))"

theorem push_rules_invariant_witness: "ruleset_ok ''@a:h'' ex_ruleset \<and> length (rs_override ex_ruleset) = 13"
proof
  let ?rs = "server_default list_rule_sets ''@a:h''"
  have "push_rules_reachable list_rule_sets ''@a:h'' ex_ruleset"
    unfolding ex_ruleset_def
    by (rule push_rules_reachable.insert[OF push_rules_reachable.start, where rule = "NewOverride ''mine'' [] [Notify]"
          and after = None and before = None
          and res = "fst (ruleset_insert list_rule_sets (NewOverride ''mine'' [] [Notify]) None None ?rs)"]) simp
  then show "ruleset_ok ''@a:h'' ex_ruleset" by (rule push_rules_invariant[OF list_rule_sets_ok])
  show "length (rs_override ex_ruleset) = 13" by code_simp
qed

lemma first_applying_cases:
  assumes "first_applying M event ctx rules = Some m"
  shows "(m = None \<and> (\<forall>r\<in>set rules. any_applies M event ctx r = Some False))
    \<or> (\<exists>us r vs. m = Some r \<and> rules = us @ r # vs \<and> any_applies M event ctx r = Some True
          \<and> (\<forall>q\<in>set us. any_applies M event ctx q = Some False))"
  using assms
proof (induction rules)
  case (Cons r rules)
  show ?case
  proof (cases "any_applies M event ctx r = Some True")
    case True
    with Cons.prems have "m = Some r" by simp
    with True show ?thesis by (intro disjI2 exI[of _ "[]"]) auto
  next
    case False
    with Cons.prems have f: "any_applies M event ctx r = Some False" "first_applying M event ctx rules = Some m"
      by (auto split: option.splits bool.splits)
    from Cons.IH[OF f(2)] show ?thesis
    proof
      assume "\<exists>us q vs. m = Some q \<and> rules = us @ q # vs \<and> any_applies M event ctx q = Some True
        \<and> (\<forall>q\<in>set us. any_applies M event ctx q = Some False)"
      then obtain us q vs where "m = Some q" "rules = us @ q # vs" "any_applies M event ctx q = Some True"
        "\<forall>q\<in>set us. any_applies M event ctx q = Some False" by blast
      with f(1) show ?thesis by (intro disjI2 exI[of _ "r # us"] exI[of _ q] exI[of _ vs]) simp
    qed (use f(1) in simp)
  qed
qed simp

lemma applies_enabled: "any_applies M event ctx r = Some True \<Longrightarrow> any_enabled r \<and> \<not> sent_by_self event ctx"
  by (cases r) (auto simp: any_applies_def any_enabled_def conditional_applies_def patterned_applies_to_def
      simple_push_rule.defs split: if_splits)


definition ex_ctx :: push_room_ctx where
  "ex_ctx = room_ctx_new ''!r:h'' 2 ''@b:h'' ''B''"


text \<open>While the master rule comes first and is enabled, it alone decides about every event of other users,
  whatever other rules there are and whatever features the room supports.\<close>

theorem master_rule_decides:
  assumes "rs_override rs = m # rest" "rule_id m = override_rule_id OMaster" "rule_enabled m" "rule_conditions m = []"
  shows "get_actions M raw ctx rs = Some (if sent_by_self (from_raw raw) ctx then [] else rule_actions m)"
  using assms by (simp add: get_actions_def get_match_def ruleset_iter_def any_applies_def conditional_applies_def
      any_actions_def simple_push_rule.defs)

theorem master_rule_decides_witness:
  "get_actions ex_matcher ex_raw ex_ctx ((server_default list_rule_sets ''@b:h'')\<lparr>rs_override := [master\<lparr>rule_enabled := True\<rparr>]\<rparr>)
     = Some []"
  by (subst master_rule_decides[where m = "master\<lparr>rule_enabled := True\<rparr>" and rest = "[]"])
    (simp_all add: master_def default_rule_def)

lemma position_append: "rid r \<noteq> k \<Longrightarrow> position rid k (xs @ [r]) = position rid k xs"
  by (induction xs) auto

lemma position_split:
  assumes "position rid k xs = Some i"
  shows "rid (hd (drop i xs)) = k \<and> drop i xs \<noteq> [] \<and> rid (last (take (Suc i) xs)) = k \<and> take (Suc i) xs \<noteq> []
    \<and> (\<forall>j>i. k \<in> rid ` set (take j xs))"
proof -
  from position_Some[OF assms] have i: "i < length xs" "rid (xs ! i) = k" by simp_all
  have "xs ! i \<in> set (take j xs)" if "i < j" for j
    using i(1) that by (metis in_set_conv_nth length_take min_less_iff_conj nth_take)
  with i show ?thesis by (auto simp: hd_drop_conv_nth take_Suc_conv_app_nth)
qed

lemma target_position_cases:
  assumes "index_set rid ops" "after \<noteq> Some (rid r)" "before \<noteq> Some (rid r)" "d \<le> length xs"
  shows "case target_position ops d after before (xs @ [r]) of
      Inr to \<Rightarrow> to \<le> length xs \<and> (\<forall>a. after = Some a \<longrightarrow> a \<in> rid ` set (take to xs))
        \<and> (\<forall>b. before = Some b \<longrightarrow> drop to xs \<noteq> [] \<and> rid (hd (drop to xs)) = b)
        \<and> (before = None \<longrightarrow> (case after of None \<Rightarrow> to = d | Some a \<Rightarrow> take to xs \<noteq> [] \<and> rid (last (take to xs)) = a))
    | Inl UnknownRuleId \<Rightarrow> \<exists>k\<in>set_option after \<union> set_option before. k \<notin> rid ` set xs
    | Inl BeforeHigherThanAfter \<Rightarrow> \<exists>b i. before = Some b \<and> position rid b xs = Some i
        \<and> i < (case after of None \<Rightarrow> d | Some a \<Rightarrow> Suc (the (position rid a xs)))
    | Inl _ \<Rightarrow> False"
proof -
  have after: "ix_index_of ops a (xs @ [r]) = position rid a xs" if "after = Some a" for a
    using that assms(2) by (simp add: index_set.index_of[OF assms(1)] position_append)
  have before: "ix_index_of ops b (xs @ [r]) = position rid b xs" if "before = Some b" for b
    using that assms(3) by (simp add: index_set.index_of[OF assms(1)] position_append)
  show ?thesis
  proof (cases after)
    case None
    show ?thesis
    proof (cases before)
      case None
      with \<open>after = None\<close> assms(4) show ?thesis by (simp add: target_position_def res_simps)
    next
      case (Some b)
      show ?thesis
      proof (cases "position rid b xs")
        case None
        with \<open>after = None\<close> Some before[OF Some] show ?thesis by (simp add: target_position_def res_simps position_None)
      next
        case (Some i)
        with \<open>after = None\<close> \<open>before = Some b\<close> before[OF \<open>before = Some b\<close>] position_split[OF Some] position_Some[OF Some]
        show ?thesis by (simp add: target_position_def res_simps)
      qed
    qed
  next
    case (Some a)
    note a = Some after[OF Some]
    show ?thesis
    proof (cases "position rid a xs")
      case None
      with a show ?thesis by (simp add: target_position_def res_simps position_None)
    next
      case (Some i)
      note i = Some position_split[OF Some] position_Some[OF Some]
      show ?thesis
      proof (cases before)
        case None
        with a i show ?thesis by (simp add: target_position_def res_simps)
      next
        case (Some b)
        note b = Some before[OF Some]
        show ?thesis
        proof (cases "position rid b xs")
          case None
          with a b i show ?thesis by (simp add: target_position_def res_simps position_None)
        next
          case (Some j)
          with a b i position_split[OF Some] position_Some[OF Some] show ?thesis
            by (auto simp: target_position_def res_simps)
        qed
      qed
    qed
  qed
qed


definition ex_room_rule :: "string \<Rightarrow> simple_push_rule" where
  "ex_room_rule i = simple_from_new i [Notify]"


lemma merge_rules_none:
  assumes "rule_index_set ops" "kind_ok rules []"
  shows "merge_rules ops [] rules = rules"
proof -
  have "filter (\<lambda>r. \<not> rule_default r) rules = rules"
    using assms(2) by (auto simp: kind_ok_def filter_empty_conv intro!: filter_True)
  then show ?thesis
    by (simp add: merge_rules_def refresh_def from_array_def extend_set_def
        index_set.retain[OF rule_index_set.axioms(1)[OF assms(1)]])
qed

lemma user_rules_mset:
  assumes "defaults_ok new" "kind_ok old defaults"
  shows "filter_mset (\<lambda>r. rule_id r \<notin> rule_id ` set new \<and> \<not> rule_default r) (mset old)
    = filter_mset (\<lambda>r. \<not> rule_default r) (mset old)"
  using assms by (intro filter_mset_cong refl) (auto simp: defaults_ok_def kind_ok_def list_all_iff)

text \<open>C30: Refreshing the predefined rules always succeeds: the master rule stays first, every predefined rule has the
  conditions of the current server default with the state and actions the user gave it, the user's own rules come before
  the other predefined rules with none lost, changed or added, and content, room and sender rules stay as they are.\<close>

theorem refresh_keeps_rules:
  assumes "rule_sets_ok IX" "ruleset_ok user_id rs"
  shows "\<exists>rs' us vs ws. update_with_server_default IX (server_default IX user_id) rs = Some rs'
    \<and> rs_override rs' = with_state (rs_override rs) master # us @ map (with_state (rs_override rs)) (tl (override_defaults user_id))
    \<and> mset us = filter_mset (\<lambda>r. \<not> rule_default r) (mset (rs_override rs))
    \<and> rs_underride rs' = vs @ map (with_state (rs_underride rs)) underride_defaults
    \<and> mset vs = filter_mset (\<lambda>r. \<not> rule_default r) (mset (rs_underride rs))
    \<and> rs_postcontent rs' = ws @ map (with_state (rs_postcontent rs)) postcontent_defaults
    \<and> mset ws = filter_mset (\<lambda>r. \<not> rule_default r) (mset (rs_postcontent rs))
    \<and> rs_content rs' = rs_content rs \<and> rs_room rs' = rs_room rs \<and> rs_sender rs' = rs_sender rs"
proof -
  note ix = rule_sets_okD[OF assms(1)] and k = assms(2)[unfolded ruleset_ok_def]
  obtain rest where o: "override_defaults user_id = master # rest" by (simp add: override_defaults_def)
  have m: "rule_id master = override_rule_id OMaster" by (simp add: master_def default_rule_def)
  have d: "distinct (map rule_id (master # rest))" "distinct (map rule_id (rs_override rs))"
    "distinct (map rule_id (rs_underride rs))" "distinct (map rule_id (rs_postcontent rs))"
    "distinct (map rule_id underride_defaults)" "distinct (map rule_id postcontent_defaults)"
    using defaults_ok(1)[of user_id] defaults_ok(2,3) k by (simp_all add: defaults_ok_def kind_ok_def o)
  from k have ks: "kind_ok (rs_override rs) (map rule_id (override_defaults user_id))"
    "kind_ok (rs_underride rs) (map rule_id underride_defaults)"
    "kind_ok (rs_postcontent rs) (map rule_id postcontent_defaults)" by blast+
  note f = user_rules_mset[OF defaults_ok(1)[of user_id, unfolded o] ks(1)] user_rules_mset[OF defaults_ok(2) ks(2)]
    user_rules_mset[OF defaults_ok(3) ks(3)]
  from merge_override_correct[OF ix(1) d(1,2) m, unfolded f(1)] obtain us where
    u: "merge_override (conditional_sets IX) (master # rest) (rs_override rs)
        = Some (with_state (rs_override rs) master # us @ map (with_state (rs_override rs)) rest)"
      "mset us = filter_mset (\<lambda>r. \<not> rule_default r) (mset (rs_override rs))" by blast
  from rule_index_set.merge_rules_correct[OF rule_index_setI[OF ix(1)] d(5,3), unfolded f(2)] obtain vs where
    v: "merge_rules (conditional_sets IX) underride_defaults (rs_underride rs)
        = vs @ map (with_state (rs_underride rs)) underride_defaults"
      "mset vs = filter_mset (\<lambda>r. \<not> rule_default r) (mset (rs_underride rs))" by blast
  from rule_index_set.merge_rules_correct[OF rule_index_setI[OF ix(1)] d(6,4), unfolded f(3)] obtain ws where
    w: "merge_rules (conditional_sets IX) postcontent_defaults (rs_postcontent rs)
        = ws @ map (with_state (rs_postcontent rs)) postcontent_defaults"
      "mset ws = filter_mset (\<lambda>r. \<not> rule_default r) (mset (rs_postcontent rs))" by blast
  have n: "merge_rules (patterned_sets IX) [] (rs_content rs) = rs_content rs"
    "merge_rules (simple_sets IX) [] (rs_room rs) = rs_room rs" "merge_rules (simple_sets IX) [] (rs_sender rs) = rs_sender rs"
    using k merge_rules_none[OF rule_index_setI[OF ix(2)]] merge_rules_none[OF rule_index_setI[OF ix(3)]] by simp_all
  show ?thesis
    unfolding update_with_server_default_def server_default_fields[OF assms(1)] o u(1) v(1) w(1) n
    using u(2) v(2) w(2) by simp
qed

theorem refresh_keeps_rules_witness:
  "\<exists>rs' us. update_with_server_default list_rule_sets (server_default list_rule_sets ''@a:h'') ex_ruleset = Some rs'
    \<and> tl (rs_override rs') = us @ map (with_state (rs_override ex_ruleset)) (tl (override_defaults ''@a:h''))
    \<and> mset us = filter_mset (\<lambda>r. \<not> rule_default r) (mset (rs_override ex_ruleset))"
proof -
  have "ruleset_ok ''@a:h'' ex_ruleset"
    unfolding ex_ruleset_def using ruleset_insert_ok[OF list_rule_sets_ok server_default_ok[OF list_rule_sets_ok]]
    by (metis prod.collapse)
  from refresh_keeps_rules[OF list_rule_sets_ok this] show ?thesis by fastforce
qed

section \<open>Surprises\<close>

text \<open>Moving a rule that is already in the set: a rule to be placed before a later one lands after it, and a rule to
  be placed after the last one panics.\<close>

lemma moved_before_lands_after:
  "map_prod id (map rule_id)
     (insert_in (list_index_ops rule_id) 0 None (Some ''!c'') (ex_room_rule ''!a'') (map ex_room_rule [''!a'', ''!b'', ''!c'']))
   = (Inr (), [''!b'', ''!c'', ''!a''])"
  by code_simp

lemma moved_after_last_panics:
  "fst (ruleset_insert list_rule_sets (NewRoom ''!a'' []) (Some ''!b'') None
     (ruleset_new\<lparr>rs_room := map ex_room_rule [''!a'', ''!b'']\<rparr>)) = Inl Panic"
  by code_simp

text \<open>A refused insertion leaves the rule in the set.\<close>

lemma refused_rule_stays:
  "map_prod id (\<lambda>rs. map rule_id (rs_room rs)) (ruleset_insert list_rule_sets (NewRoom ''!a'' []) (Some ''!b'') None ruleset_new)
   = (Inl (Err UnknownRuleId), [''!a''])"
  by code_simp

text \<open>An override rule cannot be inserted into a set without one.\<close>

lemma first_override_panics:
  "fst (ruleset_insert list_rule_sets (NewOverride ''a'' [] []) None None ruleset_new) = Inl Panic"
  by code_simp

text \<open>A refresh changes the order, and so the priority, of the user's own rules.\<close>

lemma refresh_reorders_user_rules:
  "map_option (\<lambda>rs. take 4 (map rule_id (rs_override rs)))
     (update_with_server_default list_rule_sets (server_default list_rule_sets ''@a:h'')
        (snd (ruleset_insert list_rule_sets (NewOverride ''u1'' [] []) None None
           (snd (ruleset_insert list_rule_sets (NewOverride ''u2'' [] []) None None
              (snd (ruleset_insert list_rule_sets (NewOverride ''u3'' [] []) None None
                (server_default list_rule_sets ''@a:h''))))))))
   = Some [''.m.rule.master'', ''u3'', ''u1'', ''u2'']"
  by code_simp

text \<open>A rule of the kind post-content has no form as a \<open>PushRule\<close>.\<close>

lemma postcontent_rule_panics: "push_rule_from_any (AnyPostContent r) = None"
  by simp

end
