(* ===== verification/App_Monad.thy ===== *)
theory App_Monad
  imports Prelude
begin

text \<open>
  Functions of the server that work on shared state.  Such a function takes the state and gives back
  its result (an \<open>AppResult\<close>) and the new state; \<open>None\<close> means that it does not return.  The
  operator \<open>?\<close> after a call is \<open>app_bind\<close>, and a result that is looked at instead of
  propagated is \<open>app_result\<close>.  The errors are those the modelled functions tell apart
  (\<open>server/src/error.rs\<close>), with a panic as an error of its own.
\<close>

datatype data_error = DieselNotFound | DataOther

datatype app_error = AppData data_error | MatrixNotFound | MatrixInvalidParam | AppPanic

definition is_not_found :: "app_error \<Rightarrow> bool" where
  "is_not_found e = (case e of AppData d \<Rightarrow> d = DieselNotFound | MatrixNotFound \<Rightarrow> True | _ \<Rightarrow> False)"

type_synonym ('s, 'a) app = "'s \<Rightarrow> ((app_error + 'a) \<times> 's) option"

definition app_lift :: "app_error + 'a \<Rightarrow> ('s, 'a) app" where
  "app_lift r s = Some (r, s)"

abbreviation app_return :: "'a \<Rightarrow> ('s, 'a) app" where
  "app_return x \<equiv> app_lift (Inr x)"

abbreviation app_fail :: "app_error \<Rightarrow> ('s, 'a) app" where
  "app_fail e \<equiv> app_lift (Inl e)"

definition app_bind :: "('s, 'a) app \<Rightarrow> ('a \<Rightarrow> ('s, 'b) app) \<Rightarrow> ('s, 'b) app" where
  "app_bind m f s =
     (case m s of
        None \<Rightarrow> None
      | Some (Inl e, s') \<Rightarrow> Some (Inl e, s')
      | Some (Inr x, s') \<Rightarrow> f x s')"

definition app_result :: "('s, 'a) app \<Rightarrow> ('s, app_error + 'a) app" where
  "app_result m s =
     map_option (\<lambda>(r, s'). (case r of Inl AppPanic \<Rightarrow> Inl AppPanic | _ \<Rightarrow> Inr r, s')) (m s)"

fun app_each :: "('a \<Rightarrow> ('s, unit) app) \<Rightarrow> 'a list \<Rightarrow> ('s, unit) app" where
  "app_each f [] = app_return ()"
| "app_each f (x # xs) = app_bind (f x) (\<lambda>_. app_each f xs)"

lemma app_bind_return [simp]: "app_bind (app_return x) f = f x"
  by (simp add: app_bind_def app_lift_def fun_eq_iff)

lemma app_bind_assoc: "app_bind (app_bind m f) g = app_bind m (\<lambda>x. app_bind (f x) g)"
  by (auto simp: app_bind_def fun_eq_iff split: option.splits sum.splits)

section \<open>What a call establishes\<close>

text \<open>\<open>runs P m Q\<close>: from every state with \<open>P\<close> the call \<open>m\<close> returns, and its result and the new
  state satisfy \<open>Q\<close>.\<close>

definition runs :: "('s \<Rightarrow> bool) \<Rightarrow> ('s, 'a) app \<Rightarrow> (app_error + 'a \<Rightarrow> 's \<Rightarrow> bool) \<Rightarrow> bool" where
  "runs P m Q \<longleftrightarrow> (\<forall>s. P s \<longrightarrow> (\<exists>r s'. m s = Some (r, s') \<and> Q r s'))"

lemma runsI: "(\<And>s. P s \<Longrightarrow> \<exists>r s'. m s = Some (r, s') \<and> Q r s') \<Longrightarrow> runs P m Q"
  by (simp add: runs_def)

lemma runsE:
  assumes "runs P m Q" "P s"
  obtains r s' where "m s = Some (r, s')" "Q r s'"
  using assms unfolding runs_def by blast

lemma runs_result_of: "runs P m Q \<Longrightarrow> P s \<Longrightarrow> m s = Some (r, s') \<Longrightarrow> Q r s'"
  unfolding runs_def by fastforce

lemma runs_conseq:
  assumes "runs P' m Q'" "\<And>s. P s \<Longrightarrow> P' s" "\<And>r s. Q' r s \<Longrightarrow> Q r s"
  shows "runs P m Q"
  using assms unfolding runs_def by blast

lemma runs_pre: "(\<And>s0. P s0 \<Longrightarrow> runs (\<lambda>s. s = s0) m Q) \<Longrightarrow> runs P m Q"
  unfolding runs_def by blast

lemma runs_lift [intro!]: "(\<And>s. P s \<Longrightarrow> Q r s) \<Longrightarrow> runs P (app_lift r) Q"
  by (simp add: runs_def app_lift_def)

lemma runs_bind:
  assumes "runs P m M" "\<And>x. runs (M (Inr x)) (f x) Q" "\<And>e s. M (Inl e) s \<Longrightarrow> Q (Inl e) s"
  shows "runs P (app_bind m f) Q"
proof (rule runsI)
  fix s assume "P s"
  with assms(1) obtain r s' where m: "m s = Some (r, s')" "M r s'" by (rule runsE)
  show "\<exists>r s'. app_bind m f s = Some (r, s') \<and> Q r s'"
  proof (cases r)
    case (Inl e)
    with m assms(3) show ?thesis by (simp add: app_bind_def)
  next
    case (Inr x)
    with m(2) have "M (Inr x) s'" by simp
    with assms(2)[of x] obtain r'' s'' where "f x s' = Some (r'', s'')" "Q r'' s''" by (rule runsE)
    with m Inr show ?thesis by (simp add: app_bind_def)
  qed
qed

lemma runs_app_result:
  assumes "runs P m (\<lambda>r s. r \<noteq> Inl AppPanic \<and> Q (Inr r) s)"
  shows "runs P (app_result m) Q"
proof (rule runsI)
  fix s assume "P s"
  with assms obtain r s' where "m s = Some (r, s')" "r \<noteq> Inl AppPanic \<and> Q (Inr r) s'" by (rule runsE)
  then show "\<exists>r s'. app_result m s = Some (r, s') \<and> Q r s'"
    by (auto simp: app_result_def split: sum.split app_error.split)
qed

lemma runs_bind_result:
  assumes "runs P m (\<lambda>r s. r \<noteq> Inl AppPanic \<and> M r s)" "\<And>r. runs (M r) (f r) Q"
  shows "runs P (app_bind (app_result m) f) Q"
proof (rule runs_bind)
  show "runs P (app_result m) (\<lambda>r s. \<exists>x. r = Inr x \<and> M x s)"
    by (rule runs_app_result, rule runs_conseq[OF assms(1)]) auto
qed (use assms(2) in auto)

lemma runs_exists: "(\<And>x. runs (P x) m Q) \<Longrightarrow> runs (\<lambda>s. \<exists>x. P x s) m Q"
  unfolding runs_def by blast

lemma runs_fact: "(b \<Longrightarrow> runs P m Q) \<Longrightarrow> runs (\<lambda>s. P s \<and> b) m Q" "(b \<Longrightarrow> runs P m Q) \<Longrightarrow> runs (\<lambda>s. b \<and> P s) m Q"
  unfolding runs_def by blast+

lemma runs_each:
  assumes "\<And>x. x \<in> set xs \<Longrightarrow> runs I (f x) (\<lambda>r s. I s)"
  shows "runs I (app_each f xs) (\<lambda>r s. I s)"
  using assms
proof (induction xs)
  case (Cons x xs)
  have "runs I (app_each f xs) (\<lambda>r s. I s)" using Cons by simp
  with Cons.prems[of x] show ?case by (auto intro: runs_bind)
qed auto

end
