(* ===== verification/Compressed_State.thy ===== *)
theory Compressed_State
  imports Prelude
begin

text \<open>
  Room states as the server stores them (\<open>server/src/room/state/diff.rs\<close>).  A state is a
  \<open>BTreeSet\<close> of compressed events, each the 16 bytes of a state field and an event number; it is
  kept as a difference to another state.  A \<open>BTreeSet\<close> is a set here, with \<open>sorted_list_of_set\<close>
  where the code iterates over it.
\<close>

section \<open>Bytes of integers\<close>

text \<open>\<open>i64::to_be_bytes\<close> and \<open>i64::from_be_bytes\<close> of the standard library.\<close>

fun be_bytes :: "nat \<Rightarrow> int \<Rightarrow> string" where
  "be_bytes 0 i = []"
| "be_bytes (Suc n) i = be_bytes n (i div 256) @ [char_of (nat (i mod 256))]"

definition to_be_bytes :: "int \<Rightarrow> string" where
  "to_be_bytes i = be_bytes 8 i"

definition from_be :: "string \<Rightarrow> int" where
  "from_be bs = foldl (\<lambda>a c. a * 256 + int (of_char c)) 0 bs"

definition from_be_bytes :: "string \<Rightarrow> int" where
  "from_be_bytes bs = (let u = from_be bs in if 2 ^ 63 \<le> u then u - 2 ^ 64 else u)"

definition i64 :: "int \<Rightarrow> bool" where
  "i64 i \<longleftrightarrow> - (2 ^ 63) \<le> i \<and> i < 2 ^ 63"

text \<open>\<open>None\<close> is the error for a slice of another length.\<close>

definition i64_from_bytes :: "string \<Rightarrow> int option" where
  "i64_from_bytes bytes = (if length bytes = 8 then Some (from_be_bytes bytes) else None)"

section \<open>Compressed events\<close>

type_synonym compressed_event = string
type_synonym compressed_state = "compressed_event set"

definition compressed_new :: "int \<Rightarrow> int \<Rightarrow> compressed_event" where
  "compressed_new field_id event_sn = to_be_bytes field_id @ to_be_bytes event_sn"

text \<open>\<open>None\<close> is a panic.\<close>

definition compressed_field_id :: "compressed_event \<Rightarrow> int option" where
  "compressed_field_id e = i64_from_bytes (take 8 e)"

definition compressed_event_sn :: "compressed_event \<Rightarrow> int option" where
  "compressed_event_sn e = i64_from_bytes (drop 8 e)"

definition compress_event :: "string \<Rightarrow> int \<Rightarrow> int \<Rightarrow> 'e + compressed_event" where
  "compress_event room_id field_id event_sn = Inr (compressed_new field_id event_sn)"

definition compress_events :: "string \<Rightarrow> (int \<times> int) list \<Rightarrow> 'e + compressed_state" where
  "compress_events room_id events =
     fold_result (\<lambda>compressed (field_id, event_sn).
       map_ok (\<lambda>e. insert e compressed) (compress_event room_id field_id event_sn)) {} events"

section \<open>Differences\<close>

record state_diff =
  sd_parent_id :: "int option"
  sd_appended :: compressed_state
  sd_disposed :: compressed_state

record delta_info =
  di_frame_id :: int
  di_appended :: compressed_state
  di_disposed :: compressed_state

record frame_info =
  fi_frame_id :: int
  fi_full_state :: compressed_state
  fi_appended :: compressed_state
  fi_disposed :: compressed_state

record db_room_state_delta =
  row_frame_id :: int
  row_room_id :: string
  row_parent_id :: "int option"
  row_appended :: string
  row_disposed :: string

function chunks_exact :: "nat \<Rightarrow> 'a list \<Rightarrow> 'a list list" where
  "chunks_exact n xs = (if n = 0 \<or> length xs < n then [] else take n xs # chunks_exact n (drop n xs))"
  by pat_completeness auto
termination
  by (relation "measure (\<lambda>(n, xs). length xs)") auto

declare chunks_exact.simps [simp del]

text \<open>The two loops that combine a difference with the one of the parent layer.\<close>

definition merge_delta ::
  "frame_info \<Rightarrow> compressed_state \<Rightarrow> compressed_state \<Rightarrow> compressed_state \<times> compressed_state" where
  "merge_delta parent appended disposed =
     fold (\<lambda>item (parent_appended, parent_disposed).
         if item \<in> parent_disposed then (parent_appended, parent_disposed - {item})
         else (insert item parent_appended, parent_disposed))
       (sorted_list_of_set appended)
       (fold (\<lambda>item (parent_appended, parent_disposed).
           if item \<in> parent_appended then (parent_appended - {item}, parent_disposed)
           else (parent_appended, insert item parent_disposed))
         (sorted_list_of_set disposed) (fi_appended parent, fi_disposed parent))"

section \<open>Lemmas on bytes\<close>

lemma length_be_bytes [simp]: "length (be_bytes n i) = n"
  by (induction n arbitrary: i) simp_all

lemma length_to_be_bytes [simp]: "length (to_be_bytes i) = 8"
  by (simp add: to_be_bytes_def)

lemma from_be_snoc [simp]: "from_be (bs @ [c]) = from_be bs * 256 + int (of_char c)"
  by (simp add: from_be_def)

lemma from_be_bytes_mod: "from_be (be_bytes n i) = i mod 256 ^ n"
proof (induction n arbitrary: i)
  case 0
  show ?case by (simp add: from_be_def)
next
  case (Suc n)
  have "i mod (256 * 256 ^ n) = 256 * (i div 256 mod 256 ^ n) + i mod 256" by (rule zmod_zmult2_eq) simp
  moreover have "int (of_char (char_of (nat (i mod 256)) :: char)) = i mod 256" by (simp add: zmod_int)
  ultimately show ?case using Suc by simp
qed

lemma from_to_be_bytes [simp]:
  assumes "i64 i"
  shows "from_be_bytes (to_be_bytes i) = i"
proof -
  have u: "from_be (to_be_bytes i) = i mod 2 ^ 64" by (simp add: to_be_bytes_def from_be_bytes_mod)
  have "i mod 2 ^ 64 = (if 0 \<le> i then i else i + 2 ^ 64)"
  proof (cases "0 \<le> i")
    case True
    with assms show ?thesis by (simp add: i64_def)
  next
    case False
    have "i mod 2 ^ 64 = (i + 2 ^ 64) mod 2 ^ 64" by simp
    also have "\<dots> = i + 2 ^ 64" using False assms by (intro mod_pos_pos_trivial) (simp_all add: i64_def)
    finally show ?thesis using False by simp
  qed
  with assms show ?thesis by (simp add: from_be_bytes_def u Let_def i64_def)
qed

definition compressed_ok :: "compressed_state \<Rightarrow> bool" where
  "compressed_ok S \<longleftrightarrow> finite S \<and> (\<forall>e\<in>S. length e = 16)"

lemma compressed_okI [intro]: "compressed_ok S \<Longrightarrow> T \<subseteq> S \<Longrightarrow> compressed_ok T"
  by (auto simp: compressed_ok_def finite_subset)

lemma compressed_ok_simps [simp]:
  "compressed_ok {}" "compressed_ok (insert e S) \<longleftrightarrow> length e = 16 \<and> compressed_ok S"
  "compressed_ok (S \<union> T) \<longleftrightarrow> compressed_ok S \<and> compressed_ok T"
  "compressed_ok S \<Longrightarrow> compressed_ok (S - T)"
  by (auto simp: compressed_ok_def)

lemma chunks_concat:
  assumes "0 < n" "\<forall>x\<in>set xs. length x = n"
  shows "chunks_exact n (concat xs) = xs"
  using assms(2)
proof (induction xs)
  case Nil
  show ?case using assms(1) by (subst chunks_exact.simps) simp
next
  case (Cons x xs)
  then show ?case using assms(1) by (subst chunks_exact.simps) simp
qed

lemma chunks_state: "compressed_ok S \<Longrightarrow> set (chunks_exact 16 (concat (sorted_list_of_set S))) = S"
  by (simp add: compressed_ok_def chunks_concat)

text \<open>Different states have different byte sequences.\<close>

lemma concat_state_inj:
  assumes "compressed_ok S" "compressed_ok T" "concat (sorted_list_of_set S) = concat (sorted_list_of_set T)"
  shows "S = T"
  using chunks_state[OF assms(1)] chunks_state[OF assms(2)] unfolding assms(3) by (rule trans[OF sym])

section \<open>Lemmas on differences\<close>

lemma dispose_items:
  "fold (\<lambda>item (A, D). if item \<in> A then (A - {item}, D) else (A, insert item D)) xs (A, D)
   = (A - set xs, D \<union> (set xs - A))"
  if "distinct xs" for A D :: "'a set"
  using that by (induction xs arbitrary: A D) auto

lemma append_items:
  "fold (\<lambda>item (A, D). if item \<in> D then (A, D - {item}) else (insert item A, D)) xs (A, D)
   = (A \<union> (set xs - D), D - set xs)"
  if "distinct xs" for A D :: "'a set"
  using that by (induction xs arbitrary: A D) auto

lemma merge_delta_sets:
  assumes "finite appended" "finite disposed"
  shows "merge_delta parent appended disposed =
    (let D = fi_disposed parent \<union> (disposed - fi_appended parent)
     in (fi_appended parent - disposed \<union> (appended - D), D - appended))"
  using assms by (simp add: merge_delta_def dispose_items append_items Let_def)

text \<open>A difference fits a base when it only adds what is missing and only removes what is present.\<close>

definition diff_ok :: "compressed_state \<Rightarrow> compressed_state \<Rightarrow> compressed_state \<Rightarrow> bool" where
  "diff_ok base appended disposed \<longleftrightarrow> compressed_ok base \<and> compressed_ok appended
     \<and> appended \<inter> base = {} \<and> disposed \<subseteq> base"

definition apply_diff :: "compressed_state \<Rightarrow> compressed_state \<Rightarrow> compressed_state \<Rightarrow> compressed_state" where
  "apply_diff base appended disposed = base \<union> appended - disposed"

lemma diff_ok_difference:
  assumes "compressed_ok S" "compressed_ok T"
  shows "diff_ok S (T - S) (S - T)" "apply_diff S (T - S) (S - T) = T"
  using assms by (auto simp: diff_ok_def apply_diff_def)

text \<open>Merging keeps the fit and composes the differences.\<close>

lemma merge_delta_correct:
  assumes p: "diff_ok base (fi_appended parent) (fi_disposed parent)"
    and full: "fi_full_state parent = apply_diff base (fi_appended parent) (fi_disposed parent)"
    and d: "diff_ok (fi_full_state parent) appended disposed"
    and m: "merge_delta parent appended disposed = (appended', disposed')"
  shows "diff_ok base appended' disposed'
    \<and> apply_diff base appended' disposed' = apply_diff (fi_full_state parent) appended disposed"
proof -
  have f: "finite appended" "finite disposed"
    using d by (auto simp: diff_ok_def compressed_ok_def finite_subset)
  have e: "appended' = fi_appended parent - disposed \<union> (appended - (fi_disposed parent \<union> (disposed - fi_appended parent)))"
    "disposed' = fi_disposed parent \<union> (disposed - fi_appended parent) - appended"
    using m by (auto simp: merge_delta_sets[OF f] Let_def)
  have c: "compressed_ok appended'" unfolding e using p d by (auto simp: diff_ok_def)
  have "appended' \<inter> base = {}" "disposed' \<subseteq> base"
    unfolding e using p d full by (auto simp: diff_ok_def apply_diff_def)
  moreover have "base \<union> appended' - disposed' = fi_full_state parent \<union> appended - disposed"
    unfolding e full apply_diff_def using p d[unfolded full] by (auto simp: diff_ok_def apply_diff_def)
  ultimately show ?thesis using c p by (simp add: diff_ok_def apply_diff_def)
qed

text \<open>The two parts of a compressed event are read back as they were written, for all 64-bit field and event
  numbers, and a set of compressed events is read back from the bytes of its elements.\<close>

theorem compressed_round_trip:
  assumes "i64 field_id" "i64 event_sn" "compressed_ok S"
  shows "compressed_field_id (compressed_new field_id event_sn) = Some field_id
    \<and> compressed_event_sn (compressed_new field_id event_sn) = Some event_sn
    \<and> length (compressed_new field_id event_sn) = 16
    \<and> set (chunks_exact 16 (concat (sorted_list_of_set S))) = S"
  using assms
  by (simp add: compressed_field_id_def compressed_event_sn_def compressed_new_def i64_from_bytes_def chunks_state)

end
