(* ===== verification/State_Store.thy ===== *)
theory State_Store
  imports App_Monad Compressed_State Events "HOL-Library.AList"
begin

text \<open>
  Storing and loading room states (\<open>server/src/room/state.rs\<close>, \<open>state/frame.rs\<close>,
  \<open>state/diff.rs\<close>).  A state has a frame in the database, whose row holds the difference to the frame
  of a parent; the frames on the way to the bottom are its layers.  Loaded layers are kept in an LRU
  cache.  The statements that the crate \<open>data\<close> sends to the database and the crate
  \<open>lru_cache\<close> are parameters, the records \<open>state_db\<close> and \<open>lru_ops\<close>; the locales
  \<open>state_tables\<close> and \<open>lru\<close> state what their documentation promises.
\<close>

section \<open>The database and the cache\<close>

record 'db state_db =
  q_room_frame :: "string \<Rightarrow> int option \<Rightarrow> 'db \<Rightarrow> data_error + int option"
  q_pdu_frame :: "string \<Rightarrow> 'db \<Rightarrow> data_error + int option"
  q_pdu_before_frame :: "string \<Rightarrow> 'db \<Rightarrow> data_error + int option"
  q_frame_id :: "string \<Rightarrow> string \<Rightarrow> 'db \<Rightarrow> data_error + int"
  q_ensure_frame :: "string \<Rightarrow> string \<Rightarrow> 'db \<Rightarrow> (data_error + int) \<times> 'db"
  q_delta :: "int \<Rightarrow> 'db \<Rightarrow> data_error + db_room_state_delta"
  q_save_delta :: "db_room_state_delta \<Rightarrow> 'db \<Rightarrow> (data_error + unit) \<times> 'db"
  q_update_frame :: "string \<Rightarrow> int \<Rightarrow> 'db \<Rightarrow> (data_error + unit) \<times> 'db"
  q_update_before_frame :: "string \<Rightarrow> int \<Rightarrow> 'db \<Rightarrow> (data_error + unit) \<times> 'db"
  q_update_frame_by_sn :: "int \<Rightarrow> int \<Rightarrow> 'db \<Rightarrow> (data_error + unit) \<times> 'db"
  q_set_room_frame :: "string \<Rightarrow> int \<Rightarrow> 'db \<Rightarrow> (data_error + unit) \<times> 'db"
  q_field_id :: "string \<Rightarrow> string \<Rightarrow> 'db \<Rightarrow> data_error + int"
  q_ensure_field :: "string \<Rightarrow> string \<Rightarrow> 'db \<Rightarrow> (data_error + int) \<times> 'db"
  q_event_id_by_sn :: "int \<Rightarrow> 'db \<Rightarrow> data_error + string"

record 'c lru_ops =
  lru_get_mut :: "int \<Rightarrow> 'c \<Rightarrow> frame_info list option \<times> 'c"
  lru_insert :: "int \<Rightarrow> frame_info list \<Rightarrow> 'c \<Rightarrow> 'c"

record ('db, 'c) store =
  st_db :: 'db
  st_cache :: 'c

type_synonym ('db, 'c, 'a) store_app = "(('db, 'c) store, 'a) app"

definition db_read :: "('db \<Rightarrow> data_error + 'a) \<Rightarrow> ('db, 'c, 'a) store_app" where
  "db_read q st = Some (map_err AppData (q (st_db st)), st)"

definition db_write :: "('db \<Rightarrow> (data_error + 'a) \<times> 'db) \<Rightarrow> ('db, 'c, 'a) store_app" where
  "db_write q st = (let (r, db) = q (st_db st) in Some (map_err AppData r, st\<lparr>st_db := db\<rparr>))"

section \<open>Frames\<close>

definition get_room_frame_id :: "'db state_db \<Rightarrow> string \<Rightarrow> int option \<Rightarrow> ('db, 'c, int) store_app" where
  "get_room_frame_id D room_id until_sn =
     app_bind (db_read (q_room_frame D room_id until_sn)) (\<lambda>f. app_lift (ok_or MatrixNotFound f))"

definition get_pdu_frame_id :: "'db state_db \<Rightarrow> string \<Rightarrow> ('db, 'c, int) store_app" where
  "get_pdu_frame_id D event_id =
     app_bind (db_read (q_pdu_frame D event_id)) (\<lambda>f. app_lift (ok_or MatrixNotFound f))"

definition get_pdu_before_frame_id :: "'db state_db \<Rightarrow> string \<Rightarrow> ('db, 'c, int) store_app" where
  "get_pdu_before_frame_id D event_id =
     app_bind (db_read (q_pdu_before_frame D event_id)) (\<lambda>f. app_lift (ok_or MatrixNotFound f))"

definition ensure_frame :: "'db state_db \<Rightarrow> string \<Rightarrow> string \<Rightarrow> ('db, 'c, int) store_app" where
  "ensure_frame D room_id hash_data = db_write (q_ensure_frame D room_id hash_data)"

definition get_frame_id :: "'db state_db \<Rightarrow> string \<Rightarrow> string \<Rightarrow> ('db, 'c, int) store_app" where
  "get_frame_id D room_id hash_data = db_read (q_frame_id D room_id hash_data)"

definition get_field_id :: "'db state_db \<Rightarrow> string \<Rightarrow> string \<Rightarrow> ('db, 'c, int) store_app" where
  "get_field_id D event_ty state_key = db_read (q_field_id D event_ty state_key)"

definition ensure_field :: "'db state_db \<Rightarrow> string \<Rightarrow> string \<Rightarrow> ('db, 'c, int) store_app" where
  "ensure_field D event_ty state_key = db_write (q_ensure_field D event_ty state_key)"

definition update_frame_id :: "'db state_db \<Rightarrow> string \<Rightarrow> int \<Rightarrow> ('db, 'c, unit) store_app" where
  "update_frame_id D event_id frame_id = db_write (q_update_frame D event_id frame_id)"

definition update_before_frame_id :: "'db state_db \<Rightarrow> string \<Rightarrow> int \<Rightarrow> ('db, 'c, unit) store_app" where
  "update_before_frame_id D event_id frame_id = db_write (q_update_before_frame D event_id frame_id)"

definition update_frame_id_by_sn :: "'db state_db \<Rightarrow> int \<Rightarrow> int \<Rightarrow> ('db, 'c, unit) store_app" where
  "update_frame_id_by_sn D event_sn frame_id = db_write (q_update_frame_by_sn D event_sn frame_id)"

definition set_room_state :: "'db state_db \<Rightarrow> string \<Rightarrow> int \<Rightarrow> ('db, 'c, unit) store_app" where
  "set_room_state D room_id frame_id = db_write (q_set_room_frame D room_id frame_id)"

section \<open>Saving and loading differences\<close>

definition read_delta :: "db_room_state_delta \<Rightarrow> state_diff" where
  "read_delta row =
     \<lparr>sd_parent_id = row_parent_id row, sd_appended = set (chunks_exact 16 (row_appended row)),
      sd_disposed = set (chunks_exact 16 (row_disposed row))\<rparr>"

definition load_state_diff :: "'db state_db \<Rightarrow> int \<Rightarrow> ('db, 'c, state_diff) store_app" where
  "load_state_diff D frame_id = app_bind (db_read (q_delta D frame_id)) (\<lambda>row. app_return (read_delta row))"

definition delta_row :: "string \<Rightarrow> int \<Rightarrow> state_diff \<Rightarrow> db_room_state_delta" where
  "delta_row room_id frame_id diff =
     \<lparr>row_frame_id = frame_id, row_room_id = room_id, row_parent_id = sd_parent_id diff,
      row_appended = concat (sorted_list_of_set (sd_appended diff)),
      row_disposed = concat (sorted_list_of_set (sd_disposed diff))\<rparr>"

definition save_state_delta :: "'db state_db \<Rightarrow> string \<Rightarrow> int \<Rightarrow> state_diff \<Rightarrow> ('db, 'c, unit) store_app" where
  "save_state_delta D room_id frame_id diff = db_write (q_save_delta D (delta_row room_id frame_id diff))"

text \<open>The last element of \<open>parent_states\<close> is the top of the stack.\<close>

function calc_and_save_state_delta ::
  "'db state_db \<Rightarrow> string \<Rightarrow> int \<Rightarrow> compressed_state \<Rightarrow> compressed_state \<Rightarrow> int \<Rightarrow> frame_info list
     \<Rightarrow> ('db, 'c, unit) store_app" where
  "calc_and_save_state_delta D room_id frame_id appended disposed diff_to_sibling parent_states =
     (let diff_sum = int (card appended) + int (card disposed) in
      if 3 < length parent_states then
        (let (parent_appended, parent_disposed) = merge_delta (last parent_states) appended disposed
         in calc_and_save_state_delta D room_id frame_id parent_appended parent_disposed diff_sum (butlast parent_states))
      else if parent_states = [] then
        save_state_delta D room_id frame_id \<lparr>sd_parent_id = None, sd_appended = appended, sd_disposed = disposed\<rparr>
      else
        (let parent = last parent_states; parent_diff = int (card (fi_appended parent)) + int (card (fi_disposed parent)) in
         if 2 * diff_to_sibling * parent_diff \<le> diff_sum * diff_sum then
           (let (parent_appended, parent_disposed) = merge_delta parent appended disposed
            in calc_and_save_state_delta D room_id frame_id parent_appended parent_disposed diff_sum (butlast parent_states))
         else
           save_state_delta D room_id frame_id
             \<lparr>sd_parent_id = Some (fi_frame_id parent), sd_appended = appended, sd_disposed = disposed\<rparr>))"
  by pat_completeness auto
termination
  by (relation "measure (\<lambda>(D, r, f, a, d, s, ps). length ps)") auto

declare calc_and_save_state_delta.simps [simp del]

definition top_layer :: "int \<Rightarrow> frame_info list \<Rightarrow> state_diff \<Rightarrow> frame_info" where
  "top_layer frame_id info diff =
     \<lparr>fi_frame_id = frame_id,
      fi_full_state = fi_full_state (last info) \<union> sd_appended diff - sd_disposed diff,
      fi_appended = sd_appended diff, fi_disposed = sd_disposed diff\<rparr>"

definition bottom_layer :: "int \<Rightarrow> state_diff \<Rightarrow> frame_info" where
  "bottom_layer frame_id diff =
     \<lparr>fi_frame_id = frame_id, fi_full_state = sd_appended diff,
      fi_appended = sd_appended diff, fi_disposed = sd_disposed diff\<rparr>"

partial_function (option) load_frame_info ::
  "'db state_db \<Rightarrow> 'c lru_ops \<Rightarrow> int \<Rightarrow> ('db, 'c) store \<Rightarrow> ((app_error + frame_info list) \<times> ('db, 'c) store) option" where
  [code]: "load_frame_info D L frame_id st =
     (let (cached, c) = lru_get_mut L frame_id (st_cache st); st = st\<lparr>st_cache := c\<rparr> in
      case cached of
        Some r \<Rightarrow> Some (Inr r, st)
      | None \<Rightarrow>
          Option.bind (load_state_diff D frame_id st) (\<lambda>(res, st).
          case res of
            Inl e \<Rightarrow> Some (Inl e, st)
          | Inr diff \<Rightarrow>
              (case sd_parent_id diff of
                 Some parent_id \<Rightarrow>
                   Option.bind (load_frame_info D L parent_id st) (\<lambda>(res, st).
                   case res of
                     Inl e \<Rightarrow> Some (Inl e, st)
                   | Inr info \<Rightarrow>
                       if info = [] then Some (Inl AppPanic, st)
                       else let info = info @ [top_layer frame_id info diff]
                         in Some (Inr info, st\<lparr>st_cache := lru_insert L frame_id info (st_cache st)\<rparr>))
               | None \<Rightarrow>
                   let info = [bottom_layer frame_id diff]
                   in Some (Inr info, st\<lparr>st_cache := lru_insert L frame_id info (st_cache st)\<rparr>))))"

section \<open>States of events and rooms\<close>

text \<open>\<open>H\<close> is SHA-256.\<close>

definition hash_keys :: "(string \<Rightarrow> string) \<Rightarrow> string list \<Rightarrow> string" where
  "hash_keys H keys = H (concat keys)"

definition parent_layers ::
  "'db state_db \<Rightarrow> 'c lru_ops \<Rightarrow> int option \<Rightarrow> ('db, 'c, frame_info list) store_app" where
  "parent_layers D L prev_frame_id =
     (case prev_frame_id of None \<Rightarrow> app_return [] | Some prev_frame_id \<Rightarrow> load_frame_info D L prev_frame_id)"

definition delta_to_parent :: "frame_info list \<Rightarrow> compressed_state \<Rightarrow> compressed_state \<times> compressed_state" where
  "delta_to_parent states_parents new =
     (if states_parents = [] then (new, {})
      else (new - fi_full_state (last states_parents), fi_full_state (last states_parents) - new))"

definition set_event_state_before ::
  "(string \<Rightarrow> string) \<Rightarrow> 'db state_db \<Rightarrow> 'c lru_ops \<Rightarrow> string \<Rightarrow> string \<Rightarrow> compressed_state
     \<Rightarrow> ('db, 'c, int) store_app" where
  "set_event_state_before H D L event_id room_id state_ids_compressed =
     app_bind (app_result (get_room_frame_id D room_id None)) (\<lambda>prev_frame_id.
     let hash_data = hash_keys H (sorted_list_of_set state_ids_compressed) in
     app_bind (app_result (get_frame_id D room_id hash_data)) (\<lambda>found.
     case found of
       Inr frame_id \<Rightarrow> app_bind (update_before_frame_id D event_id frame_id) (\<lambda>_. app_return frame_id)
     | Inl _ \<Rightarrow>
         app_bind (ensure_frame D room_id hash_data) (\<lambda>frame_id.
         app_bind (parent_layers D L (ok_opt prev_frame_id)) (\<lambda>states_parents.
         let (appended, disposed) = delta_to_parent states_parents state_ids_compressed in
         app_bind (update_before_frame_id D event_id frame_id) (\<lambda>_.
         app_bind (calc_and_save_state_delta D room_id frame_id appended disposed 1000000 states_parents) (\<lambda>_.
         app_return frame_id))))))"

definition save_state ::
  "(string \<Rightarrow> string) \<Rightarrow> 'db state_db \<Rightarrow> 'c lru_ops \<Rightarrow> string \<Rightarrow> compressed_state
     \<Rightarrow> ('db, 'c, delta_info) store_app" where
  "save_state H D L room_id new_compressed_events =
     app_bind (app_result (get_room_frame_id D room_id None)) (\<lambda>prev.
     let prev_frame_id = ok_opt prev; hash_data = hash_keys H (sorted_list_of_set new_compressed_events) in
     app_bind (app_result (get_frame_id D room_id hash_data)) (\<lambda>found.
     app_bind
       (case found of
          Inr frame_id \<Rightarrow> app_return (frame_id, True)
        | Inl _ \<Rightarrow> app_bind (ensure_frame D room_id hash_data) (\<lambda>frame_id. app_return (frame_id, False)))
       (\<lambda>(new_frame_id, frame_existed).
     if Some new_frame_id = prev_frame_id then
       app_return \<lparr>di_frame_id = new_frame_id, di_appended = {}, di_disposed = {}\<rparr>
     else
       app_bind (app_each (\<lambda>e. case compressed_event_sn e of
           None \<Rightarrow> app_fail AppPanic
         | Some event_sn \<Rightarrow> update_frame_id_by_sn D event_sn new_frame_id) (sorted_list_of_set new_compressed_events)) (\<lambda>_.
       app_bind (parent_layers D L prev_frame_id) (\<lambda>states_parents.
       let (appended, disposed) = delta_to_parent states_parents new_compressed_events in
       app_bind
         (if frame_existed then app_return ()
          else calc_and_save_state_delta D room_id new_frame_id appended disposed 2 states_parents) (\<lambda>_.
       app_return \<lparr>di_frame_id = new_frame_id, di_appended = appended, di_disposed = disposed\<rparr>))))))"

record sn_pdu = pdu +
  sn_event_sn :: int

definition append_after ::
  "(string \<Rightarrow> string) \<Rightarrow> 'db state_db \<Rightarrow> 'c lru_ops \<Rightarrow> sn_pdu \<Rightarrow> int option \<Rightarrow> ('db, 'c, int) store_app" where
  "append_after H D L new_pdu prev_frame_id =
     app_bind (parent_layers D L prev_frame_id) (\<lambda>states_parents.
     let state_before = (if states_parents = [] then {} else fi_full_state (last states_parents)) in
     app_bind (app_result (get_pdu_before_frame_id D (ev_id new_pdu))) (\<lambda>before.
     app_bind
       (case before of
          Inr _ \<Rightarrow> app_return ()
        | Inl e \<Rightarrow>
            if is_not_found e
            then app_bind (set_event_state_before H D L (ev_id new_pdu) (ev_room_id new_pdu) state_before) (\<lambda>_. app_return ())
            else app_fail e) (\<lambda>_.
     case ev_state_key new_pdu of
       Some state_key \<Rightarrow>
         app_bind (ensure_field D (ev_type new_pdu) state_key) (\<lambda>field_id.
         let new_compressed_event = compressed_new field_id (sn_event_sn new_pdu);
             replaces = find (\<lambda>e. take 8 e = to_be_bytes field_id) (sorted_list_of_set state_before) in
         if replaces = Some new_compressed_event then app_lift (ok_or MatrixInvalidParam prev_frame_id)
         else
           app_bind (ensure_frame D (ev_room_id new_pdu) (hash_keys H [new_compressed_event])) (\<lambda>frame_id.
           app_bind (update_frame_id D (ev_id new_pdu) frame_id) (\<lambda>_.
           app_bind (calc_and_save_state_delta D (ev_room_id new_pdu) frame_id {new_compressed_event}
               (set_option replaces) 2 states_parents) (\<lambda>_.
           app_return frame_id))))
     | None \<Rightarrow>
         app_bind (app_lift (ok_or MatrixInvalidParam prev_frame_id)) (\<lambda>frame_id.
         app_bind (update_frame_id D (ev_id new_pdu) frame_id) (\<lambda>_.
         app_return frame_id)))))"

definition append_to_state ::
  "(string \<Rightarrow> string) \<Rightarrow> 'db state_db \<Rightarrow> 'c lru_ops \<Rightarrow> sn_pdu \<Rightarrow> ('db, 'c, int) store_app" where
  "append_to_state H D L new_pdu =
     app_bind (app_result (get_room_frame_id D (ev_room_id new_pdu) None)) (\<lambda>prev_frame_id.
     append_after H D L new_pdu (ok_opt prev_frame_id))"

section \<open>Reading states\<close>

definition split_compressed :: "'db state_db \<Rightarrow> compressed_event \<Rightarrow> ('db, 'c, int \<times> string) store_app" where
  "split_compressed D e =
     (case (compressed_field_id e, compressed_event_sn e) of
        (Some field_id, Some event_sn) \<Rightarrow>
          app_bind (db_read (q_event_id_by_sn D event_sn)) (\<lambda>event_id. app_return (field_id, event_id))
      | _ \<Rightarrow> app_fail AppPanic)"

definition load_full_state :: "'db state_db \<Rightarrow> 'c lru_ops \<Rightarrow> int \<Rightarrow> ('db, 'c, compressed_state) store_app" where
  "load_full_state D L frame_id =
     app_bind (load_frame_info D L frame_id) (\<lambda>info.
     if info = [] then app_fail AppPanic else app_return (fi_full_state (last info)))"

fun collect_state_ids ::
  "'db state_db \<Rightarrow> compressed_event list \<Rightarrow> (int \<times> string) list \<Rightarrow> ('db, 'c, (int \<times> string) list) store_app" where
  "collect_state_ids D [] m = app_return m"
| "collect_state_ids D (e # es) m =
     app_bind (split_compressed D e) (\<lambda>(field_id, event_id). collect_state_ids D es (AList.update field_id event_id m))"

definition get_full_state_ids :: "'db state_db \<Rightarrow> 'c lru_ops \<Rightarrow> int \<Rightarrow> ('db, 'c, (int \<times> string) list) store_app" where
  "get_full_state_ids D L frame_id =
     app_bind (load_full_state D L frame_id) (\<lambda>full_state. collect_state_ids D (sorted_list_of_set full_state) [])"

definition get_state_event_id ::
  "'db state_db \<Rightarrow> 'c lru_ops \<Rightarrow> int \<Rightarrow> string \<Rightarrow> string \<Rightarrow> ('db, 'c, string) store_app" where
  "get_state_event_id D L frame_id event_type state_key =
     app_bind (get_field_id D event_type state_key) (\<lambda>state_key_id.
     app_bind (load_full_state D L frame_id) (\<lambda>full_state.
     case find (\<lambda>e. take 8 e = to_be_bytes state_key_id) (sorted_list_of_set full_state) of
       None \<Rightarrow> app_fail MatrixNotFound
     | Some compressed \<Rightarrow>
         app_bind (app_result (split_compressed D compressed)) (\<lambda>r.
         app_lift (ok_or MatrixNotFound (map_option snd (ok_opt r))))))"

section \<open>What the database and the cache promise\<close>

text \<open>The rows that matter: the current frame of a room, the frames by room and hash, the differences, the state
  fields and the events by number.\<close>

record tables =
  t_rooms :: "string \<Rightarrow> int option"
  t_frames :: "string \<times> string \<Rightarrow> int option"
  t_deltas :: "int \<Rightarrow> db_room_state_delta option"
  t_fields :: "string \<times> string \<Rightarrow> int option"
  t_events :: "int \<Rightarrow> string option"

text \<open>A statement may fail for reasons of its own; then it has changed none of these rows.  Inserting a frame gives a
  new number when the pair of room and hash is new and fails otherwise, inserting a difference leaves an existing one
  alone, and a field is inserted unless it is there.\<close>

locale state_tables =
  fixes D :: "'db state_db" and view :: "'db \<Rightarrow> tables"
  assumes room_frame: "q_room_frame D r None db = Inr f \<Longrightarrow> f = t_rooms (view db) r"
    and frame_id: "q_frame_id D r h db = Inr i \<Longrightarrow> t_frames (view db) (r, h) = Some i"
    and ensure_frame: "q_ensure_frame D r h db = (res, db') \<Longrightarrow>
      (case res of
         Inl e \<Rightarrow> view db' = view db
       | Inr i \<Rightarrow> t_frames (view db) (r, h) = None \<and> i \<notin> ran (t_frames (view db))
           \<and> view db' = (view db)\<lparr>t_frames := (t_frames (view db))((r, h) \<mapsto> i)\<rparr>)"
    and delta: "q_delta D i db = Inr row \<Longrightarrow> t_deltas (view db) i = Some row"
    and save_delta: "q_save_delta D row db = (u, db') \<Longrightarrow>
      view db' = (if is_ok u \<and> t_deltas (view db) (row_frame_id row) = None
        then (view db)\<lparr>t_deltas := (t_deltas (view db))(row_frame_id row \<mapsto> row)\<rparr> else view db)"
    and update_frame: "q_update_frame D e i db = (u, db') \<Longrightarrow> view db' = view db"
    and update_before_frame: "q_update_before_frame D e i db = (u, db') \<Longrightarrow> view db' = view db"
    and update_frame_by_sn: "q_update_frame_by_sn D sn i db = (u, db') \<Longrightarrow> view db' = view db"
    and set_room_frame: "q_set_room_frame D r i db = (u, db') \<Longrightarrow>
      view db' = view db \<or> is_ok u \<and> view db' = (view db)\<lparr>t_rooms := (t_rooms (view db))(r \<mapsto> i)\<rparr>"
    and field_id: "q_field_id D ty k db = Inr i \<Longrightarrow> t_fields (view db) (ty, k) = Some i"
    and ensure_field: "q_ensure_field D ty k db = (res, db') \<Longrightarrow>
      view db' = view db \<and> (\<forall>i. res = Inr i \<longrightarrow> t_fields (view db) (ty, k) = Some i)
      \<or> (\<exists>i. t_fields (view db) (ty, k) = None \<and> i \<notin> ran (t_fields (view db)) \<and> (is_ok res \<longrightarrow> res = Inr i)
           \<and> view db' = (view db)\<lparr>t_fields := (t_fields (view db))((ty, k) \<mapsto> i)\<rparr>)"
    and event_by_sn: "q_event_id_by_sn D sn db = Inr e \<Longrightarrow> t_events (view db) sn = Some e"

text \<open>A lookup returns the value that was last inserted for the key, unless it has been evicted.\<close>

locale lru =
  fixes L :: "'c lru_ops" and entries :: "'c \<Rightarrow> int \<Rightarrow> frame_info list option"
  assumes get_mut: "lru_get_mut L k c = (found, c') \<Longrightarrow> found = entries c k \<and> entries c' = entries c"
    and insert_entry: "entries (lru_insert L k v c) \<subseteq>\<^sub>m (entries c)(k \<mapsto> v)"

locale state_store = state_tables D view + lru L entries
  for D :: "'db state_db" and view :: "'db \<Rightarrow> tables" and L :: "'c lru_ops" and entries :: "'c \<Rightarrow> int \<Rightarrow> frame_info list option"

section \<open>The layers of a frame\<close>

inductive frame_chain :: "(int \<Rightarrow> db_room_state_delta option) \<Rightarrow> int \<Rightarrow> frame_info list \<Rightarrow> bool" for deltas where
  bottom: "deltas k = Some row \<Longrightarrow> row_parent_id row = None \<Longrightarrow> frame_chain deltas k [bottom_layer k (read_delta row)]"
| layer: "deltas k = Some row \<Longrightarrow> row_parent_id row = Some p \<Longrightarrow> frame_chain deltas p info
     \<Longrightarrow> frame_chain deltas k (info @ [top_layer k info (read_delta row)])"

inductive_cases frame_chainE: "frame_chain deltas k info"

lemma frame_chain_last: "frame_chain deltas k info \<Longrightarrow> info \<noteq> [] \<and> fi_frame_id (last info) = k"
  by (induction rule: frame_chain.induct) (simp_all add: bottom_layer_def top_layer_def)

lemma frame_chain_mono: "frame_chain deltas k info \<Longrightarrow> deltas \<subseteq>\<^sub>m deltas' \<Longrightarrow> frame_chain deltas' k info"
proof (induction rule: frame_chain.induct)
  case (bottom k row)
  then have "deltas' k = Some row" by (auto simp: map_le_def dom_def)
  with bottom show ?case by (auto intro: frame_chain.bottom)
next
  case (layer k row p info)
  then have "deltas' k = Some row" by (auto simp: map_le_def dom_def)
  with layer show ?case by (auto intro: frame_chain.layer)
qed

lemma frame_chain_unique: "frame_chain deltas k info \<Longrightarrow> frame_chain deltas k info' \<Longrightarrow> info = info'"
proof (induction arbitrary: info' rule: frame_chain.induct)
  case (bottom k row)
  from bottom(3) show ?case by (rule frame_chainE) (use bottom(1,2) in auto)
next
  case (layer k row p info)
  from layer(5) show ?case by (rule frame_chainE) (use layer(1,2,4) in auto)
qed

lemma frame_chain_butlast:
  assumes "frame_chain deltas k info" "butlast info \<noteq> []"
  shows "frame_chain deltas (fi_frame_id (last (butlast info))) (butlast info)"
  using assms(1)
proof (cases rule: frame_chain.cases)
  case (layer row p info')
  then show ?thesis using frame_chain_last[of deltas p info'] by simp
qed (use assms(2) in simp)

definition layers_of ::
  "(int \<Rightarrow> db_room_state_delta option) \<Rightarrow> int option \<Rightarrow> frame_info list \<Rightarrow> bool" where
  "layers_of deltas p info = (case p of None \<Rightarrow> info = [] | Some k \<Rightarrow> frame_chain deltas k info)"

definition base_of :: "frame_info list \<Rightarrow> compressed_state" where
  "base_of info = (if info = [] then {} else fi_full_state (last info))"

text \<open>Every layer fits the one below and has the state it describes.\<close>

definition layers_ok :: "frame_info list \<Rightarrow> bool" where
  "layers_ok info \<longleftrightarrow> (\<forall>us x vs. info = us @ x # vs \<longrightarrow>
     diff_ok (base_of us) (fi_appended x) (fi_disposed x)
     \<and> fi_full_state x = apply_diff (base_of us) (fi_appended x) (fi_disposed x))"

lemma layers_ok_Nil [simp]: "layers_ok []"
  by (simp add: layers_ok_def)

lemma layers_ok_snoc [simp]:
  "layers_ok (info @ [x]) \<longleftrightarrow> layers_ok info \<and> diff_ok (base_of info) (fi_appended x) (fi_disposed x)
     \<and> fi_full_state x = apply_diff (base_of info) (fi_appended x) (fi_disposed x)"
proof
  assume l: "layers_ok (info @ [x])"
  have "layers_ok info" unfolding layers_ok_def
  proof (intro allI impI)
    fix us y vs assume "info = us @ y # vs"
    then have "info @ [x] = us @ y # (vs @ [x])" by simp
    with l show "diff_ok (base_of us) (fi_appended y) (fi_disposed y)
        \<and> fi_full_state y = apply_diff (base_of us) (fi_appended y) (fi_disposed y)"
      unfolding layers_ok_def by blast
  qed
  with l show "layers_ok info \<and> diff_ok (base_of info) (fi_appended x) (fi_disposed x)
     \<and> fi_full_state x = apply_diff (base_of info) (fi_appended x) (fi_disposed x)"
    unfolding layers_ok_def by blast
next
  assume r: "layers_ok info \<and> diff_ok (base_of info) (fi_appended x) (fi_disposed x)
     \<and> fi_full_state x = apply_diff (base_of info) (fi_appended x) (fi_disposed x)"
  show "layers_ok (info @ [x])" unfolding layers_ok_def
  proof (intro allI impI)
    fix us y vs assume e: "info @ [x] = us @ y # vs"
    show "diff_ok (base_of us) (fi_appended y) (fi_disposed y)
        \<and> fi_full_state y = apply_diff (base_of us) (fi_appended y) (fi_disposed y)"
    proof (cases vs rule: rev_cases)
      case Nil
      with e r show ?thesis by simp
    next
      case (snoc ws z)
      with e have "info = us @ y # ws" by simp
      with r show ?thesis unfolding layers_ok_def by blast
    qed
  qed
qed

lemma base_of_Nil [simp]: "base_of [] = {}"
  by (simp add: base_of_def)

lemma base_of_snoc [simp]: "base_of (info @ [x]) = fi_full_state x"
  by (simp add: base_of_def)

lemma layers_ok_base: "layers_ok info \<Longrightarrow> compressed_ok (base_of info)"
proof (cases info rule: rev_cases)
  case (snoc us x)
  moreover assume "layers_ok info"
  ultimately show ?thesis by (simp add: diff_ok_def apply_diff_def)
qed (simp add: base_of_def)

section \<open>Well-formed tables\<close>

definition tables_ok :: "tables \<Rightarrow> bool" where
  "tables_ok t \<longleftrightarrow> (\<forall>k \<in> dom (t_deltas t). k \<in> ran (t_frames t)
     \<and> (\<exists>info. frame_chain (t_deltas t) k info \<and> layers_ok info \<and> length info \<le> 4))"

definition frame_state :: "tables \<Rightarrow> int \<Rightarrow> compressed_state \<Rightarrow> bool" where
  "frame_state t k S \<longleftrightarrow> (\<exists>info. frame_chain (t_deltas t) k info \<and> S = fi_full_state (last info))"

definition state_hash :: "(string \<Rightarrow> string) \<Rightarrow> compressed_state \<Rightarrow> string" where
  "state_hash H S = hash_keys H (sorted_list_of_set S)"

text \<open>A frame is found by the hash of its state or by that of one event of it, the one it was made for.\<close>

definition frames_hashed :: "(string \<Rightarrow> string) \<Rightarrow> tables \<Rightarrow> bool" where
  "frames_hashed H t \<longleftrightarrow> (\<forall>r h k S. t_frames t (r, h) = Some k \<and> frame_state t k S
     \<longrightarrow> h = state_hash H S \<or> (\<exists>e\<in>S. h = state_hash H {e}))"

text \<open>No frame lacks its difference.\<close>

definition frames_complete :: "tables \<Rightarrow> bool" where
  "frames_complete t \<longleftrightarrow> ran (t_frames t) \<subseteq> dom (t_deltas t)"

text \<open>Frames are never changed or removed.\<close>

definition extends :: "tables \<Rightarrow> tables \<Rightarrow> bool" where
  "extends t t' \<longleftrightarrow> t_frames t \<subseteq>\<^sub>m t_frames t' \<and> t_deltas t \<subseteq>\<^sub>m t_deltas t' \<and> t_rooms t' = t_rooms t
     \<and> t_events t' = t_events t \<and> t_fields t \<subseteq>\<^sub>m t_fields t'"

lemma extends_refl [simp]: "extends t t"
  by (simp add: extends_def)

lemma extends_trans: "extends t t' \<Longrightarrow> extends t' t'' \<Longrightarrow> extends t t''"
  by (auto simp: extends_def intro: map_le_trans)

lemma frame_state_unique: "frame_state t k S \<Longrightarrow> frame_state t k S' \<Longrightarrow> S = S'"
  unfolding frame_state_def by (metis frame_chain_unique)

lemma frame_state_extends: "frame_state t k S \<Longrightarrow> extends t t' \<Longrightarrow> frame_state t' k S"
  unfolding frame_state_def extends_def using frame_chain_mono by blast

lemma frame_state_dom: "frame_state t k S \<Longrightarrow> k \<in> dom (t_deltas t)"
  by (auto simp: frame_state_def elim: frame_chainE)

lemma tables_ok_chain:
  assumes "tables_ok t" "frame_chain (t_deltas t) k info"
  shows "layers_ok info" "length info \<le> 4" "info \<noteq> []"
proof -
  have "k \<in> dom (t_deltas t)" using assms(2) by (auto elim: frame_chainE)
  with assms(1) obtain info' where "frame_chain (t_deltas t) k info'" "layers_ok info'" "length info' \<le> 4"
    unfolding tables_ok_def by blast
  with frame_chain_unique[OF assms(2)] frame_chain_last[OF assms(2)] show "layers_ok info" "length info \<le> 4" "info \<noteq> []" by auto
qed

lemma frame_state_ok:
  assumes "tables_ok t" "frame_state t k S"
  shows "compressed_ok S"
proof -
  from assms(2) obtain info where i: "frame_chain (t_deltas t) k info" "S = fi_full_state (last info)"
    unfolding frame_state_def by blast
  with layers_ok_base[OF tables_ok_chain(1)[OF assms(1) i(1)]] tables_ok_chain(3)[OF assms(1) i(1)] show ?thesis
    by (simp add: base_of_def)
qed

lemma frame_state_exists: "tables_ok t \<Longrightarrow> k \<in> dom (t_deltas t) \<Longrightarrow> \<exists>S. frame_state t k S"
  unfolding tables_ok_def frame_state_def by blast

lemma state_hash_inj:
  assumes "inj H" "compressed_ok S" "compressed_ok T" "state_hash H S = state_hash H T"
  shows "S = T"
  using assms(4) concat_state_inj[OF assms(2,3)] injD[OF assms(1)] unfolding state_hash_def hash_keys_def by blast

text \<open>Which states are new.\<close>

definition new_states :: "tables \<Rightarrow> tables \<Rightarrow> compressed_state set \<Rightarrow> bool" where
  "new_states t t' X \<longleftrightarrow> (\<forall>k S. frame_state t' k S \<longrightarrow> frame_state t k S \<or> S \<in> X)"

lemma new_states_refl [simp]: "new_states t t X"
  by (simp add: new_states_def)

lemma new_states_trans: "new_states t t' X \<Longrightarrow> new_states t' t'' X \<Longrightarrow> new_states t t'' X"
  unfolding new_states_def by blast

lemma new_states_mono: "new_states t t' X \<Longrightarrow> X \<subseteq> Y \<Longrightarrow> new_states t t' Y"
  unfolding new_states_def by blast

text \<open>A new frame and its difference.\<close>

lemma new_frame:
  assumes "tables_ok t" "frames_hashed H t" "t_frames t (r, h) = None" "k \<notin> ran (t_frames t)"
  shows "tables_ok (t\<lparr>t_frames := (t_frames t)((r, h) \<mapsto> k)\<rparr>)" "frames_hashed H (t\<lparr>t_frames := (t_frames t)((r, h) \<mapsto> k)\<rparr>)"
    "extends t (t\<lparr>t_frames := (t_frames t)((r, h) \<mapsto> k)\<rparr>)" "t_deltas t k = None"
    "new_states t (t\<lparr>t_frames := (t_frames t)((r, h) \<mapsto> k)\<rparr>) X"
proof -
  let ?t = "t\<lparr>t_frames := (t_frames t)((r, h) \<mapsto> k)\<rparr>"
  have ran: "ran (t_frames ?t) = insert k (ran (t_frames t))" using assms(3) by simp
  show k: "t_deltas t k = None" using assms(1,4) by (auto simp: tables_ok_def)
  show "tables_ok ?t" using assms(1) unfolding tables_ok_def ran by auto
  show "extends t ?t" using assms(3) by (auto simp: extends_def map_le_def)
  have s: "frame_state ?t j S \<longleftrightarrow> frame_state t j S" for j S by (simp add: frame_state_def)
  then show "new_states t ?t X" by (simp add: new_states_def)
  have "\<not> frame_state t k S" for S using frame_state_dom[of t k S] k by auto
  with assms(2) show "frames_hashed H ?t" unfolding frames_hashed_def s by auto
qed

lemma new_delta:
  assumes ok: "tables_ok t" "frames_hashed H t" "t_deltas t k = None"
    and k: "t_frames t (r, h) = Some k" "\<And>r' h'. t_frames t (r', h') = Some k \<Longrightarrow> r' = r \<and> h' = h"
    and chain: "frame_chain ((t_deltas t)(k \<mapsto> row)) k info" "layers_ok info" "length info \<le> 4"
    and h: "h = state_hash H (base_of info) \<or> (\<exists>e\<in>base_of info. h = state_hash H {e})"
  defines "t' \<equiv> t\<lparr>t_deltas := (t_deltas t)(k \<mapsto> row)\<rparr>"
  shows "tables_ok t'" "frames_hashed H t'" "extends t t'" "frame_state t' k (base_of info)"
    "new_states t t' {base_of info}"
proof -
  have le: "t_deltas t \<subseteq>\<^sub>m t_deltas t'" using ok(3) by (auto simp: t'_def map_le_def)
  then show ext: "extends t t'" by (simp add: extends_def t'_def)
  have dom: "dom (t_deltas t') = insert k (dom (t_deltas t))" by (auto simp: t'_def)
  have fr: "t_frames t' = t_frames t" by (simp add: t'_def)
  have c: "frame_chain (t_deltas t') k info" using chain(1) by (simp add: t'_def)
  have kr: "k \<in> ran (t_frames t)" using k(1) by (rule ranI)
  show "tables_ok t'" unfolding tables_ok_def
  proof
    fix j assume "j \<in> dom (t_deltas t')"
    then consider "j = k" | "j \<noteq> k" "j \<in> dom (t_deltas t)" using dom by auto
    then show "j \<in> ran (t_frames t') \<and> (\<exists>info. frame_chain (t_deltas t') j info \<and> layers_ok info \<and> length info \<le> 4)"
    proof cases
      case 1
      with kr c chain(2,3) show ?thesis unfolding fr by blast
    next
      case 2
      with ok(1) frame_chain_mono[OF _ le] show ?thesis unfolding tables_ok_def fr by blast
    qed
  qed
  show fs: "frame_state t' k (base_of info)"
    using c frame_chain_last[OF c] unfolding frame_state_def base_of_def by auto
  have old: "frame_state t j S" if "j \<noteq> k" "frame_state t' j S" for j S
  proof -
    have "j \<in> dom (t_deltas t)" using frame_state_dom[OF that(2)] dom that(1) by simp
    with frame_state_exists[OF ok(1)] obtain S' where "frame_state t j S'" by blast
    with frame_state_extends[OF _ ext] frame_state_unique[OF that(2)] show ?thesis by blast
  qed
  show "new_states t t' {base_of info}" unfolding new_states_def
  proof (intro allI impI)
    fix j S assume "frame_state t' j S"
    then show "frame_state t j S \<or> S \<in> {base_of info}"
      using old frame_state_unique[OF fs] by (cases "j = k") auto
  qed
  show "frames_hashed H t'" unfolding frames_hashed_def fr
  proof (intro allI impI, elim conjE)
    fix r' h' j S assume j: "t_frames t (r', h') = Some j" "frame_state t' j S"
    show "h' = state_hash H S \<or> (\<exists>e\<in>S. h' = state_hash H {e})"
    proof (cases "j = k")
      case True
      with j k(2) frame_state_unique[OF fs] h show ?thesis by auto
    next
      case False
      from old[OF this j(2)] ok(2) j(1) show ?thesis unfolding frames_hashed_def by blast
    qed
  qed
qed

section \<open>Saving and loading\<close>

lemma read_delta_row:
  assumes "compressed_ok (sd_appended diff)" "compressed_ok (sd_disposed diff)"
  shows "read_delta (delta_row room_id frame_id diff) = diff"
  using assms by (simp add: read_delta_def delta_row_def chunks_state)

definition saved_layers ::
  "(int \<Rightarrow> db_room_state_delta option) \<Rightarrow> int \<Rightarrow> compressed_state \<Rightarrow> db_room_state_delta \<Rightarrow> frame_info list \<Rightarrow> bool" where
  "saved_layers deltas k S row info \<longleftrightarrow> row_frame_id row = k \<and> frame_chain (deltas(k \<mapsto> row)) k info
     \<and> layers_ok info \<and> length info \<le> 4 \<and> base_of info = S"

lemma saved_bottom:
  assumes "diff_ok {} appended disposed" "deltas k = None"
  defines "diff \<equiv> \<lparr>sd_parent_id = None, sd_appended = appended, sd_disposed = disposed\<rparr>"
  shows "saved_layers deltas k (apply_diff {} appended disposed) (delta_row r k diff) [bottom_layer k diff]"
proof -
  have "read_delta (delta_row r k diff) = diff" using assms(1) by (intro read_delta_row) (auto simp: diff_def diff_ok_def)
  moreover have "frame_chain (deltas(k \<mapsto> delta_row r k diff)) k [bottom_layer k (read_delta (delta_row r k diff))]"
    by (rule frame_chain.bottom) (simp_all add: delta_row_def diff_def)
  moreover have "layers_ok ([] @ [bottom_layer k diff])"
    unfolding layers_ok_snoc using assms(1) by (auto simp: bottom_layer_def diff_def base_of_def diff_ok_def apply_diff_def)
  ultimately show ?thesis using assms(1)
    by (auto simp: saved_layers_def delta_row_def base_of_def bottom_layer_def diff_def apply_diff_def diff_ok_def)
qed

lemma saved_top:
  assumes "diff_ok (base_of ps) appended disposed" "deltas k = None" "ps \<noteq> []" "length ps \<le> 3" "layers_ok ps"
    and "frame_chain deltas (fi_frame_id (last ps)) ps"
  defines "diff \<equiv> \<lparr>sd_parent_id = Some (fi_frame_id (last ps)), sd_appended = appended, sd_disposed = disposed\<rparr>"
  shows "saved_layers deltas k (apply_diff (base_of ps) appended disposed) (delta_row r k diff) (ps @ [top_layer k ps diff])"
proof -
  have rd: "read_delta (delta_row r k diff) = diff"
    using assms(1) by (intro read_delta_row) (auto simp: diff_def diff_ok_def)
  have "deltas \<subseteq>\<^sub>m deltas(k \<mapsto> delta_row r k diff)" using assms(2) by (auto simp: map_le_def)
  from frame_chain_mono[OF assms(6) this]
  have "frame_chain (deltas(k \<mapsto> delta_row r k diff)) k (ps @ [top_layer k ps (read_delta (delta_row r k diff))])"
    by (intro frame_chain.layer) (simp_all add: delta_row_def diff_def)
  moreover have "base_of ps = fi_full_state (last ps)" using assms(3) by (simp add: base_of_def)
  ultimately show ?thesis using assms(1,4,5) rd
    by (simp add: saved_layers_def delta_row_def top_layer_def diff_def apply_diff_def)
qed

text \<open>The cache only holds the layers of frames; \<open>store_at\<close> describes a store by its tables.\<close>

definition cache_ok ::
  "('c \<Rightarrow> int \<Rightarrow> frame_info list option) \<Rightarrow> (int \<Rightarrow> db_room_state_delta option) \<Rightarrow> 'c \<Rightarrow> bool" where
  "cache_ok entries deltas c \<longleftrightarrow> (\<forall>k info. entries c k = Some info \<longrightarrow> frame_chain deltas k info)"

definition store_at ::
  "('db \<Rightarrow> tables) \<Rightarrow> ('c \<Rightarrow> int \<Rightarrow> frame_info list option) \<Rightarrow> tables \<Rightarrow> ('db, 'c) store \<Rightarrow> bool" where
  "store_at view entries t st \<longleftrightarrow> view (st_db st) = t \<and> cache_ok entries (t_deltas t) (st_cache st)"

lemma cache_ok_mono: "cache_ok entries deltas c \<Longrightarrow> deltas \<subseteq>\<^sub>m deltas' \<Longrightarrow> cache_ok entries deltas' c"
  unfolding cache_ok_def using frame_chain_mono by blast

lemma map_err_no_panic [simp]: "map_err AppData r \<noteq> Inl AppPanic"
  by (cases r) simp_all

lemma ok_or_no_panic [simp]: "ok_or MatrixNotFound f \<noteq> Inl AppPanic" "ok_or MatrixInvalidParam f \<noteq> Inl AppPanic"
  by (cases f; simp)+

context state_store
begin

lemma read_at:
  "runs (store_at view entries t) (db_read q)
     (\<lambda>res st. store_at view entries t st \<and> res \<noteq> Inl AppPanic \<and> (\<forall>x. res = Inr x \<longrightarrow> (\<exists>db. view db = t \<and> q db = Inr x)))"
proof (rule runsI)
  fix st assume "store_at view entries t st"
  then show "\<exists>res st'. db_read q st = Some (res, st') \<and> store_at view entries t st' \<and> res \<noteq> Inl AppPanic
      \<and> (\<forall>x. res = Inr x \<longrightarrow> (\<exists>db. view db = t \<and> q db = Inr x))"
    by (cases "q (st_db st)") (auto simp: db_read_def store_at_def)
qed

lemma write_at:
  assumes "\<And>db res db'. view db = t \<Longrightarrow> q db = (res, db') \<Longrightarrow> Q (map_err AppData res) (view db') \<and> t_deltas t \<subseteq>\<^sub>m t_deltas (view db')"
  shows "runs (store_at view entries t) (db_write q) (\<lambda>res st. \<exists>t'. store_at view entries t' st \<and> Q res t')"
proof (rule runsI)
  fix st assume st: "store_at view entries t st"
  obtain res db where q: "q (st_db st) = (res, db)" by fastforce
  from assms[OF _ q] st have "Q (map_err AppData res) (view db)" "t_deltas t \<subseteq>\<^sub>m t_deltas (view db)"
    by (simp_all add: store_at_def)
  with st q cache_ok_mono show "\<exists>res st'. db_write q st = Some (res, st') \<and> (\<exists>t'. store_at view entries t' st' \<and> Q res t')"
    by (auto simp: db_write_def store_at_def)
qed

lemma room_frame_at:
  "runs (store_at view entries t) (get_room_frame_id D r None)
     (\<lambda>res st. store_at view entries t st \<and> res \<noteq> Inl AppPanic \<and> (\<forall>f. res = Inr f \<longrightarrow> t_rooms t r = Some f))"
  unfolding get_room_frame_id_def
  by (rule runs_bind[OF read_at]) (auto simp: ok_or_def dest!: room_frame split: option.splits)

lemma pdu_before_frame_at:
  "runs (store_at view entries t) (get_pdu_before_frame_id D e) (\<lambda>res st. store_at view entries t st \<and> res \<noteq> Inl AppPanic)"
  unfolding get_pdu_before_frame_id_def by (rule runs_bind[OF read_at]) auto

lemma frame_id_at:
  "runs (store_at view entries t) (get_frame_id D r h)
     (\<lambda>res st. store_at view entries t st \<and> res \<noteq> Inl AppPanic \<and> (\<forall>f. res = Inr f \<longrightarrow> t_frames t (r, h) = Some f))"
  unfolding get_frame_id_def by (rule runs_conseq[OF read_at]) (auto dest: frame_id)

lemma ensure_frame_at:
  "runs (store_at view entries t) (ensure_frame D r h)
     (\<lambda>res st. case res of
        Inl e \<Rightarrow> store_at view entries t st \<and> e \<noteq> AppPanic
      | Inr i \<Rightarrow> t_frames t (r, h) = None \<and> i \<notin> ran (t_frames t)
          \<and> store_at view entries (t\<lparr>t_frames := (t_frames t)((r, h) \<mapsto> i)\<rparr>) st)"
  unfolding ensure_frame_def
proof (rule runs_conseq[OF write_at[where Q = "\<lambda>res t'. case res of
    Inl e \<Rightarrow> t' = t \<and> e \<noteq> AppPanic
  | Inr i \<Rightarrow> t_frames t (r, h) = None \<and> i \<notin> ran (t_frames t) \<and> t' = t\<lparr>t_frames := (t_frames t)((r, h) \<mapsto> i)\<rparr>"]])
  fix db res db' assume "view db = t" "q_ensure_frame D r h db = (res, db')"
  with ensure_frame[OF this(2)] show "(case map_err AppData res of
      Inl e \<Rightarrow> view db' = t \<and> e \<noteq> AppPanic
    | Inr i \<Rightarrow> t_frames t (r, h) = None \<and> i \<notin> ran (t_frames t) \<and> view db' = t\<lparr>t_frames := (t_frames t)((r, h) \<mapsto> i)\<rparr>)
    \<and> t_deltas t \<subseteq>\<^sub>m t_deltas (view db')"
    by (cases res) auto
qed (auto split: sum.splits)

lemma keeps_at:
  assumes "\<And>db res db'. q db = (res, db') \<Longrightarrow> view db' = view db"
  shows "runs (store_at view entries t) (db_write q) (\<lambda>res st. store_at view entries t st \<and> res \<noteq> Inl AppPanic)"
  using write_at[of t q "\<lambda>res t'. t' = t \<and> res \<noteq> Inl AppPanic"] assms by (auto elim: runs_conseq)

lemma update_at:
  "runs (store_at view entries t) (update_frame_id D e i) (\<lambda>res st. store_at view entries t st \<and> res \<noteq> Inl AppPanic)"
  "runs (store_at view entries t) (update_before_frame_id D e i) (\<lambda>res st. store_at view entries t st \<and> res \<noteq> Inl AppPanic)"
  "runs (store_at view entries t) (update_frame_id_by_sn D sn i) (\<lambda>res st. store_at view entries t st \<and> res \<noteq> Inl AppPanic)"
  unfolding update_frame_id_def update_before_frame_id_def update_frame_id_by_sn_def
  by (rule keeps_at, erule update_frame, rule keeps_at, erule update_before_frame, rule keeps_at, erule update_frame_by_sn)

lemma ensure_field_at:
  "runs (store_at view entries t) (ensure_field D ty k)
     (\<lambda>res st. \<exists>fs. store_at view entries (t\<lparr>t_fields := fs\<rparr>) st \<and> t_fields t \<subseteq>\<^sub>m fs \<and> res \<noteq> Inl AppPanic
        \<and> (\<forall>i. res = Inr i \<longrightarrow> fs (ty, k) = Some i))"
  unfolding ensure_field_def
proof (rule runs_conseq[OF write_at[where Q = "\<lambda>res t'. \<exists>fs. t' = t\<lparr>t_fields := fs\<rparr> \<and> t_fields t \<subseteq>\<^sub>m fs \<and> res \<noteq> Inl AppPanic
        \<and> (\<forall>i. res = Inr i \<longrightarrow> fs (ty, k) = Some i)"]])
  fix db res db' assume v: "view db = t" "q_ensure_field D ty k db = (res, db')"
  from ensure_field[OF v(2)] show "(\<exists>fs. view db' = t\<lparr>t_fields := fs\<rparr> \<and> t_fields t \<subseteq>\<^sub>m fs \<and> map_err AppData res \<noteq> Inl AppPanic
      \<and> (\<forall>i. map_err AppData res = Inr i \<longrightarrow> fs (ty, k) = Some i)) \<and> t_deltas t \<subseteq>\<^sub>m t_deltas (view db')"
  proof (elim disjE exE conjE)
    assume "view db' = view db" "\<forall>i. res = Inr i \<longrightarrow> t_fields (view db) (ty, k) = Some i"
    with v(1) show ?thesis by (intro conjI exI[of _ "t_fields t"]) (auto simp: res_simps)
  next
    fix i assume "t_fields (view db) (ty, k) = None" "is_ok res \<longrightarrow> res = Inr i"
      "view db' = (view db)\<lparr>t_fields := (t_fields (view db))((ty, k) \<mapsto> i)\<rparr>"
    with v(1) show ?thesis by (intro conjI exI[of _ "(t_fields t)((ty, k) \<mapsto> i)"]) (auto simp: res_simps map_le_def)
  qed
qed auto

end

context state_store
begin

lemma cache_ok_insert:
  assumes "cache_ok entries deltas c" "frame_chain deltas k info"
  shows "cache_ok entries deltas (lru_insert L k info c)"
  unfolding cache_ok_def
proof (intro allI impI)
  fix j i assume "entries (lru_insert L k info c) j = Some i"
  with insert_entry[of k info c] have "((entries c)(k \<mapsto> info)) j = Some i" by (auto simp: map_le_def dom_def)
  with assms show "frame_chain deltas j i" by (auto simp: cache_ok_def split: if_splits)
qed

text \<open>The result of a lookup in the cache.\<close>

lemma cached_at:
  assumes "store_at view entries t st" "lru_get_mut L k (st_cache st) = (found, c)"
  shows "store_at view entries t (st\<lparr>st_cache := c\<rparr>)" "found = Some info \<Longrightarrow> frame_chain (t_deltas t) k info"
  using get_mut[OF assms(2)] assms(1) by (auto simp: store_at_def cache_ok_def)

lemma load_state_diff_at:
  assumes "store_at view entries t st"
  shows "\<exists>res. load_state_diff D k st = Some (res, st) \<and> res \<noteq> Inl AppPanic
    \<and> (\<forall>diff. res = Inr diff \<longrightarrow> (\<exists>row. t_deltas t k = Some row \<and> diff = read_delta row))"
proof (cases "q_delta D k (st_db st)")
  case (Inl e)
  then show ?thesis by (simp add: load_state_diff_def app_bind_def db_read_def)
next
  case (Inr row)
  with delta[OF Inr] assms show ?thesis
    by (simp add: load_state_diff_def app_bind_def db_read_def app_lift_def store_at_def)
qed

lemma load_chain:
  assumes "frame_chain (t_deltas t) k info"
  shows "runs (store_at view entries t) (load_frame_info D L k)
    (\<lambda>res st. store_at view entries t st \<and> (case res of Inl e \<Rightarrow> e \<noteq> AppPanic | Inr i \<Rightarrow> i = info))"
  using assms
proof (induction rule: frame_chain.induct)
  case (bottom k row)
  show ?case
  proof (rule runsI)
    fix st assume st: "store_at view entries t st"
    obtain found c where l: "lru_get_mut L k (st_cache st) = (found, c)" by fastforce
    note c = cached_at[OF st l]
    obtain res where d: "load_state_diff D k (st\<lparr>st_cache := c\<rparr>) = Some (res, st\<lparr>st_cache := c\<rparr>)" "res \<noteq> Inl AppPanic"
      "\<And>diff. res = Inr diff \<Longrightarrow> diff = read_delta row" using load_state_diff_at[OF c(1), of k] bottom(1) by auto
    have p: "sd_parent_id (read_delta row) = None" using bottom(2) by (simp add: read_delta_def)
    have chain: "frame_chain (t_deltas t) k [bottom_layer k (read_delta row)]" using bottom by (rule frame_chain.bottom)
    show "\<exists>r s'. load_frame_info D L k st = Some (r, s') \<and> store_at view entries t s'
        \<and> (case r of Inl e \<Rightarrow> e \<noteq> AppPanic | Inr i \<Rightarrow> i = [bottom_layer k (read_delta row)])"
    proof (cases found)
      case (Some i)
      with c l frame_chain_unique[OF c(2)[OF Some] chain] show ?thesis by (subst load_frame_info.simps) simp
    next
      case None
      show ?thesis
      proof (cases res)
        case (Inl e)
        with None l d c(1) show ?thesis by (subst load_frame_info.simps) simp
      next
        case (Inr diff)
        have "store_at view entries t (st\<lparr>st_cache := lru_insert L k [bottom_layer k (read_delta row)] c\<rparr>)"
          using c(1) cache_ok_insert[OF _ chain] by (simp add: store_at_def)
        with None l d(1) d(3)[OF Inr] Inr p show ?thesis by (subst load_frame_info.simps) (simp add: Let_def)
      qed
    qed
  qed
next
  case (layer k row p info)
  show ?case
  proof (rule runsI)
    fix st assume st: "store_at view entries t st"
    obtain found c where l: "lru_get_mut L k (st_cache st) = (found, c)" by fastforce
    note c = cached_at[OF st l]
    obtain res where d: "load_state_diff D k (st\<lparr>st_cache := c\<rparr>) = Some (res, st\<lparr>st_cache := c\<rparr>)" "res \<noteq> Inl AppPanic"
      "\<And>diff. res = Inr diff \<Longrightarrow> diff = read_delta row" using load_state_diff_at[OF c(1), of k] layer(1) by auto
    have p: "sd_parent_id (read_delta row) = Some p" using layer(2) by (simp add: read_delta_def)
    let ?info = "info @ [top_layer k info (read_delta row)]"
    have chain: "frame_chain (t_deltas t) k ?info" using layer(1-3) by (rule frame_chain.layer)
    show "\<exists>r s'. load_frame_info D L k st = Some (r, s') \<and> store_at view entries t s'
        \<and> (case r of Inl e \<Rightarrow> e \<noteq> AppPanic | Inr i \<Rightarrow> i = ?info)"
    proof (cases found)
      case (Some i)
      with c l frame_chain_unique[OF c(2)[OF Some] chain] show ?thesis by (subst load_frame_info.simps) simp
    next
      case None
      show ?thesis
      proof (cases res)
        case (Inl e)
        with None l d c(1) show ?thesis by (subst load_frame_info.simps) simp
      next
        case (Inr diff)
        from layer(4) c(1) obtain r' st' where r: "load_frame_info D L p (st\<lparr>st_cache := c\<rparr>) = Some (r', st')"
          "store_at view entries t st'" "case r' of Inl e \<Rightarrow> e \<noteq> AppPanic | Inr i \<Rightarrow> i = info" by (rule runsE) blast
        show ?thesis
        proof (cases r')
          case (Inl e)
          with None l d(1) d(3)[OF Inr] Inr p r show ?thesis by (subst load_frame_info.simps) simp
        next
          case (Inr i)
          with r(3) have i: "r' = Inr info" by simp
          have "store_at view entries t (st'\<lparr>st_cache := lru_insert L k ?info (st_cache st')\<rparr>)"
            using r(2) cache_ok_insert[OF _ chain] by (simp add: store_at_def)
          with None l d(1) d(3)[OF \<open>res = Inr diff\<close>] \<open>res = Inr diff\<close> p r(1) i frame_chain_last[OF layer(3)] show ?thesis
            by (subst load_frame_info.simps) (simp add: Let_def)
        qed
      qed
    qed
  qed
qed

lemma load_missing:
  assumes "t_deltas t k = None"
  shows "runs (store_at view entries t) (load_frame_info D L k)
    (\<lambda>res st. store_at view entries t st \<and> (\<exists>e. res = Inl e \<and> e \<noteq> AppPanic))"
proof (rule runsI)
  fix st assume st: "store_at view entries t st"
  obtain found c where l: "lru_get_mut L k (st_cache st) = (found, c)" by fastforce
  note c = cached_at[OF st l]
  have "found = None" using c(2) assms by (cases found) (auto elim: frame_chainE)
  moreover obtain res where r: "load_state_diff D k (st\<lparr>st_cache := c\<rparr>) = Some (res, st\<lparr>st_cache := c\<rparr>)" "res \<noteq> Inl AppPanic"
    "\<forall>diff. res = Inr diff \<longrightarrow> (\<exists>row. t_deltas t k = Some row \<and> diff = read_delta row)"
    using load_state_diff_at[OF c(1), of k] by blast
  moreover obtain e where "res = Inl e" using r(3) assms by (cases res) auto
  ultimately show "\<exists>r s'. load_frame_info D L k st = Some (r, s') \<and> store_at view entries t s' \<and> (\<exists>e. r = Inl e \<and> e \<noteq> AppPanic)"
    using l c(1) by (subst load_frame_info.simps) simp
qed

lemma load_at:
  assumes "tables_ok t"
  shows "runs (store_at view entries t) (load_frame_info D L k)
    (\<lambda>res st. store_at view entries t st \<and> res \<noteq> Inl AppPanic \<and> (\<forall>info. res = Inr info \<longrightarrow> frame_chain (t_deltas t) k info))"
proof (cases "t_deltas t k")
  case None
  from load_missing[OF this] show ?thesis by (rule runs_conseq) auto
next
  case (Some row)
  with assms obtain info where i: "frame_chain (t_deltas t) k info" unfolding tables_ok_def by blast
  from load_chain[OF i] show ?thesis by (rule runs_conseq) (auto simp: i split: sum.splits)
qed

lemma save_at:
  assumes "saved_layers (t_deltas t) k S (delta_row r k diff) info" "t_deltas t k = None"
  shows "runs (store_at view entries t) (save_state_delta D r k diff)
    (\<lambda>res st. case res of
       Inl e \<Rightarrow> store_at view entries t st \<and> e \<noteq> AppPanic
     | Inr _ \<Rightarrow> \<exists>row info. saved_layers (t_deltas t) k S row info
         \<and> store_at view entries (t\<lparr>t_deltas := (t_deltas t)(k \<mapsto> row)\<rparr>) st)"
  unfolding save_state_delta_def
proof (rule runs_conseq[OF write_at[where Q = "\<lambda>res t'. case res of
    Inl e \<Rightarrow> t' = t \<and> e \<noteq> AppPanic
  | Inr _ \<Rightarrow> t' = t\<lparr>t_deltas := (t_deltas t)(k \<mapsto> delta_row r k diff)\<rparr>"]])
  fix db res db' assume v: "view db = t" "q_save_delta D (delta_row r k diff) db = (res, db')"
  have "row_frame_id (delta_row r k diff) = k" by (simp add: delta_row_def)
  with save_delta[OF v(2)] v(1) assms(2) show "(case map_err AppData res of
      Inl e \<Rightarrow> view db' = t \<and> e \<noteq> AppPanic
    | Inr _ \<Rightarrow> view db' = t\<lparr>t_deltas := (t_deltas t)(k \<mapsto> delta_row r k diff)\<rparr>) \<and> t_deltas t \<subseteq>\<^sub>m t_deltas (view db')"
    by (cases res) (auto simp: map_le_def)
qed (use assms(1) in \<open>auto split: sum.splits\<close>)

lemma calc_at:
  assumes "ps = [] \<or> frame_chain (t_deltas t) (fi_frame_id (last ps)) ps" "layers_ok ps" "length ps \<le> 4"
    and "diff_ok (base_of ps) a d" "t_deltas t k = None"
  shows "runs (store_at view entries t) (calc_and_save_state_delta D r k a d sibling ps)
    (\<lambda>res st. case res of
       Inl e \<Rightarrow> store_at view entries t st \<and> e \<noteq> AppPanic
     | Inr _ \<Rightarrow> \<exists>row info. saved_layers (t_deltas t) k (apply_diff (base_of ps) a d) row info
         \<and> store_at view entries (t\<lparr>t_deltas := (t_deltas t)(k \<mapsto> row)\<rparr>) st)"
  using assms(1-4)
proof (induction ps arbitrary: a d sibling rule: rev_induct)
  case Nil
  with save_at[OF saved_bottom[where deltas = "t_deltas t" and k = k and appended = a and disposed = d] assms(5)] assms(5) show ?case
    unfolding base_of_Nil by (subst calc_and_save_state_delta.simps) simp
next
  case (snoc p ps)
  let ?Q = "\<lambda>res st. case res of
       Inl e \<Rightarrow> store_at view entries t st \<and> e \<noteq> AppPanic
     | Inr _ \<Rightarrow> \<exists>row info. saved_layers (t_deltas t) k (apply_diff (base_of (ps @ [p])) a d) row info
         \<and> store_at view entries (t\<lparr>t_deltas := (t_deltas t)(k \<mapsto> row)\<rparr>) st"
  have pc: "frame_chain (t_deltas t) (fi_frame_id p) (ps @ [p])" using snoc.prems(1) by simp
  have ps: "ps = [] \<or> frame_chain (t_deltas t) (fi_frame_id (last ps)) ps" using frame_chain_butlast[OF pc] by auto
  obtain a' d' where m: "merge_delta p a d = (a', d')" by fastforce
  have p: "diff_ok (base_of ps) (fi_appended p) (fi_disposed p)"
    "fi_full_state p = apply_diff (base_of ps) (fi_appended p) (fi_disposed p)" "layers_ok ps" "length ps \<le> 4"
    using snoc.prems(2,3) by simp_all
  have md: "diff_ok (base_of ps) a' d'" "apply_diff (base_of ps) a' d' = apply_diff (base_of (ps @ [p])) a d"
    using merge_delta_correct[OF p(1,2) _ m] snoc.prems(4) by simp_all
  have merged: "runs (store_at view entries t) (calc_and_save_state_delta D r k a' d' s ps) ?Q" for s
    using snoc.IH[OF ps p(3,4) md(1)] unfolding md(2) .
  show ?case
  proof (cases "3 < length (ps @ [p])")
    case True
    with merged m show ?thesis by (subst calc_and_save_state_delta.simps) (simp add: Let_def)
  next
    case False
    have "runs (store_at view entries t) (save_state_delta D r k
        \<lparr>sd_parent_id = Some (fi_frame_id (last (ps @ [p]))), sd_appended = a, sd_disposed = d\<rparr>) ?Q"
      by (rule save_at[OF saved_top[where deltas = "t_deltas t" and k = k and ps = "ps @ [p]"] assms(5)])
        (use snoc.prems(2,4) assms(5) False pc in simp_all)
    with merged m False show ?thesis by (subst calc_and_save_state_delta.simps) (simp add: Let_def)
  qed
qed

end

end
