(* ===== verification/State_Ops.thy ===== *)
theory State_Ops
  imports State_Store
begin

text \<open>
  What the operations on room states establish: recording the state before an event, saving a
  resolved state and appending an event to the state of its room, each for every database and cache
  that keep their promises, whether or not a statement fails on the way.
\<close>

section \<open>What the operations on states establish\<close>

definition state_saved ::
  "(string \<Rightarrow> string) \<Rightarrow> string \<Rightarrow> compressed_state \<Rightarrow> tables \<Rightarrow> app_error + int \<Rightarrow> tables \<Rightarrow> bool" where
  "state_saved H r S t res t' \<longleftrightarrow> extends t t' \<and> tables_ok t' \<and> frames_hashed H t' \<and> new_states t t' {S}
     \<and> (case res of
          Inl e \<Rightarrow> e \<noteq> AppPanic
        | Inr k \<Rightarrow> t_frames t' (r, state_hash H S) = Some k
            \<and> (frames_complete t \<longrightarrow>
                 frames_complete t' \<and> (\<exists>S'. frame_state t' k S' \<and> (S' = S \<or> (\<exists>e\<in>S'. S = {e})))))"

lemma state_savedI:
  "extends t t' \<Longrightarrow> tables_ok t' \<Longrightarrow> frames_hashed H t' \<Longrightarrow> new_states t t' {S} \<Longrightarrow> (frames_complete t \<longrightarrow> frames_complete t')
     \<Longrightarrow> t_frames t' (r, state_hash H S) = Some k \<Longrightarrow> frame_state t' k S \<Longrightarrow> state_saved H r S t (Inr k) t'"
  "extends t t' \<Longrightarrow> tables_ok t' \<Longrightarrow> frames_hashed H t' \<Longrightarrow> new_states t t' {S} \<Longrightarrow> e \<noteq> AppPanic \<Longrightarrow> state_saved H r S t (Inl e) t'"
  by (auto simp: state_saved_def)

lemma state_saved_exI:
  "store_at view entries t' st \<Longrightarrow> extends t t' \<Longrightarrow> tables_ok t' \<Longrightarrow> frames_hashed H t' \<Longrightarrow> new_states t t' {S} \<Longrightarrow> (frames_complete t \<longrightarrow> frames_complete t')
     \<Longrightarrow> t_frames t' (r, state_hash H S) = Some k \<Longrightarrow> frame_state t' k S
     \<Longrightarrow> \<exists>t'. store_at view entries t' st \<and> state_saved H r S t (Inr k) t'"
  "store_at view entries t' st \<Longrightarrow> extends t t' \<Longrightarrow> tables_ok t' \<Longrightarrow> frames_hashed H t' \<Longrightarrow> new_states t t' {S} \<Longrightarrow> e \<noteq> AppPanic
     \<Longrightarrow> \<exists>t'. store_at view entries t' st \<and> state_saved H r S t (Inl e) t'"
  using state_savedI by blast+

lemma found_state:
  assumes "tables_ok t" "frames_hashed H t" "inj H" "compressed_ok S" "t_frames t (r, state_hash H S) = Some k"
  shows "state_saved H r S t (Inr k) t"
proof -
  have "\<exists>S'. frame_state t k S' \<and> (S' = S \<or> (\<exists>e\<in>S'. S = {e}))" if c: "frames_complete t"
  proof -
    have "k \<in> dom (t_deltas t)" using c assms(5) unfolding frames_complete_def by (auto intro: ranI)
    from frame_state_exists[OF assms(1) this] obtain S' where s: "frame_state t k S'" by blast
    note ok = frame_state_ok[OF assms(1) s]
    from assms(2,5) s have "state_hash H S = state_hash H S' \<or> (\<exists>e\<in>S'. state_hash H S = state_hash H {e})"
      unfolding frames_hashed_def by blast
    then have "S' = S \<or> (\<exists>e\<in>S'. S = {e})"
    proof (elim disjE bexE)
      assume "state_hash H S = state_hash H S'"
      from state_hash_inj[OF assms(3,4) ok this] show ?thesis by simp
    next
      fix e assume e: "e \<in> S'" "state_hash H S = state_hash H {e}"
      have "compressed_ok {e}" using ok e(1) by (auto simp: compressed_ok_def)
      from state_hash_inj[OF assms(3,4) this e(2)] e(1) show ?thesis by blast
    qed
    with s show ?thesis by blast
  qed
  with assms show ?thesis by (simp add: state_saved_def)
qed

lemma delta_to_parent_ok:
  assumes "delta_to_parent ps S = (a, d)" "compressed_ok (base_of ps)" "compressed_ok S"
  shows "diff_ok (base_of ps) a d" "apply_diff (base_of ps) a d = S"
proof -
  have "a = S - base_of ps" "d = base_of ps - S"
    using assms(1) by (auto simp: delta_to_parent_def base_of_def split: if_splits)
  with diff_ok_difference[OF assms(2,3)] show "diff_ok (base_of ps) a d" "apply_diff (base_of ps) a d = S" by simp_all
qed

context state_store
begin

lemma parent_layers_at:
  assumes "tables_ok t"
  shows "runs (store_at view entries t) (parent_layers D L p)
    (\<lambda>res st. store_at view entries t st \<and> res \<noteq> Inl AppPanic
       \<and> (\<forall>ps. res = Inr ps \<longrightarrow> layers_of (t_deltas t) p ps))"
  using load_at[OF assms] by (cases p) (auto simp: parent_layers_def layers_of_def)

lemma save_new_at:
  assumes t: "tables_ok t" "frames_hashed H t"
    and k: "t_frames t (r, h) = None" "k \<notin> ran (t_frames t)"
    and ps: "layers_of (t_deltas t) p ps"
    and d: "diff_ok (base_of ps) a d"
    and h: "h = state_hash H (apply_diff (base_of ps) a d) \<or> (\<exists>e\<in>apply_diff (base_of ps) a d. h = state_hash H {e})"
    and fs: "t_fields t \<subseteq>\<^sub>m fs"
  shows "runs (store_at view entries (t\<lparr>t_frames := (t_frames t)((r, h) \<mapsto> k), t_fields := fs\<rparr>))
      (calc_and_save_state_delta D r k a d sibling ps)
    (\<lambda>res st. \<exists>t'. store_at view entries t' st \<and> extends t t' \<and> tables_ok t' \<and> frames_hashed H t'
       \<and> new_states t t' {apply_diff (base_of ps) a d}
       \<and> (case res of
            Inl e \<Rightarrow> e \<noteq> AppPanic
          | Inr _ \<Rightarrow> (frames_complete t \<longrightarrow> frames_complete t') \<and> t_frames t' (r, h) = Some k \<and> t_fields t' = fs
              \<and> frame_state t' k (apply_diff (base_of ps) a d)))"
proof -
  let ?t0 = "t\<lparr>t_frames := (t_frames t)((r, h) \<mapsto> k)\<rparr>"
  let ?t1 = "?t0\<lparr>t_fields := fs\<rparr>"
  note n = new_frame[OF t(1,2) k]
  have n1: "tables_ok ?t1" "frames_hashed H ?t1" "extends t ?t1"
    using n fs by (auto simp: tables_ok_def frames_hashed_def frame_state_def extends_def)
  have n2: "new_states t ?t1 X" for X by (simp add: new_states_def frame_state_def)
  have ps': "ps = [] \<or> frame_chain (t_deltas ?t1) (fi_frame_id (last ps)) ps"
    using ps frame_chain_last by (auto simp: layers_of_def split: option.splits)
  have l: "layers_ok ps" "length ps \<le> 4" using ps tables_ok_chain[OF t(1)] by (auto simp: layers_of_def split: option.splits)
  have nd: "t_deltas ?t1 k = None" using n(4) by simp
  show ?thesis
  proof (rule runs_conseq[OF calc_at[OF ps' l d nd]])
    fix res st
    assume q: "case res of
        Inl e \<Rightarrow> store_at view entries ?t1 st \<and> e \<noteq> AppPanic
      | Inr _ \<Rightarrow> \<exists>row info. saved_layers (t_deltas ?t1) k (apply_diff (base_of ps) a d) row info
          \<and> store_at view entries (?t1\<lparr>t_deltas := (t_deltas ?t1)(k \<mapsto> row)\<rparr>) st"
    show "\<exists>t'. store_at view entries t' st \<and> extends t t' \<and> tables_ok t' \<and> frames_hashed H t'
       \<and> new_states t t' {apply_diff (base_of ps) a d}
       \<and> (case res of
            Inl e \<Rightarrow> e \<noteq> AppPanic
          | Inr _ \<Rightarrow> (frames_complete t \<longrightarrow> frames_complete t') \<and> t_frames t' (r, h) = Some k \<and> t_fields t' = fs
              \<and> frame_state t' k (apply_diff (base_of ps) a d))"
    proof (cases res)
      case (Inl e)
      with q n1 n2 show ?thesis by auto
    next
      case (Inr u)
      with q obtain row info where s: "saved_layers (t_deltas ?t1) k (apply_diff (base_of ps) a d) row info"
        "store_at view entries (?t1\<lparr>t_deltas := (t_deltas ?t1)(k \<mapsto> row)\<rparr>) st" by auto
      let ?t2 = "?t1\<lparr>t_deltas := (t_deltas ?t1)(k \<mapsto> row)\<rparr>"
      have u: "r' = r \<and> h' = h" if "t_frames ?t1 (r', h') = Some k" for r' h'
        using that k(2) by (auto split: if_splits intro: ranI)
      have c: "frame_chain ((t_deltas ?t1)(k \<mapsto> row)) k info" "layers_ok info" "length info \<le> 4"
        "base_of info = apply_diff (base_of ps) a d" using s(1) unfolding saved_layers_def by blast+
      have e: "t_frames ?t1 (r, h) = Some k" by simp
      from h have h': "h = state_hash H (base_of info) \<or> (\<exists>e\<in>base_of info. h = state_hash H {e})" unfolding c(4) .
      note nd2 = new_delta[OF n1(1,2) nd e u c(1-3) h']
      have "frames_complete t \<longrightarrow> frames_complete ?t2" using k(1) by (auto simp: frames_complete_def)
      moreover have "t_frames ?t2 (r, h) = Some k" "t_fields ?t2 = fs" by simp_all
      ultimately show ?thesis
        using Inr s(2) nd2(1,2) nd2(4)[unfolded c(4)] extends_trans[OF n1(3) nd2(3)]
          new_states_trans[OF n2 nd2(5)[unfolded c(4)]]
        by (intro exI[of _ ?t2]) simp
    qed
  qed
qed

end

context state_store
begin

lemma set_event_state_before_at:
  assumes t: "tables_ok t" "frames_hashed H t" and H: "inj H" and S: "compressed_ok S"
  shows "runs (store_at view entries t) (set_event_state_before H D L e r S)
    (\<lambda>res st. \<exists>t'. store_at view entries t' st \<and> state_saved H r S t res t')"
    (is "runs _ _ ?Q")
proof -
  let ?h = "state_hash H S"
  have same: "?Q (Inl x) st" if "store_at view entries t st" "x \<noteq> AppPanic" for x st
    using that t by (auto simp: state_saved_def)
  have create: "runs (store_at view entries t)
      (app_bind (ensure_frame D r ?h) (\<lambda>frame_id.
       app_bind (parent_layers D L p) (\<lambda>states_parents.
       let (appended, disposed) = delta_to_parent states_parents S in
       app_bind (update_before_frame_id D e frame_id) (\<lambda>_.
       app_bind (calc_and_save_state_delta D r frame_id appended disposed 1000000 states_parents) (\<lambda>_.
       app_return frame_id))))) ?Q" for p
  proof (rule runs_bind[OF ensure_frame_at])
    fix k
    let ?t1 = "t\<lparr>t_frames := (t_frames t)((r, ?h) \<mapsto> k)\<rparr>"
    have "runs (store_at view entries ?t1)
        (app_bind (parent_layers D L p) (\<lambda>states_parents.
         let (appended, disposed) = delta_to_parent states_parents S in
         app_bind (update_before_frame_id D e k) (\<lambda>_.
         app_bind (calc_and_save_state_delta D r k appended disposed 1000000 states_parents) (\<lambda>_.
         app_return k)))) ?Q" if k: "t_frames t (r, ?h) = None" "k \<notin> ran (t_frames t)"
    proof -
      note n = new_frame[OF t(1,2) k]
      have err: "?Q (Inl x) st" if "store_at view entries ?t1 st" "x \<noteq> AppPanic" for x st
        using that n by (auto simp: state_saved_def)
      show ?thesis
      proof (rule runs_bind[OF parent_layers_at[OF n(1), of p]])
        fix ps
        obtain a d where ad: "delta_to_parent ps S = (a, d)" by fastforce
        have "runs (store_at view entries ?t1)
          (app_bind (update_before_frame_id D e k) (\<lambda>_.
           app_bind (calc_and_save_state_delta D r k a d 1000000 ps) (\<lambda>_. app_return k))) ?Q"
          if ps: "layers_of (t_deltas t) p ps"
        proof (rule runs_bind[OF update_at(2)])
          have "compressed_ok (base_of ps)"
            using ps tables_ok_chain(1)[OF t(1)] layers_ok_base by (auto simp: layers_of_def split: option.splits)
          note dok = delta_to_parent_ok[OF ad this S]
          have "runs (store_at view entries ?t1) (app_bind (calc_and_save_state_delta D r k a d 1000000 ps) (\<lambda>_. app_return k)) ?Q"
            by (rule runs_bind[OF save_new_at[OF t k ps dok(1), where fs = "t_fields t", simplified]])
              (auto simp: dok(2) intro: state_savedI)
          then show "runs (\<lambda>st. store_at view entries ?t1 st \<and> Inr x \<noteq> Inl AppPanic)
              (app_bind (calc_and_save_state_delta D r k a d 1000000 ps) (\<lambda>_. app_return k)) ?Q" for x by simp
        qed (use err in auto)
        then show "runs (\<lambda>st. store_at view entries ?t1 st \<and> Inr ps \<noteq> Inl AppPanic
              \<and> (\<forall>ps'. Inr ps = Inr ps' \<longrightarrow> layers_of (t_deltas ?t1) p ps'))
            (let (appended, disposed) = delta_to_parent ps S in
             app_bind (update_before_frame_id D e k) (\<lambda>_.
             app_bind (calc_and_save_state_delta D r k appended disposed 1000000 ps) (\<lambda>_. app_return k))) ?Q"
          by (simp add: ad runs_fact)
      qed (use err in auto)
    qed
    then show "runs (\<lambda>st. case Inr k of
          Inl e \<Rightarrow> store_at view entries t st \<and> e \<noteq> AppPanic
        | Inr i \<Rightarrow> t_frames t (r, ?h) = None \<and> i \<notin> ran (t_frames t)
            \<and> store_at view entries (t\<lparr>t_frames := (t_frames t)((r, ?h) \<mapsto> i)\<rparr>) st)
        (app_bind (parent_layers D L p) (\<lambda>states_parents.
         let (appended, disposed) = delta_to_parent states_parents S in
         app_bind (update_before_frame_id D e k) (\<lambda>_.
         app_bind (calc_and_save_state_delta D r k appended disposed 1000000 states_parents) (\<lambda>_.
         app_return k)))) ?Q"
      by (simp add: runs_fact)
  qed (use same in auto)
  have found: "runs (store_at view entries t) (app_bind (update_before_frame_id D e k) (\<lambda>_. app_return k)) ?Q"
    if "t_frames t (r, ?h) = Some k" for k
    by (rule runs_bind[OF update_at(2)]) (use found_state[OF t H S that] same in auto)
  show ?thesis
    unfolding set_event_state_before_def state_hash_def[symmetric] Let_def
  proof (rule runs_bind_result[where M = "\<lambda>_. store_at view entries t"])
    show "runs (store_at view entries t) (get_room_frame_id D r None) (\<lambda>res st. res \<noteq> Inl AppPanic \<and> store_at view entries t st)"
      by (rule runs_conseq[OF room_frame_at]) auto
    fix prev :: "app_error + int"
    show "runs (store_at view entries t) (app_bind (app_result (get_frame_id D r ?h)) (\<lambda>found.
       case found of
         Inl _ \<Rightarrow> app_bind (ensure_frame D r ?h) (\<lambda>frame_id.
           app_bind (parent_layers D L (ok_opt prev)) (\<lambda>states_parents.
           case delta_to_parent states_parents S of (appended, disposed) \<Rightarrow>
           app_bind (update_before_frame_id D e frame_id) (\<lambda>_.
           app_bind (calc_and_save_state_delta D r frame_id appended disposed 1000000 states_parents) (\<lambda>_.
           app_return frame_id))))
       | Inr frame_id \<Rightarrow> app_bind (update_before_frame_id D e frame_id) (\<lambda>_. app_return frame_id))) ?Q"
    proof (rule runs_bind_result[where M = "\<lambda>res st. store_at view entries t st \<and> (\<forall>f. res = Inr f \<longrightarrow> t_frames t (r, ?h) = Some f)"])
      show "runs (store_at view entries t) (get_frame_id D r ?h)
        (\<lambda>res st. res \<noteq> Inl AppPanic \<and> store_at view entries t st \<and> (\<forall>f. res = Inr f \<longrightarrow> t_frames t (r, ?h) = Some f))"
        by (rule runs_conseq[OF frame_id_at]) auto
    qed (use found create in \<open>auto split: sum.split intro: runs_fact simp: Let_def\<close>)
  qed
qed

end

definition prev_state :: "tables \<Rightarrow> int option \<Rightarrow> compressed_state \<Rightarrow> bool" where
  "prev_state t p S = (case p of None \<Rightarrow> S = {} | Some k \<Rightarrow> frame_state t k S)"

lemma layers_of_state: "layers_of (t_deltas t) p ps \<Longrightarrow> prev_state t p (base_of ps)"
  using frame_chain_last by (fastforce simp: layers_of_def prev_state_def frame_state_def base_of_def split: option.splits)

lemma layers_of_mono: "layers_of (t_deltas t) p ps \<Longrightarrow> extends t t' \<Longrightarrow> layers_of (t_deltas t') p ps"
  using frame_chain_mono by (auto simp: layers_of_def extends_def split: option.splits)

lemma layers_of_ok: "tables_ok t \<Longrightarrow> layers_of (t_deltas t) p ps \<Longrightarrow> compressed_ok (base_of ps)"
  using tables_ok_chain(1) layers_ok_base by (auto simp: layers_of_def split: option.splits)

lemma tables_fields [simp]:
  "tables_ok (t\<lparr>t_fields := fs\<rparr>) = tables_ok t" "frames_hashed H (t\<lparr>t_fields := fs\<rparr>) = frames_hashed H t"
  "frames_complete (t\<lparr>t_fields := fs\<rparr>) = frames_complete t" "frame_state (t\<lparr>t_fields := fs\<rparr>) k S = frame_state t k S"
  "t_fields t \<subseteq>\<^sub>m fs \<Longrightarrow> extends t (t\<lparr>t_fields := fs\<rparr>)" "new_states t (t\<lparr>t_fields := fs\<rparr>) X"
  by (simp_all add: new_states_def tables_ok_def frames_hashed_def frames_complete_def frame_state_def extends_def)

lemma compressed_event_sn_ok: "length e = 16 \<Longrightarrow> \<exists>sn. compressed_event_sn e = Some sn"
  by (simp add: compressed_event_sn_def i64_from_bytes_def)

text \<open>The difference that \<open>save_state\<close> reports leads from the previous state to the new one.\<close>

definition delta_reported :: "tables \<Rightarrow> string \<Rightarrow> compressed_state \<Rightarrow> delta_info \<Rightarrow> bool" where
  "delta_reported t r S di \<longleftrightarrow>
     di_appended di = {} \<and> di_disposed di = {} \<and> t_rooms t r = Some (di_frame_id di)
     \<or> (\<exists>B. (B = {} \<or> prev_state t (t_rooms t r) B) \<and> diff_ok B (di_appended di) (di_disposed di)
          \<and> apply_diff B (di_appended di) (di_disposed di) = S)"

context state_store
begin

text \<open>The part of \<open>save_state\<close> after the frame is known.\<close>

lemma save_state_rest_at:
  assumes S: "compressed_ok S"
    and t1: "tables_ok t1" "\<And>p ps. layers_of (t_deltas t1) p ps \<Longrightarrow> p = None \<or> p = t_rooms t r \<Longrightarrow> prev_state t p (base_of ps)"
    and p: "p = None \<or> p = t_rooms t r"
    and err: "\<And>e st. store_at view entries t1 st \<Longrightarrow> e \<noteq> AppPanic \<Longrightarrow> Q (Inl e) st"
    and save: "\<And>ps a d. layers_of (t_deltas t1) p ps \<Longrightarrow> diff_ok (base_of ps) a d \<Longrightarrow> apply_diff (base_of ps) a d = S
      \<Longrightarrow> delta_reported t r S \<lparr>di_frame_id = k, di_appended = a, di_disposed = d\<rparr>
      \<Longrightarrow> runs (store_at view entries t1) (app_bind (save ps a d) (\<lambda>_. app_return \<lparr>di_frame_id = k, di_appended = a, di_disposed = d\<rparr>)) Q"
  shows "runs (store_at view entries t1)
    (app_bind (app_each (\<lambda>e. case compressed_event_sn e of
         None \<Rightarrow> app_fail AppPanic
       | Some event_sn \<Rightarrow> update_frame_id_by_sn D event_sn k) (sorted_list_of_set S)) (\<lambda>_.
     app_bind (parent_layers D L p) (\<lambda>states_parents.
     case delta_to_parent states_parents S of (appended, disposed) \<Rightarrow>
     app_bind (save states_parents appended disposed) (\<lambda>_.
     app_return \<lparr>di_frame_id = k, di_appended = appended, di_disposed = disposed\<rparr>)))) Q"
proof (rule runs_bind)
  let ?u = "\<lambda>e. case compressed_event_sn e of None \<Rightarrow> app_fail AppPanic | Some event_sn \<Rightarrow> update_frame_id_by_sn D event_sn k"
  let ?M = "\<lambda>res st. store_at view entries t1 st \<and> res \<noteq> Inl AppPanic"
  have step: "runs (store_at view entries t1) (?u e) ?M" if "e \<in> S" for e
  proof -
    from S that obtain sn where "compressed_event_sn e = Some sn" using compressed_event_sn_ok by (auto simp: compressed_ok_def)
    with update_at(3) show ?thesis by simp
  qed
  have "runs (store_at view entries t1) (app_each ?u es) ?M" if "set es \<subseteq> S" for es
    using that
  proof (induction es)
    case (Cons e es)
    show ?case unfolding app_each.simps
      by (rule runs_bind[OF step]) (use Cons in \<open>auto elim: runs_conseq\<close>)
  qed auto
  with S show "runs (store_at view entries t1) (app_each ?u (sorted_list_of_set S)) ?M" by (auto simp: compressed_ok_def)
  fix x :: unit
  have "runs (store_at view entries t1) (app_bind (parent_layers D L p) (\<lambda>states_parents.
     case delta_to_parent states_parents S of (appended, disposed) \<Rightarrow>
     app_bind (save states_parents appended disposed) (\<lambda>_.
     app_return \<lparr>di_frame_id = k, di_appended = appended, di_disposed = disposed\<rparr>))) Q"
  proof (rule runs_bind[OF parent_layers_at[OF t1(1), of p]])
    fix ps
    obtain a d where ad: "delta_to_parent ps S = (a, d)" by fastforce
    have "runs (store_at view entries t1)
        (app_bind (save ps a d) (\<lambda>_. app_return \<lparr>di_frame_id = k, di_appended = a, di_disposed = d\<rparr>)) Q"
      if l: "layers_of (t_deltas t1) p ps"
    proof -
      note dok = delta_to_parent_ok[OF ad layers_of_ok[OF t1(1) l] S]
      from t1(2)[OF l p] p have "base_of ps = {} \<or> prev_state t (t_rooms t r) (base_of ps)"
        by (auto simp: prev_state_def)
      with dok have "delta_reported t r S \<lparr>di_frame_id = k, di_appended = a, di_disposed = d\<rparr>"
        unfolding delta_reported_def by auto
      with save[OF l dok] show ?thesis .
    qed
    then show "runs (\<lambda>st. store_at view entries t1 st \<and> Inr ps \<noteq> Inl AppPanic \<and> (\<forall>ps'. Inr ps = Inr ps' \<longrightarrow> layers_of (t_deltas t1) p ps'))
        (case delta_to_parent ps S of (appended, disposed) \<Rightarrow>
         app_bind (save ps appended disposed) (\<lambda>_.
         app_return \<lparr>di_frame_id = k, di_appended = appended, di_disposed = disposed\<rparr>)) Q"
      by (simp add: ad runs_fact)
  qed (use err in auto)
  then show "runs (?M (Inr x)) (app_bind (parent_layers D L p) (\<lambda>states_parents.
     case delta_to_parent states_parents S of (appended, disposed) \<Rightarrow>
     app_bind (save states_parents appended disposed) (\<lambda>_.
     app_return \<lparr>di_frame_id = k, di_appended = appended, di_disposed = disposed\<rparr>))) Q" by simp
qed (use err in auto)

end

context state_store
begin

lemma save_state_at:
  assumes t: "tables_ok t" "frames_hashed H t" and H: "inj H" and S: "compressed_ok S"
    and rooms: "ran (t_rooms t) \<subseteq> ran (t_frames t)"
  shows "runs (store_at view entries t) (save_state H D L r S)
    (\<lambda>res st. \<exists>t'. store_at view entries t' st \<and> state_saved H r S t (map_ok di_frame_id res) t'
       \<and> (\<forall>di. res = Inr di \<longrightarrow> delta_reported t r S di))"
    (is "runs _ _ ?Q")
proof -
  let ?h = "state_hash H S"
  let ?rest = "\<lambda>p k existed.
     if Some k = p then app_return \<lparr>di_frame_id = k, di_appended = {}, di_disposed = {}\<rparr>
     else app_bind (app_each (\<lambda>e. case compressed_event_sn e of
           None \<Rightarrow> app_fail AppPanic
         | Some event_sn \<Rightarrow> update_frame_id_by_sn D event_sn k) (sorted_list_of_set S)) (\<lambda>_.
       app_bind (parent_layers D L p) (\<lambda>states_parents.
       case delta_to_parent states_parents S of (appended, disposed) \<Rightarrow>
       app_bind (if existed then app_return ()
          else calc_and_save_state_delta D r k appended disposed 2 states_parents) (\<lambda>_.
       app_return \<lparr>di_frame_id = k, di_appended = appended, di_disposed = disposed\<rparr>)))"
  have same: "?Q (Inl x) st" if "store_at view entries t st" "x \<noteq> AppPanic" for x st
    using that t by (auto simp: state_saved_def)
  have found: "runs (store_at view entries t) (?rest p k True) ?Q"
    if k: "t_frames t (r, ?h) = Some k" and p: "p = None \<or> p = t_rooms t r" for p k
  proof (cases "Some k = p")
    case True
    with p have "t_rooms t r = Some k" by auto
    with True found_state[OF t H S k] show ?thesis by (auto simp: delta_reported_def)
  next
    case False
    have q: "?Q (Inr \<lparr>di_frame_id = k, di_appended = a, di_disposed = d\<rparr>) st"
      if "store_at view entries t st" "delta_reported t r S \<lparr>di_frame_id = k, di_appended = a, di_disposed = d\<rparr>" for a d st
      using that found_state[OF t H S k] by auto
    show ?thesis unfolding if_not_P[OF False]
      by (rule save_state_rest_at[OF S t(1) _ p])
        (use same layers_of_state q in \<open>auto simp: app_bind_def app_lift_def runs_def\<close>)
  qed
  have create: "runs (store_at view entries (t\<lparr>t_frames := (t_frames t)((r, ?h) \<mapsto> k)\<rparr>)) (?rest p k False) ?Q"
    if k: "t_frames t (r, ?h) = None" "k \<notin> ran (t_frames t)" and p: "p = None \<or> p = t_rooms t r" for p k
  proof -
    have np: "Some k \<noteq> p" using k(2) p rooms ranI[of "t_rooms t" r k] by auto
    let ?t1 = "t\<lparr>t_frames := (t_frames t)((r, ?h) \<mapsto> k)\<rparr>"
    note n = new_frame[OF t(1,2) k]
    have ps: "prev_state t q (base_of ps)" if "layers_of (t_deltas ?t1) q ps" for q ps
      using that layers_of_state[of t] by simp
    show ?thesis unfolding if_not_P[OF np] if_False
    proof (rule save_state_rest_at[OF S n(1) ps p])
      fix ps a d
      assume l: "layers_of (t_deltas ?t1) p ps" and d: "diff_ok (base_of ps) a d" "apply_diff (base_of ps) a d = S"
        and rep: "delta_reported t r S \<lparr>di_frame_id = k, di_appended = a, di_disposed = d\<rparr>"
      from l have l': "layers_of (t_deltas t) p ps" by simp
      show "runs (store_at view entries ?t1) (app_bind (calc_and_save_state_delta D r k a d 2 ps)
          (\<lambda>_. app_return \<lparr>di_frame_id = k, di_appended = a, di_disposed = d\<rparr>)) ?Q"
        by (rule runs_bind[OF save_new_at[OF t k l' d(1), where fs = "t_fields t", simplified]])
          (use rep in \<open>auto simp: d(2) intro: state_saved_exI\<close>)
    qed (use n in \<open>auto simp: state_saved_def\<close>)
  qed
  show ?thesis
    unfolding save_state_def state_hash_def[symmetric] Let_def
  proof (rule runs_bind_result[where M = "\<lambda>res st. store_at view entries t st \<and> (\<forall>f. res = Inr f \<longrightarrow> t_rooms t r = Some f)"])
    show "runs (store_at view entries t) (get_room_frame_id D r None)
      (\<lambda>res st. res \<noteq> Inl AppPanic \<and> store_at view entries t st \<and> (\<forall>f. res = Inr f \<longrightarrow> t_rooms t r = Some f))"
      by (rule runs_conseq[OF room_frame_at]) auto
    fix prev :: "app_error + int"
    let ?p = "ok_opt prev"
    let ?frame = "\<lambda>found. case found of
       Inl _ \<Rightarrow> app_bind (ensure_frame D r ?h) (\<lambda>frame_id. app_return (frame_id, False))
     | Inr frame_id \<Rightarrow> app_return (frame_id, True)"
    have "runs (store_at view entries t) (app_bind (app_result (get_frame_id D r ?h)) (\<lambda>found.
        app_bind (?frame found) (\<lambda>(k, existed). ?rest ?p k existed))) ?Q" if p: "?p = None \<or> ?p = t_rooms t r"
    proof (rule runs_bind_result[where M = "\<lambda>res st. store_at view entries t st \<and> (\<forall>f. res = Inr f \<longrightarrow> t_frames t (r, ?h) = Some f)"])
      show "runs (store_at view entries t) (get_frame_id D r ?h)
        (\<lambda>res st. res \<noteq> Inl AppPanic \<and> store_at view entries t st \<and> (\<forall>f. res = Inr f \<longrightarrow> t_frames t (r, ?h) = Some f))"
        by (rule runs_conseq[OF frame_id_at]) auto
      fix found :: "app_error + int"
      show "runs (\<lambda>st. store_at view entries t st \<and> (\<forall>f. found = Inr f \<longrightarrow> t_frames t (r, ?h) = Some f))
          (app_bind (?frame found) (\<lambda>(k, existed). ?rest ?p k existed)) ?Q"
      proof (cases found)
        case (Inr k)
        have "runs (store_at view entries t) (app_bind (app_return (k, True)) (\<lambda>(k, existed). ?rest ?p k existed)) ?Q"
          if "t_frames t (r, ?h) = Some k"
          using found[OF that p] unfolding app_bind_def app_lift_def by simp
        with Inr show ?thesis by (simp add: runs_fact)
      next
        case (Inl e)
        have "runs (store_at view entries t) (app_bind (app_bind (ensure_frame D r ?h) (\<lambda>frame_id. app_return (frame_id, False)))
            (\<lambda>(k, existed). ?rest ?p k existed)) ?Q"
          unfolding app_bind_assoc app_bind_return prod.case
          by (rule runs_bind[OF ensure_frame_at], unfold sum.case, intro runs_fact(2), rule create[OF _ _ p], assumption+)
            (use same in simp)
        with Inl show ?thesis by simp
      qed
    qed
    moreover have "(\<forall>f. prev = Inr f \<longrightarrow> t_rooms t r = Some f) \<longleftrightarrow> (?p = None \<or> ?p = t_rooms t r)" by (cases prev) auto
    ultimately show "runs (\<lambda>st. store_at view entries t st \<and> (\<forall>f. prev = Inr f \<longrightarrow> t_rooms t r = Some f))
      (app_bind (app_result (get_frame_id D r ?h)) (\<lambda>found.
        app_bind (?frame found) (\<lambda>(k, existed). ?rest ?p k existed))) ?Q" by (simp add: runs_fact)
  qed
qed

end

text \<open>A state has at most one event per field; a new event of a field takes the place of the old one.\<close>

definition fields_unique :: "compressed_state \<Rightarrow> bool" where
  "fields_unique S \<longleftrightarrow> (\<forall>e\<in>S. \<forall>e'\<in>S. take 8 e = take 8 e' \<longrightarrow> e = e')"

definition replace_field :: "int \<Rightarrow> int \<Rightarrow> compressed_state \<Rightarrow> compressed_state" where
  "replace_field i sn S = insert (compressed_new i sn) {e \<in> S. take 8 e \<noteq> to_be_bytes i}"

lemma fields_unique_replace: "fields_unique S \<Longrightarrow> fields_unique (replace_field i sn S)"
  unfolding fields_unique_def replace_field_def compressed_new_def by auto

lemma find_field:
  assumes "finite S" "fields_unique S" "find (\<lambda>e. take 8 e = to_be_bytes i) (sorted_list_of_set S) = found"
  shows "set_option found = {e \<in> S. take 8 e = to_be_bytes i}"
proof (cases found)
  case None
  from assms(3)[unfolded None find_None_iff] assms(1) have "\<forall>e\<in>S. take 8 e \<noteq> to_be_bytes i" by simp
  then show ?thesis unfolding None by simp
next
  case (Some e)
  from assms(3)[unfolded Some] obtain j where j: "j < length (sorted_list_of_set S)" "e = sorted_list_of_set S ! j" "take 8 e = to_be_bytes i"
    unfolding find_Some_iff by blast
  have "e \<in> S" using nth_mem[OF j(1)] assms(1) unfolding j(2) by simp
  have "x = e" if "x \<in> S" "take 8 x = to_be_bytes i" for x
    using assms(2) that \<open>e \<in> S\<close> j(3) unfolding fields_unique_def by metis
  with \<open>e \<in> S\<close> j(3) have "{x \<in> S. take 8 x = to_be_bytes i} = {e}" by blast
  then show ?thesis unfolding Some by simp
qed

lemma replace_field_cases:
  assumes "compressed_ok S" "fields_unique S" "find (\<lambda>e. take 8 e = to_be_bytes i) (sorted_list_of_set S) = found"
  shows "found = Some (compressed_new i sn) \<Longrightarrow> replace_field i sn S = S"
    and "found \<noteq> Some (compressed_new i sn) \<Longrightarrow> diff_ok S {compressed_new i sn} (set_option found)"
    and "found \<noteq> Some (compressed_new i sn) \<Longrightarrow> apply_diff S {compressed_new i sn} (set_option found) = replace_field i sn S"
proof -
  note f = find_field[OF _ assms(2,3)]
  have fin: "finite S" using assms(1) by (simp add: compressed_ok_def)
  note f = f[OF fin]
  have pre: "take 8 (compressed_new i sn) = to_be_bytes i" "length (compressed_new i sn) = 16" by (simp_all add: compressed_new_def)
  show "replace_field i sn S = S" if "found = Some (compressed_new i sn)"
    using f that by (auto simp: replace_field_def)
  assume n: "found \<noteq> Some (compressed_new i sn)"
  have ns: "compressed_new i sn \<notin> S"
  proof
    assume "compressed_new i sn \<in> S"
    then have "compressed_new i sn \<in> set_option found" using f pre by simp
    with n show False by simp
  qed
  show "diff_ok S {compressed_new i sn} (set_option found)" using f ns pre assms(1) by (auto simp: diff_ok_def)
  show "apply_diff S {compressed_new i sn} (set_option found) = replace_field i sn S"
    unfolding f apply_diff_def replace_field_def using ns by auto
qed

definition appended_states :: "sn_pdu \<Rightarrow> tables \<Rightarrow> int option \<Rightarrow> compressed_state set" where
  "appended_states pdu t p = {S. prev_state t p S} \<union> {replace_field i (sn_event_sn pdu) S |i S. prev_state t p S}"

definition appended ::
  "(string \<Rightarrow> string) \<Rightarrow> sn_pdu \<Rightarrow> int option \<Rightarrow> tables \<Rightarrow> app_error + int \<Rightarrow> tables \<Rightarrow> bool" where
  "appended H pdu p t res t' \<longleftrightarrow> extends t t' \<and> tables_ok t' \<and> frames_hashed H t' \<and> res \<noteq> Inl AppPanic
     \<and> new_states t t' (appended_states pdu t p)
     \<and> (\<forall>k. res = Inr k \<longrightarrow> (frames_complete t \<longrightarrow> frames_complete t')
          \<and> (ev_state_key pdu = None \<longrightarrow> p = Some k)
          \<and> (\<forall>key. ev_state_key pdu = Some key \<longrightarrow>
               (\<exists>S i. prev_state t p S \<and> t_fields t' (ev_type pdu, key) = Some i
                  \<and> frame_state t' k (replace_field i (sn_event_sn pdu) S))))"

lemma appended_errI:
  "extends t t' \<Longrightarrow> tables_ok t' \<Longrightarrow> frames_hashed H t' \<Longrightarrow> new_states t t' (appended_states pdu t p) \<Longrightarrow> e \<noteq> AppPanic
     \<Longrightarrow> appended H pdu p t (Inl e) t'"
  by (simp add: appended_def)

lemma appended_exI:
  "store_at view entries t' st \<Longrightarrow> appended H pdu p t res t' \<Longrightarrow> \<exists>t'. store_at view entries t' st \<and> appended H pdu p t res t'"
  by blast

context state_store
begin

text \<open>The part of \<open>append_to_state\<close> for a state event, after the state before it is recorded.\<close>

lemma append_state_event_at:
  assumes t: "tables_ok t" "frames_hashed H t" and ext: "extends t0 t"
    and p: "layers_of (t_deltas t0) p ps" "fields_unique (base_of ps)" and key: "ev_state_key pdu = Some key"
    and complete: "frames_complete t0 \<longrightarrow> frames_complete t" and new: "new_states t0 t (appended_states pdu t0 p)"
  shows "runs (store_at view entries t)
    (app_bind (ensure_field D (ev_type pdu) key) (\<lambda>field_id.
     let new_compressed_event = compressed_new field_id (sn_event_sn pdu);
         replaces = find (\<lambda>e. take 8 e = to_be_bytes field_id) (sorted_list_of_set (base_of ps)) in
     if replaces = Some new_compressed_event then app_lift (ok_or MatrixInvalidParam p)
     else
       app_bind (ensure_frame D (ev_room_id pdu) (hash_keys H [new_compressed_event])) (\<lambda>frame_id.
       app_bind (update_frame_id D (ev_id pdu) frame_id) (\<lambda>_.
       app_bind (calc_and_save_state_delta D (ev_room_id pdu) frame_id {new_compressed_event}
           (set_option replaces) 2 ps) (\<lambda>_.
       app_return frame_id)))))
    (\<lambda>res st. \<exists>t'. store_at view entries t' st \<and> appended H pdu p t0 res t')" (is "runs _ _ ?Q")
proof (rule runs_bind[OF ensure_field_at])
  fix i
  let ?new = "compressed_new i (sn_event_sn pdu)" and ?S = "base_of ps" and ?r = "ev_room_id pdu"
  let ?found = "find (\<lambda>e. take 8 e = to_be_bytes i) (sorted_list_of_set (base_of ps))"
  have l: "layers_of (t_deltas t) p ps" using layers_of_mono[OF p(1) ext] .
  note ok = layers_of_ok[OF t(1) l]
  note rep = replace_field_cases[OF ok p(2) refl, of i "sn_event_sn pdu"]
  note prev = layers_of_state[OF p(1)]
  have hash: "hash_keys H [?new] = state_hash H {?new}" by (simp add: state_hash_def)
  have "runs (store_at view entries (t\<lparr>t_fields := fs\<rparr>))
     (if ?found = Some ?new then app_lift (ok_or MatrixInvalidParam p)
     else
       app_bind (ensure_frame D ?r (hash_keys H [?new])) (\<lambda>frame_id.
       app_bind (update_frame_id D (ev_id pdu) frame_id) (\<lambda>_.
       app_bind (calc_and_save_state_delta D ?r frame_id {?new} (set_option ?found) 2 ps) (\<lambda>_.
       app_return frame_id)))) ?Q" if fs: "t_fields t \<subseteq>\<^sub>m fs" "fs (ev_type pdu, key) = Some i" for fs
  proof (cases "?found = Some ?new")
    case True
    let ?t = "t\<lparr>t_fields := fs\<rparr>"
    have e: "extends t0 ?t" using extends_trans[OF ext] fs(1) by simp
    have nw: "new_states t0 ?t (appended_states pdu t0 p)" by (rule new_states_trans[OF new]) simp
    have "prev_state ?t p (replace_field i (sn_event_sn pdu) ?S)"
      using layers_of_state[OF layers_of_mono[OF p(1) e]] rep(1)[OF True] by simp
    then have "frame_state ?t k (replace_field i (sn_event_sn pdu) ?S)" if "p = Some k" for k
      using that by (simp add: prev_state_def)
    with e t prev fs(2) key complete nw have "appended H pdu p t0 (ok_or MatrixInvalidParam p) ?t"
      unfolding appended_def by (cases p) auto
    with True show ?thesis by (auto intro!: exI[of _ ?t])
  next
    case False
    let ?t = "t\<lparr>t_fields := fs\<rparr>"
    have ts: "tables_ok ?t" "frames_hashed H ?t" using t by simp_all
    have e: "extends t0 ?t" using extends_trans[OF ext] fs(1) by simp
    have nw: "new_states t0 ?t (appended_states pdu t0 p)" by (rule new_states_trans[OF new]) simp
    have err: "?Q (Inl x) st" if "store_at view entries ?t st" "x \<noteq> AppPanic" for x st
      using appended_errI[OF e ts(1,2) nw that(2)] that(1) by blast
    have "?new \<in> replace_field i (sn_event_sn pdu) ?S" by (simp add: replace_field_def)
    with rep(3)[OF False] hash have h: "hash_keys H [?new] = state_hash H (apply_diff ?S {?new} (set_option ?found))
        \<or> (\<exists>e\<in>apply_diff ?S {?new} (set_option ?found). hash_keys H [?new] = state_hash H {e})" by auto
    show ?thesis unfolding if_not_P[OF False]
    proof (rule runs_bind[OF ensure_frame_at], unfold sum.case, intro runs_fact(2))
      fix k
      let ?t1 = "?t\<lparr>t_frames := (t_frames ?t)((?r, hash_keys H [?new]) \<mapsto> k)\<rparr>"
      assume k: "t_frames ?t (?r, hash_keys H [?new]) = None" "k \<notin> ran (t_frames ?t)"
      have l2: "layers_of (t_deltas ?t) p ps" using l by simp
      note n = new_frame[OF ts(1,2) k]
      have err1: "?Q (Inl x) st" if "store_at view entries ?t1 st" "x \<noteq> AppPanic" for x st
        using appended_errI[OF extends_trans[OF e n(3)] n(1,2) new_states_trans[OF nw n(5)] that(2)] that(1) by blast
      have sub: "{replace_field i (sn_event_sn pdu) ?S} \<subseteq> appended_states pdu t0 p"
        using prev by (auto simp: appended_states_def)
      note nst = new_states_trans[OF nw new_states_mono[OF _ sub]]
      have fin: "appended H pdu p t0 (Inr k) t'" if "extends ?t t'" "tables_ok t'" "frames_hashed H t'"
        "new_states ?t t' {replace_field i (sn_event_sn pdu) ?S}"
        "frames_complete ?t \<longrightarrow> frames_complete t'" "t_fields t' = fs" "frame_state t' k (replace_field i (sn_event_sn pdu) ?S)" for t'
        using that extends_trans[OF e that(1)] nst[OF that(4)] prev fs(2) key complete unfolding appended_def by auto
      have "runs (store_at view entries (?t\<lparr>t_frames := (t_frames ?t)((?r, hash_keys H [?new]) \<mapsto> k), t_fields := fs\<rparr>))
          (app_bind (calc_and_save_state_delta D ?r k {?new} (set_option ?found) 2 ps) (\<lambda>_. app_return k)) ?Q"
      proof (rule runs_bind[OF save_new_at[OF ts k l2 rep(2)[OF False] h, where fs = fs, unfolded rep(3)[OF False]]])
        show "runs (\<lambda>st. \<exists>t'. store_at view entries t' st \<and> extends ?t t' \<and> tables_ok t' \<and> frames_hashed H t'
            \<and> new_states ?t t' {replace_field i (sn_event_sn pdu) ?S}
            \<and> (case Inr x of
                 Inl e \<Rightarrow> e \<noteq> AppPanic
               | Inr _ \<Rightarrow> (frames_complete ?t \<longrightarrow> frames_complete t') \<and> t_frames t' (?r, hash_keys H [?new]) = Some k \<and> t_fields t' = fs
                   \<and> frame_state t' k (replace_field i (sn_event_sn pdu) ?S))) (app_return k) ?Q" for x :: unit
          unfolding sum.case using fin by blast
      qed (use appended_errI[OF extends_trans[OF e] _ _ nst] in auto)
      moreover have eq: "?t\<lparr>t_frames := (t_frames ?t)((?r, hash_keys H [?new]) \<mapsto> k), t_fields := fs\<rparr> = ?t1" by simp
      ultimately have "runs (store_at view entries ?t1)
          (app_bind (calc_and_save_state_delta D ?r k {?new} (set_option ?found) 2 ps) (\<lambda>_. app_return k)) ?Q"
        by (simp only: eq)
      then show "runs (store_at view entries ?t1) (app_bind (update_frame_id D (ev_id pdu) k) (\<lambda>_.
          app_bind (calc_and_save_state_delta D ?r k {?new} (set_option ?found) 2 ps) (\<lambda>_. app_return k))) ?Q"
        by (intro runs_bind[OF update_at(1)]) (use err1 in auto)
    qed (use err in simp)
  qed
  then show "runs (\<lambda>st. \<exists>fs. store_at view entries (t\<lparr>t_fields := fs\<rparr>) st \<and> t_fields t \<subseteq>\<^sub>m fs \<and> Inr i \<noteq> Inl AppPanic
        \<and> (\<forall>j. Inr i = Inr j \<longrightarrow> fs (ev_type pdu, key) = Some j))
      (let new_compressed_event = ?new; replaces = ?found in
       if replaces = Some new_compressed_event then app_lift (ok_or MatrixInvalidParam p)
       else
         app_bind (ensure_frame D ?r (hash_keys H [new_compressed_event])) (\<lambda>frame_id.
         app_bind (update_frame_id D (ev_id pdu) frame_id) (\<lambda>_.
         app_bind (calc_and_save_state_delta D ?r frame_id {new_compressed_event} (set_option replaces) 2 ps) (\<lambda>_.
         app_return frame_id)))) ?Q"
    unfolding Let_def by (intro runs_exists runs_fact(1)) auto
next
  fix e st
  assume "\<exists>fs. store_at view entries (t\<lparr>t_fields := fs\<rparr>) st \<and> t_fields t \<subseteq>\<^sub>m fs \<and> Inl e \<noteq> Inl AppPanic
      \<and> (\<forall>j. Inl e = Inr j \<longrightarrow> fs (ev_type pdu, key) = Some j)"
  then obtain fs where fs: "store_at view entries (t\<lparr>t_fields := fs\<rparr>) st" "t_fields t \<subseteq>\<^sub>m fs" "e \<noteq> AppPanic" by auto
  have "appended H pdu p t0 (Inl e) (t\<lparr>t_fields := fs\<rparr>)"
    by (rule appended_errI) (use t fs(2,3) extends_trans[OF ext] new_states_trans[OF new] in simp_all)
  with fs(1) show "?Q (Inl e) st" by blast
qed

end

context state_store
begin

lemma append_after_at:
  assumes t: "tables_ok t" "frames_hashed H t" and H: "inj H"
    and u: "\<And>S. prev_state t p S \<Longrightarrow> fields_unique S"
  shows "runs (store_at view entries t) (append_after H D L pdu p)
    (\<lambda>res st. \<exists>t'. store_at view entries t' st \<and> appended H pdu p t res t')" (is "runs _ _ ?Q")
  unfolding append_after_def
proof (rule runs_bind[OF parent_layers_at[OF t(1)]])
  fix ps
  have sb: "(if ps = [] then {} else fi_full_state (last ps)) = base_of ps" by (simp add: base_of_def)
  let ?before = "\<lambda>before. case before of
       Inl e \<Rightarrow> if is_not_found e
         then app_bind (set_event_state_before H D L (ev_id pdu) (ev_room_id pdu) (base_of ps)) (\<lambda>_. app_return ())
         else app_fail e
     | Inr _ \<Rightarrow> app_return ()"
  let ?rest = "case ev_state_key pdu of
       None \<Rightarrow>
         app_bind (app_lift (ok_or MatrixInvalidParam p)) (\<lambda>frame_id.
         app_bind (update_frame_id D (ev_id pdu) frame_id) (\<lambda>_. app_return frame_id))
     | Some state_key \<Rightarrow>
         app_bind (ensure_field D (ev_type pdu) state_key) (\<lambda>field_id.
         let new_compressed_event = compressed_new field_id (sn_event_sn pdu);
             replaces = find (\<lambda>e. take 8 e = to_be_bytes field_id) (sorted_list_of_set (base_of ps)) in
         if replaces = Some new_compressed_event then app_lift (ok_or MatrixInvalidParam p)
         else
           app_bind (ensure_frame D (ev_room_id pdu) (hash_keys H [new_compressed_event])) (\<lambda>frame_id.
           app_bind (update_frame_id D (ev_id pdu) frame_id) (\<lambda>_.
           app_bind (calc_and_save_state_delta D (ev_room_id pdu) frame_id {new_compressed_event}
               (set_option replaces) 2 ps) (\<lambda>_. app_return frame_id))))"
  let ?M = "\<lambda>res st. \<exists>t1. store_at view entries t1 st \<and> extends t t1 \<and> tables_ok t1 \<and> frames_hashed H t1
      \<and> new_states t t1 (appended_states pdu t p) \<and> res \<noteq> Inl AppPanic \<and> (\<forall>x. res = Inr x \<longrightarrow> frames_complete t \<longrightarrow> frames_complete t1)"
  have main: "runs (store_at view entries t) (app_bind (app_result (get_pdu_before_frame_id D (ev_id pdu)))
      (\<lambda>before. app_bind (?before before) (\<lambda>_. ?rest))) ?Q" if l: "layers_of (t_deltas t) p ps"
  proof (rule runs_bind_result[where M = "\<lambda>res st. store_at view entries t st \<and> res \<noteq> Inl AppPanic"])
    show "runs (store_at view entries t) (get_pdu_before_frame_id D (ev_id pdu))
        (\<lambda>res st. res \<noteq> Inl AppPanic \<and> store_at view entries t st \<and> res \<noteq> Inl AppPanic)"
      by (rule runs_conseq[OF pdu_before_frame_at]) auto
    fix before
    note ok = layers_of_ok[OF t(1) l]
    have before_sub: "{base_of ps} \<subseteq> appended_states pdu t p" using layers_of_state[OF l] by (simp add: appended_states_def)
    have set_before: "runs (store_at view entries t)
        (app_bind (set_event_state_before H D L (ev_id pdu) (ev_room_id pdu) (base_of ps)) (\<lambda>_. app_return ())) ?M"
      by (rule runs_bind[OF set_event_state_before_at[OF t H ok]])
        (auto simp: state_saved_def intro: new_states_mono[OF _ before_sub])
    have b: "runs (\<lambda>st. store_at view entries t st \<and> before \<noteq> Inl AppPanic) (?before before) ?M"
    proof (cases before)
      case (Inl e)
      with set_before t show ?thesis by (auto intro!: runs_fact(1))
    next
      case (Inr k)
      with t show ?thesis by auto
    qed
    have r: "runs (store_at view entries t1) ?rest ?Q"
      if t1: "extends t t1" "tables_ok t1" "frames_hashed H t1" "frames_complete t \<longrightarrow> frames_complete t1"
        "new_states t t1 (appended_states pdu t p)" for t1
    proof (cases "ev_state_key pdu")
      case (Some key)
      from append_state_event_at[OF t1(2,3,1) l u[OF layers_of_state[OF l]] Some t1(4,5)] show ?thesis by (simp add: Some)
    next
      case None
      show ?thesis
      proof (cases p)
        case None
        with t1 have "appended H pdu p t (Inl MatrixInvalidParam) t1" by (intro appended_errI) simp_all
        with None \<open>ev_state_key pdu = None\<close> show ?thesis
          by (auto simp: app_bind_def app_lift_def runs_def)
      next
        case (Some k)
        have "appended H pdu p t (Inr k) t1" using t1 Some \<open>ev_state_key pdu = None\<close> by (simp add: appended_def)
        moreover have "appended H pdu p t (Inl e) t1" if "e \<noteq> AppPanic" for e using t1 that by (intro appended_errI)
        ultimately have "runs (store_at view entries t1) (app_bind (update_frame_id D (ev_id pdu) k) (\<lambda>_. app_return k)) ?Q"
          by (intro runs_bind[OF update_at(1)]) auto
        with Some \<open>ev_state_key pdu = None\<close> show ?thesis by simp
      qed
    qed
    show "runs (\<lambda>st. store_at view entries t st \<and> before \<noteq> Inl AppPanic) (app_bind (?before before) (\<lambda>_. ?rest)) ?Q"
    proof (rule runs_bind[OF b])
      show "runs (?M (Inr x)) ?rest ?Q" for x :: unit
        by (intro runs_exists runs_fact(1)) (use r in blast)
      show "?Q (Inl e) st" if "?M (Inl e) st" for e st using that appended_errI by blast
    qed
  qed
  show "runs (\<lambda>st. store_at view entries t st \<and> Inr ps \<noteq> Inl AppPanic \<and> (\<forall>ps'. Inr ps = Inr ps' \<longrightarrow> layers_of (t_deltas t) p ps'))
      (let state_before = if ps = [] then {} else fi_full_state (last ps) in
       app_bind (app_result (get_pdu_before_frame_id D (ev_id pdu))) (\<lambda>before.
       app_bind (case before of
            Inr _ \<Rightarrow> app_return ()
          | Inl e \<Rightarrow>
              if is_not_found e
              then app_bind (set_event_state_before H D L (ev_id pdu) (ev_room_id pdu) state_before) (\<lambda>_. app_return ())
              else app_fail e) (\<lambda>_.
       case ev_state_key pdu of
         Some state_key \<Rightarrow>
           app_bind (ensure_field D (ev_type pdu) state_key) (\<lambda>field_id.
           let new_compressed_event = compressed_new field_id (sn_event_sn pdu);
               replaces = find (\<lambda>e. take 8 e = to_be_bytes field_id) (sorted_list_of_set state_before) in
           if replaces = Some new_compressed_event then app_lift (ok_or MatrixInvalidParam p)
           else
             app_bind (ensure_frame D (ev_room_id pdu) (hash_keys H [new_compressed_event])) (\<lambda>frame_id.
             app_bind (update_frame_id D (ev_id pdu) frame_id) (\<lambda>_.
             app_bind (calc_and_save_state_delta D (ev_room_id pdu) frame_id {new_compressed_event}
                 (set_option replaces) 2 ps) (\<lambda>_.
             app_return frame_id))))
       | None \<Rightarrow>
           app_bind (app_lift (ok_or MatrixInvalidParam p)) (\<lambda>frame_id.
           app_bind (update_frame_id D (ev_id pdu) frame_id) (\<lambda>_.
           app_return frame_id))))) ?Q"
    unfolding sb Let_def[of "base_of ps"] by (intro runs_fact(1)) (use main in blast)
next
  show "?Q (Inl e) st" if "store_at view entries t st \<and> Inl e \<noteq> Inl AppPanic
      \<and> (\<forall>ps. Inl e = Inr ps \<longrightarrow> layers_of (t_deltas t) p ps)" for e st
    using that t appended_errI[OF extends_refl t new_states_refl, of e] by auto
qed

text \<open>Loading the layers of a frame.\<close>

lemma load_frame_info_result:
  assumes "store_at view entries t st" "tables_ok t" "load_frame_info D L k st = res"
  shows "\<exists>r st'. res = Some (r, st') \<and> store_at view entries t st' \<and> r \<noteq> Inl AppPanic
    \<and> (\<forall>info. r = Inr info \<longrightarrow> frame_chain (t_deltas t) k info)"
proof -
  from load_at[OF assms(2), of k] assms(1) obtain r st' where "load_frame_info D L k st = Some (r, st')"
    "store_at view entries t st' \<and> r \<noteq> Inl AppPanic \<and> (\<forall>info. r = Inr info \<longrightarrow> frame_chain (t_deltas t) k info)"
    by (rule runsE)
  with assms(3) show ?thesis by auto
qed

end

end
