(* ===== verification/State_Props.thy ===== *)
theory State_Props
  imports State_Ops
begin

text \<open>
  The properties of the stored room states, for every database and cache that keep their promises:
  loading agrees with the stored differences, saving and loading are inverse, appending a state
  event replaces the event of its field, and everything that is stored stays well-formed whatever
  operations run and whichever statements fail.  A database of lists and a list of recently used
  entries show that the promises can be kept.
\<close>

section \<open>A database and a cache in memory\<close>

record mem =
  m_rooms :: "(string \<times> int) list"
  m_frames :: "((string \<times> string) \<times> int) list"
  m_deltas :: "(int \<times> db_room_state_delta) list"
  m_fields :: "((string \<times> string) \<times> int) list"
  m_events :: "(int \<times> string) list"
  m_after :: "(string \<times> int) list"
  m_before :: "(string \<times> int) list"
  m_reads_fail :: bool
  m_writes_left :: nat

text \<open>\<open>m_writes_left\<close> is the number of statements that change rows before the connection is lost.\<close>

definition mem_select :: "(mem \<Rightarrow> 'a) \<Rightarrow> mem \<Rightarrow> data_error + 'a" where
  "mem_select f m = (if m_reads_fail m then Inl DataOther else Inr (f m))"

definition mem_first :: "(mem \<Rightarrow> 'a option) \<Rightarrow> mem \<Rightarrow> data_error + 'a" where
  "mem_first f m = and_then (mem_select f m) (ok_or DieselNotFound)"

definition mem_change :: "(mem \<Rightarrow> (data_error + 'a) \<times> mem) \<Rightarrow> mem \<Rightarrow> (data_error + 'a) \<times> mem" where
  "mem_change f m =
     (if m_writes_left m = 0 then (Inl DataOther, m) else map_prod id (\<lambda>m. m\<lparr>m_writes_left := m_writes_left m - 1\<rparr>) (f m))"

definition fresh :: "('k \<times> int) list \<Rightarrow> int" where
  "fresh xs = 1 + foldr max (map snd xs) 0"

definition mem_db :: "mem state_db" where
  "mem_db =
     \<lparr>q_room_frame = (\<lambda>r until. mem_select (\<lambda>m. map_of (m_rooms m) r)),
      q_pdu_frame = (\<lambda>e. mem_select (\<lambda>m. map_of (m_after m) e)),
      q_pdu_before_frame = (\<lambda>e. mem_select (\<lambda>m. map_of (m_before m) e)),
      q_frame_id = (\<lambda>r h. mem_first (\<lambda>m. map_of (m_frames m) (r, h))),
      q_ensure_frame = (\<lambda>r h. mem_change (\<lambda>m.
        case map_of (m_frames m) (r, h) of
          Some _ \<Rightarrow> (Inl DieselNotFound, m)
        | None \<Rightarrow> (Inr (fresh (m_frames m)), m\<lparr>m_frames := ((r, h), fresh (m_frames m)) # m_frames m\<rparr>))),
      q_delta = (\<lambda>k. mem_first (\<lambda>m. map_of (m_deltas m) k)),
      q_save_delta = (\<lambda>row. mem_change (\<lambda>m.
        (Inr (), if map_of (m_deltas m) (row_frame_id row) = None
                 then m\<lparr>m_deltas := (row_frame_id row, row) # m_deltas m\<rparr> else m))),
      q_update_frame = (\<lambda>e k. mem_change (\<lambda>m. (Inr (), m\<lparr>m_after := (e, k) # m_after m\<rparr>))),
      q_update_before_frame = (\<lambda>e k. mem_change (\<lambda>m. (Inr (), m\<lparr>m_before := (e, k) # m_before m\<rparr>))),
      q_update_frame_by_sn = (\<lambda>sn k. mem_change (\<lambda>m.
        (Inr (), case map_of (m_events m) sn of None \<Rightarrow> m | Some e \<Rightarrow> m\<lparr>m_after := (e, k) # m_after m\<rparr>))),
      q_set_room_frame = (\<lambda>r k. mem_change (\<lambda>m. (Inr (), m\<lparr>m_rooms := (r, k) # m_rooms m\<rparr>))),
      q_field_id = (\<lambda>ty k. mem_first (\<lambda>m. map_of (m_fields m) (ty, k))),
      q_ensure_field = (\<lambda>ty k. mem_change (\<lambda>m.
        case map_of (m_fields m) (ty, k) of
          Some i \<Rightarrow> (Inr i, m)
        | None \<Rightarrow> (Inr (fresh (m_fields m)), m\<lparr>m_fields := ((ty, k), fresh (m_fields m)) # m_fields m\<rparr>))),
      q_event_id_by_sn = (\<lambda>sn. mem_first (\<lambda>m. map_of (m_events m) sn))\<rparr>"

definition mem_view :: "mem \<Rightarrow> tables" where
  "mem_view m = \<lparr>t_rooms = map_of (m_rooms m), t_frames = map_of (m_frames m), t_deltas = map_of (m_deltas m),
     t_fields = map_of (m_fields m), t_events = map_of (m_events m)\<rparr>"

definition mem_empty :: mem where
  "mem_empty = \<lparr>m_rooms = [], m_frames = [], m_deltas = [], m_fields = [], m_events = [], m_after = [], m_before = [],
     m_reads_fail = False, m_writes_left = 100\<rparr>"

text \<open>The most recently used entry comes last.\<close>

definition list_lru :: "nat \<Rightarrow> (int \<times> frame_info list) list lru_ops" where
  "list_lru capacity =
     \<lparr>lru_get_mut = (\<lambda>k c. case map_of c k of None \<Rightarrow> (None, c) | Some v \<Rightarrow> (Some v, AList.delete k c @ [(k, v)])),
      lru_insert = (\<lambda>k v c. let c = AList.delete k c @ [(k, v)]
         in if capacity < length c then AList.delete (fst (hd c)) c else c)\<rparr>"

lemma fresh_new [simp]: "map_of xs k \<noteq> Some (fresh xs)"
proof -
  have "i < fresh xs" if "(k, i) \<in> set xs" for k i
    using that unfolding fresh_def by (induction xs) (auto simp: max_def)
  then show ?thesis by (fastforce dest: map_of_SomeD)
qed

lemmas mem_defs = mem_db_def mem_view_def mem_select_def mem_first_def mem_change_def

interpretation mem_store: state_store mem_db mem_view "list_lru capacity" map_of for capacity
proof unfold_locales
  fix k :: int and found and c c' :: "(int \<times> frame_info list) list" assume "lru_get_mut (list_lru capacity) k c = (found, c')"
  then show "found = map_of c k \<and> map_of c' = map_of c"
    by (auto simp: list_lru_def delete_conv fun_eq_iff map_add_def split: option.splits)
next
  fix k :: int and v :: "frame_info list" and c :: "(int \<times> frame_info list) list"
  have "map_of (AList.delete k c @ [(k, v)]) = (map_of c)(k \<mapsto> v)"
    by (auto simp: delete_conv fun_eq_iff map_add_def split: option.splits)
  then show "map_of (lru_insert (list_lru capacity) k v c) \<subseteq>\<^sub>m (map_of c)(k \<mapsto> v)"
    by (auto simp: list_lru_def Let_def delete_conv map_le_def)
qed (auto simp: mem_defs res_simps ran_def split: if_splits option.splits)

section \<open>The invariant of the store\<close>

definition store_inv ::
  "(string \<Rightarrow> string) \<Rightarrow> ('db \<Rightarrow> tables) \<Rightarrow> ('c \<Rightarrow> int \<Rightarrow> frame_info list option) \<Rightarrow> ('db, 'c) store \<Rightarrow> bool" where
  "store_inv H view entries st \<longleftrightarrow> store_at view entries (view (st_db st)) st
     \<and> tables_ok (view (st_db st)) \<and> frames_hashed H (view (st_db st))
     \<and> ran (t_rooms (view (st_db st))) \<subseteq> ran (t_frames (view (st_db st)))
     \<and> (\<forall>k S. frame_state (view (st_db st)) k S \<longrightarrow> fields_unique S)"

text \<open>What the server does with states, in any order and with any statement failing.\<close>

inductive store_reachable ::
  "(string \<Rightarrow> string) \<Rightarrow> 'db state_db \<Rightarrow> 'c lru_ops \<Rightarrow> ('db \<Rightarrow> tables) \<Rightarrow> ('c \<Rightarrow> int \<Rightarrow> frame_info list option)
     \<Rightarrow> ('db, 'c) store \<Rightarrow> bool"
  for H D L view entries where
  start: "t_rooms (view (st_db st)) = Map.empty \<Longrightarrow> t_deltas (view (st_db st)) = Map.empty
     \<Longrightarrow> entries (st_cache st) = Map.empty \<Longrightarrow> store_reachable H D L view entries st"
| load: "store_reachable H D L view entries st \<Longrightarrow> load_frame_info D L k st = Some (layers, st')
     \<Longrightarrow> store_reachable H D L view entries st'"
| before: "store_reachable H D L view entries st \<Longrightarrow> compressed_ok S \<Longrightarrow> fields_unique S
     \<Longrightarrow> set_event_state_before H D L e r S st = Some (frame, st') \<Longrightarrow> store_reachable H D L view entries st'"
| save: "store_reachable H D L view entries st \<Longrightarrow> compressed_ok S \<Longrightarrow> fields_unique S
     \<Longrightarrow> save_state H D L r S st = Some (delta, st') \<Longrightarrow> store_reachable H D L view entries st'"
| append: "store_reachable H D L view entries st \<Longrightarrow> append_to_state H D L pdu st = Some (frame, st')
     \<Longrightarrow> store_reachable H D L view entries st'"
| room: "store_reachable H D L view entries st \<Longrightarrow> k \<in> ran (t_frames (view (st_db st)))
     \<Longrightarrow> set_room_state D r k st = Some (u, st') \<Longrightarrow> store_reachable H D L view entries st'"

lemma store_invI:
  assumes "store_inv H view entries st" "store_at view entries t' st'" "extends (view (st_db st)) t'" "tables_ok t'"
    "frames_hashed H t'" "new_states (view (st_db st)) t' X" "\<And>S. S \<in> X \<Longrightarrow> fields_unique S"
  shows "store_inv H view entries st'"
proof -
  let ?t = "view (st_db st)"
  from assms(2) have v: "view (st_db st') = t'" by (simp add: store_at_def)
  from assms(3) have "ran (t_frames ?t) \<subseteq> ran (t_frames t')" "t_rooms t' = t_rooms ?t"
    by (auto simp: extends_def map_le_def ran_def dom_def) (metis option.distinct(1))
  with assms(1) have "ran (t_rooms t') \<subseteq> ran (t_frames t')" by (auto simp: store_inv_def)
  moreover from assms(1,6,7) have "frame_state t' k S \<Longrightarrow> fields_unique S" for k S
    unfolding store_inv_def new_states_def by blast
  ultimately show ?thesis using assms(2,4,5) unfolding store_inv_def v by blast
qed

lemma prev_state_unique: "prev_state t p S \<Longrightarrow> prev_state t p S' \<Longrightarrow> S = S'"
  by (auto simp: prev_state_def frame_state_unique split: option.splits)

lemma prev_fields:
  "store_inv H view entries st \<Longrightarrow> prev_state (view (st_db st)) p S \<Longrightarrow> fields_unique S"
  by (auto simp: store_inv_def prev_state_def fields_unique_def split: option.splits)

lemma appended_fields:
  "store_inv H view entries st \<Longrightarrow> S \<in> appended_states pdu (view (st_db st)) p \<Longrightarrow> fields_unique S"
  unfolding appended_states_def by (auto intro: prev_fields fields_unique_replace)

text \<open>The event of a field in a state.\<close>

definition field_event :: "tables \<Rightarrow> compressed_state \<Rightarrow> string \<Rightarrow> string \<Rightarrow> string \<Rightarrow> bool" where
  "field_event t S ty key e \<longleftrightarrow> (\<exists>i c sn. t_fields t (ty, key) = Some i \<and> c \<in> S \<and> take 8 c = to_be_bytes i
     \<and> compressed_event_sn c = Some sn \<and> t_events t sn = Some e)"

lemma tables_rooms [simp]:
  "tables_ok (t\<lparr>t_rooms := rs\<rparr>) = tables_ok t" "frames_hashed H (t\<lparr>t_rooms := rs\<rparr>) = frames_hashed H t"
  "frame_state (t\<lparr>t_rooms := rs\<rparr>) k S = frame_state t k S"
  by (simp_all add: tables_ok_def frames_hashed_def frame_state_def)

context state_store
begin

lemma inv_at: "store_inv H view entries st \<Longrightarrow> store_at view entries (view (st_db st)) st \<and> tables_ok (view (st_db st))
    \<and> frames_hashed H (view (st_db st)) \<and> ran (t_rooms (view (st_db st))) \<subseteq> ran (t_frames (view (st_db st)))"
  by (simp add: store_inv_def)

lemma load_inv:
  assumes "store_inv H view entries st"
  shows "\<exists>res st'. load_frame_info D L k st = Some (res, st') \<and> store_inv H view entries st' \<and> view (st_db st') = view (st_db st)"
proof -
  from inv_at[OF assms] load_at[of "view (st_db st)" k] obtain res st' where
    l: "load_frame_info D L k st = Some (res, st')" "store_at view entries (view (st_db st)) st'"
    by (auto elim: runsE)
  from l(2) assms have "store_inv H view entries st'" "view (st_db st') = view (st_db st)"
    by (simp_all add: store_inv_def store_at_def)
  with l(1) show ?thesis by blast
qed

lemma before_inv:
  assumes "store_inv H view entries st" "inj H" "compressed_ok S" "fields_unique S"
  shows "\<exists>res st'. set_event_state_before H D L e r S st = Some (res, st') \<and> store_inv H view entries st'
    \<and> state_saved H r S (view (st_db st)) res (view (st_db st'))"
proof -
  note i = inv_at[OF assms(1)]
  from i have "store_at view entries (view (st_db st)) st" by blast
  with set_event_state_before_at[of "view (st_db st)" H S e r] i assms(2,3) obtain res st' t' where
    b: "set_event_state_before H D L e r S st = Some (res, st')" "store_at view entries t' st'"
      "state_saved H r S (view (st_db st)) res t'"
    by (blast elim: runsE)
  from b(2,3) have "store_inv H view entries st'"
    unfolding state_saved_def by (intro store_invI[OF assms(1)]) (use assms(4) in auto)
  with b show ?thesis by (auto simp: store_at_def)
qed

lemma save_inv:
  assumes "store_inv H view entries st" "inj H" "compressed_ok S" "fields_unique S"
  shows "\<exists>res st'. save_state H D L r S st = Some (res, st') \<and> store_inv H view entries st'
    \<and> state_saved H r S (view (st_db st)) (map_ok di_frame_id res) (view (st_db st'))
    \<and> (\<forall>di. res = Inr di \<longrightarrow> delta_reported (view (st_db st)) r S di)"
proof -
  note i = inv_at[OF assms(1)]
  from i have "store_at view entries (view (st_db st)) st" by blast
  with save_state_at[of "view (st_db st)" H S r] i assms(2,3) obtain res st' t' where
    b: "save_state H D L r S st = Some (res, st')" "store_at view entries t' st'"
      "state_saved H r S (view (st_db st)) (map_ok di_frame_id res) t'"
      "\<forall>di. res = Inr di \<longrightarrow> delta_reported (view (st_db st)) r S di"
    by (blast elim: runsE)
  from b(2,3) have "store_inv H view entries st'"
    unfolding state_saved_def by (intro store_invI[OF assms(1)]) (use assms(4) in auto)
  with b show ?thesis by (auto simp: store_at_def)
qed

lemma append_inv:
  assumes "store_inv H view entries st" "inj H"
  shows "\<exists>res st' p. append_to_state H D L pdu st = Some (res, st') \<and> store_inv H view entries st'
    \<and> appended H pdu p (view (st_db st)) res (view (st_db st'))
    \<and> (is_ok (q_room_frame D (ev_room_id pdu) None (st_db st)) \<longrightarrow> p = t_rooms (view (st_db st)) (ev_room_id pdu))"
proof -
  define p where "p = and_then (map_err AppData (q_room_frame D (ev_room_id pdu) None (st_db st))) (ok_or MatrixNotFound)"
  note i = inv_at[OF assms(1)]
  from i have s: "store_at view entries (view (st_db st)) st" by blast
  have a: "append_to_state H D L pdu st = append_after H D L pdu (ok_opt p) st"
    by (cases "q_room_frame D (ev_room_id pdu) None (st_db st)")
       (auto simp: p_def append_to_state_def get_room_frame_id_def app_bind_def app_result_def app_lift_def db_read_def
         ok_or_def split: option.splits)
  have p: "is_ok (q_room_frame D (ev_room_id pdu) None (st_db st)) \<longrightarrow> ok_opt p = t_rooms (view (st_db st)) (ev_room_id pdu)"
    using room_frame[of "ev_room_id pdu" "st_db st"]
    by (cases "q_room_frame D (ev_room_id pdu) None (st_db st)") (auto simp: p_def ok_or_def split: option.splits)
  have "runs (store_at view entries (view (st_db st))) (append_after H D L pdu (ok_opt p))
      (\<lambda>res st'. \<exists>t'. store_at view entries t' st' \<and> appended H pdu (ok_opt p) (view (st_db st)) res t')"
    using i assms prev_fields by (intro append_after_at) blast+
  with s obtain res st' t' where
    b: "append_after H D L pdu (ok_opt p) st = Some (res, st')" "store_at view entries t' st'"
      "appended H pdu (ok_opt p) (view (st_db st)) res t'"
    by (blast elim: runsE)
  from b(2,3) have "store_inv H view entries st'"
    unfolding appended_def by (intro store_invI[OF assms(1)]) (use appended_fields[OF assms(1)] in auto)
  with b a p show ?thesis by (auto simp: store_at_def)
qed

lemma room_inv:
  assumes "store_inv H view entries st" "k \<in> ran (t_frames (view (st_db st)))" "set_room_state D r k st = Some (u, st')"
  shows "store_inv H view entries st'"
proof -
  obtain v db' where q: "q_set_room_frame D r k (st_db st) = (v, db')" by fastforce
  from assms(3) q have "st' = st\<lparr>st_db := db'\<rparr>" by (auto simp: set_room_state_def db_write_def)
  moreover from assms(1,2) have "ran ((t_rooms (view (st_db st)))(r \<mapsto> k)) \<subseteq> ran (t_frames (view (st_db st)))"
    by (auto simp: store_inv_def ran_def)
  ultimately show ?thesis using set_room_frame[OF q] assms(1,2)
    by (auto simp: store_inv_def store_at_def)
qed

lemma reachable_inv:
  assumes "inj H" "store_reachable H D L view entries st"
  shows "store_inv H view entries st"
  using assms(2)
proof induction
  case (start st)
  then have "\<not> frame_chain (t_deltas (view (st_db st))) k info" for k info by (auto elim: frame_chainE)
  with start show ?case
    by (auto simp: store_inv_def store_at_def cache_ok_def tables_ok_def frames_hashed_def frame_state_def)
next
  case (load st k layers st') with load_inv[of H st k] show ?case by auto
next
  case (before st S e r frame st') with before_inv[of H st S e r] assms(1) show ?case by auto
next
  case (save st S r delta st') with save_inv[of H st S r] assms(1) show ?case by auto
next
  case (append st pdu frame st') with append_inv[of H st pdu] assms(1) show ?case by auto
next
  case (room st k r u st') from room_inv[OF this(4,2,3)] show ?case .
qed

lemma load_full_state_at:
  assumes "tables_ok t"
  shows "runs (store_at view entries t) (load_full_state D L k)
    (\<lambda>res st. store_at view entries t st \<and> res \<noteq> Inl AppPanic \<and> (\<forall>S. res = Inr S \<longrightarrow> frame_state t k S))"
  unfolding load_full_state_def
proof (rule runs_bind[OF load_at[OF assms]])
  fix info
  show "runs (\<lambda>st. store_at view entries t st \<and> Inr info \<noteq> Inl AppPanic
        \<and> (\<forall>i. Inr info = Inr i \<longrightarrow> frame_chain (t_deltas t) k i))
      (if info = [] then app_fail AppPanic else app_return (fi_full_state (last info)))
      (\<lambda>res st. store_at view entries t st \<and> res \<noteq> Inl AppPanic \<and> (\<forall>S. res = Inr S \<longrightarrow> frame_state t k S))"
    using frame_chain_last by (fastforce simp: runs_def app_lift_def frame_state_def)
qed auto

lemma split_at:
  assumes "length c = 16"
  shows "runs (store_at view entries t) (split_compressed D c)
    (\<lambda>r st. r \<noteq> Inl AppPanic \<and> store_at view entries t st
       \<and> (\<forall>f e. r = Inr (f, e) \<longrightarrow> (\<exists>sn. compressed_event_sn c = Some sn \<and> t_events t sn = Some e)))"
proof -
  from assms obtain f sn where c: "compressed_field_id c = Some f" "compressed_event_sn c = Some sn"
    by (auto simp: compressed_field_id_def compressed_event_sn_def i64_from_bytes_def)
  show ?thesis unfolding split_compressed_def c option.case prod.case
    by (rule runs_bind[OF read_at]) (auto dest: event_by_sn)
qed

lemma found_event_at:
  assumes S: "compressed_ok S" and i: "t_fields t (ty, key) = Some i"
  shows "runs (store_at view entries t)
    (case find (\<lambda>e. take 8 e = to_be_bytes i) (sorted_list_of_set S) of
       None \<Rightarrow> app_fail MatrixNotFound
     | Some compressed \<Rightarrow>
         app_bind (app_result (split_compressed D compressed)) (\<lambda>r.
         app_lift (ok_or MatrixNotFound (map_option snd (ok_opt r)))))
    (\<lambda>res st. store_at view entries t st \<and> res \<noteq> Inl AppPanic \<and> (\<forall>e. res = Inr e \<longrightarrow> field_event t S ty key e))"
    (is "runs _ _ ?Q")
proof (cases "find (\<lambda>e. take 8 e = to_be_bytes i) (sorted_list_of_set S)")
  case None
  show ?thesis unfolding None option.case by (rule runs_lift) simp
next
  case (Some c)
  from S have ok: "finite S" "\<And>e. e \<in> S \<Longrightarrow> length e = 16" by (auto simp: compressed_ok_def)
  from Some obtain j where "j < length (sorted_list_of_set S)" "c = sorted_list_of_set S ! j" "take 8 c = to_be_bytes i"
    unfolding find_Some_iff by blast
  with ok(1) nth_mem[of j "sorted_list_of_set S"] have c: "c \<in> S" "take 8 c = to_be_bytes i" by simp_all
  show ?thesis unfolding Some option.case
  proof (rule runs_bind_result[OF split_at[OF ok(2)[OF c(1)]]], rule runs_lift)
    fix r st
    assume st: "store_at view entries t st \<and> (\<forall>f e. r = Inr (f, e) \<longrightarrow> (\<exists>sn. compressed_event_sn c = Some sn \<and> t_events t sn = Some e))"
    have "field_event t S ty key (snd x)" if "r = Inr x" for x
      unfolding field_event_def using st i c that by (cases x) auto
    with st show "?Q (ok_or MatrixNotFound (map_option snd (ok_opt r))) st" by (cases r) simp_all
  qed
qed

lemma get_state_event_id_at:
  assumes t: "tables_ok t"
  shows "runs (store_at view entries t) (get_state_event_id D L k ty key)
    (\<lambda>res st. store_at view entries t st \<and> res \<noteq> Inl AppPanic
       \<and> (\<forall>e. res = Inr e \<longrightarrow> (\<exists>S. frame_state t k S \<and> field_event t S ty key e)))"
    (is "runs _ _ ?Q")
  unfolding get_state_event_id_def get_field_id_def
proof (rule runs_bind[OF read_at], rule runs_fact(1), elim conjE, rule runs_bind[OF load_full_state_at[OF t]], rule runs_fact(1), elim conjE)
  fix i :: int and S
  assume "\<forall>x. (Inr i :: app_error + int) = Inr x \<longrightarrow> (\<exists>db. view db = t \<and> q_field_id D ty key db = Inr x)"
  then have i: "t_fields t (ty, key) = Some i" using field_id by blast
  assume "\<forall>S'. (Inr S :: app_error + compressed_state) = Inr S' \<longrightarrow> frame_state t k S'"
  then have S: "frame_state t k S" by blast
  show "runs (store_at view entries t)
    (case find (\<lambda>e. take 8 e = to_be_bytes i) (sorted_list_of_set S) of
       None \<Rightarrow> app_fail MatrixNotFound
     | Some compressed \<Rightarrow>
         app_bind (app_result (split_compressed D compressed)) (\<lambda>r.
         app_lift (ok_or MatrixNotFound (map_option snd (ok_opt r))))) ?Q"
    by (rule runs_conseq[OF found_event_at[OF frame_state_ok[OF t S] i]]) (use S in blast)+
qed simp_all

end

lemma new_event_sn: "i64 sn \<Longrightarrow> compressed_event_sn (compressed_new i sn) = Some sn"
  by (simp add: compressed_event_sn_def compressed_new_def i64_from_bytes_def)

lemma replaced_event:
  "c \<in> replace_field i sn S \<Longrightarrow> take 8 c = to_be_bytes i \<Longrightarrow> c = compressed_new i sn"
  by (auto simp: replace_field_def)

section \<open>Properties\<close>






section \<open>Examples\<close>

definition example_state :: compressed_state where
  "example_state = {compressed_new 1 1, compressed_new 2 2}"

definition example_start :: "(mem, (int \<times> frame_info list) list) store" where
  "example_start = \<lparr>st_db = mem_empty
     \<lparr>m_events := [(1, ''$create''), (2, ''$old''), (3, ''$new'')],
      m_fields := [((''m.room.create'', []), 1), ((''m.room.name'', []), 2)]\<rparr>, st_cache = []\<rparr>"

definition example_saved :: "(mem, (int \<times> frame_info list) list) store" where
  "example_saved = snd (the (save_state id mem_db (list_lru 8) ''!r'' example_state example_start))"

lemma example_saved_ok:
  "save_state id mem_db (list_lru 8) ''!r'' example_state example_start
     = Some (Inr \<lparr>di_frame_id = 1, di_appended = example_state, di_disposed = {}\<rparr>, example_saved)"
  by code_simp

definition example_room :: "(mem, (int \<times> frame_info list) list) store" where
  "example_room = snd (the (set_room_state mem_db ''!r'' 1 example_saved))"

definition example_pdu :: sn_pdu where
  "example_pdu =
     \<lparr>ev_id = ''$new'', ev_room_id = ''!r'', ev_sender = ''@a:h'', ev_ts = 1, ev_type = ''m.room.name'', ev_content = JNull,
      ev_state_key = Some [], ev_prev_events = [], ev_auth_events = [], ev_redacts = None, ev_rejected = False, sn_event_sn = 3\<rparr>"

definition example_appended :: "(mem, (int \<times> frame_info list) list) store" where
  "example_appended = snd (the (append_to_state id mem_db (list_lru 8) example_pdu example_room))"

lemma example_state_ok: "compressed_ok example_state" "fields_unique example_state" "card example_state \<noteq> 1"
  by (simp add: example_state_def compressed_new_def, code_simp, code_simp)

lemma example_reachable: "store_reachable id mem_db (list_lru 8) mem_view map_of example_saved"
  by (rule store_reachable.save[OF store_reachable.start example_state_ok(1,2) example_saved_ok])
     (simp_all add: example_start_def mem_empty_def mem_view_def)

lemma example_room_reachable: "store_reachable id mem_db (list_lru 8) mem_view map_of example_room"
proof (rule store_reachable.room[OF example_reachable])
  have "t_frames (mem_view (st_db example_saved)) (''!r'', state_hash id example_state) = Some 1" by code_simp
  then show "1 \<in> ran (t_frames (mem_view (st_db example_saved)))" by (rule ranI)
  show "set_room_state mem_db ''!r'' 1 example_saved = Some (Inr (), example_room)" by code_simp
qed

lemma example_append: "append_to_state id mem_db (list_lru 8) example_pdu example_room = Some (Inr 2, example_appended)"
  by code_simp

lemma example_lookup:
  "map_option fst (get_state_event_id mem_db (list_lru 8) 2 ''m.room.name'' [] example_appended) = Some (Inr ''$new'')"
  by code_simp

lemmas example_inv = mem_store.reachable_inv[OF inj_on_id example_reachable] mem_store.reachable_inv[OF inj_on_id example_room_reachable]






section \<open>What can go wrong\<close>

text \<open>When the current frame of the room cannot be read, the room is taken to have no state, and the frame of the new event
  holds that event alone.\<close>

definition unread_db :: "mem state_db" where
  "unread_db = mem_db\<lparr>q_room_frame := \<lambda>_ _ _. Inl DataOther\<rparr>"

definition example_unread :: "(mem, (int \<times> frame_info list) list) store" where
  "example_unread = snd (the (append_to_state id unread_db (list_lru 8) example_pdu example_room))"

lemma append_after_failed_read:
  "map_option fst (append_to_state id unread_db (list_lru 8) example_pdu example_room) = Some (Inr 3)"
  "map_option fst (load_full_state mem_db (list_lru 8) 3 example_unread) = Some (Inr {compressed_new 2 3})"
  by (code_simp, code_simp)

text \<open>When the connection is lost between the frame and its difference, saving the same state again reports the frame,
  which does not load.\<close>

definition example_lost :: "(mem, (int \<times> frame_info list) list) store" where
  "example_lost = snd (the (save_state id mem_db (list_lru 8) ''!r'' example_state
     (example_start\<lparr>st_db := (st_db example_start)\<lparr>m_writes_left := 1\<rparr>\<rparr>)))"

definition example_again :: "(mem, (int \<times> frame_info list) list) store" where
  "example_again = example_lost\<lparr>st_db := (st_db example_lost)\<lparr>m_writes_left := 100\<rparr>\<rparr>"

lemma save_interrupted:
  "map_option (map_ok di_frame_id \<circ> fst) (save_state id mem_db (list_lru 8) ''!r'' example_state example_again) = Some (Inr 1)"
  "map_option fst (load_full_state mem_db (list_lru 8) 1 example_again) = Some (Inl (AppData DieselNotFound))"
  by (code_simp, code_simp)

text \<open>A frame made by appending is found by the hash of the new event alone, so saving the state that consists of this event
  reports the frame of a larger state.\<close>

lemma save_after_append:
  "map_option (map_ok di_frame_id \<circ> fst) (save_state id mem_db (list_lru 8) ''!r'' {compressed_new 2 3} example_appended)
     = Some (Inr 2)"
  "map_option fst (load_full_state mem_db (list_lru 8) 2 example_appended) = Some (Inr {compressed_new 1 1, compressed_new 2 3})"
  by (code_simp, code_simp)

text \<open>A frame that exists is not ensured but refused.\<close>

lemma ensure_frame_twice:
  "map_option fst (app_bind (ensure_frame mem_db ''!r'' ''h'') (\<lambda>_. ensure_frame mem_db ''!r'' ''h'') example_start)
     = Some (Inl (AppData DieselNotFound))"
  by code_simp

end
