(* ===== verification/Spec2Isabelle.thy ===== *)
theory Spec2Isabelle
  imports State_Res Signatures Push_Ruleset State_Props
begin

text \<open>
  A verification library for the Matrix homeserver palpo (\<open>src/\<close>).

  \<^bold>\<open>The program.\<close>  A room is a graph of events signed by servers.  When an event arrives its identifiers
  are checked (\<open>crates/identifiers-validation\<close>), its hashes and signatures are verified on its
  redacted, canonical JSON (\<open>crates/core/src/signatures\<close>, \<open>serde/canonical_json\<close>), and the
  authorization rules of the room version decide whether it is allowed (\<open>core/src/state/event_auth.rs\<close>).
  Where the graph has several ends, state resolution merges their states (\<open>core/src/state.rs\<close>).  The
  server stores the states of rooms as layers of differences in its database
  (\<open>crates/server/src/room/state\<close>), and push rules decide whom an event notifies
  (\<open>core/src/push\<close>).

  \<^bold>\<open>Conventions.\<close>  Strings are lists of bytes; a \<open>Result\<close> is a sum with the error on the left; a panic is a
  value of the error type (\<open>Panic\<close>, \<open>StatePanic\<close>, \<open>SigPanic\<close>, \<open>AppPanic\<close>); a call that may not return
  is an option, with \<open>None\<close> for not returning.  Structs are records and enums are datatypes.  Integers
  are \<open>int\<close> with the ranges of \<open>i64\<close> and of canonical JSON written out where the code depends on them,
  and narrowing to \<open>u8\<close> is modelled as such.

  \<^bold>\<open>The theories.\<close>
  \<^item> \<open>Prelude\<close>: results, their combinators and the collections of simplification rules.
  \<^item> \<open>Rust_Std\<close>, \<open>BTree_Map\<close>, \<open>Json\<close>: what the code uses of the standard library and of serde.  Maps are
    used through the locale \<open>ordered_map\<close>.
  \<^item> \<open>Identifiers\<close>, \<open>Room_Versions\<close>: one validator per kind of identifier, the accessors, and the rules of
    the room versions (\<open>room_version_rules.rs\<close>).  Shown: which strings are server names and user
    identifiers, and the byte bounds of key identifiers.
  \<^item> \<open>Canonical_Json\<close>, \<open>Redaction\<close>, \<open>Signatures\<close>: values, serializer and checks, the redaction algorithm,
    content and reference hashes, signing and verification.  Shown: canonical form, which keys stay,
    idempotence, soundness of verification, and that what is signed verifies.
  \<^item> \<open>Power_Levels\<close>, \<open>Events\<close>, \<open>Power_Levels_Event\<close>: contents and their readers; the lazily filled caches are
    transparent.
  \<^item> \<open>Room_Member_Auth\<close>, \<open>Event_Auth\<close>: the authorization rules, for every event type.  Shown: what an allowed
    join, invite, removal, power levels change or other event satisfies, and that the selected auth
    events decide.
  \<^item> \<open>Kahn_Sort\<close>, \<open>Auth_Graph\<close>, \<open>Mainline\<close>, \<open>Conflicts\<close>, \<open>State_Res\<close>: the two orderings, the auth difference,
    the iterative auth checks and \<open>resolve\<close>.  Shown: the orderings are the specified ones, resolution
    ends, does not depend on hash map order, keeps what all states agree on and adds only
    authorised events.  \<open>Example_Room\<close> is the room of the witnesses.
  \<^item> \<open>Push_Match\<close>, \<open>Push_Flatten\<close>, \<open>Push_Condition\<close>, \<open>Push_Rules\<close>, \<open>Push_Ruleset\<close>: text matching, flattened
    events, conditions, actions, predefined rules and rule sets.  Shown: the invariant of rule
    sets, positions of insertion, that the first applying rule is taken, and that a refresh keeps
    the user's choices.
  \<^item> \<open>App_Monad\<close>, \<open>Compressed_State\<close>, \<open>State_Store\<close>, \<open>State_Ops\<close>, \<open>State_Props\<close>: stored room states.  A call
    takes the database and the cache and gives back its result and both of them; \<open>runs P m Q\<close> is
    total correctness.  Shown: loading agrees with the stored differences whatever is cached,
    saving and loading are inverse, appending replaces the event of a field, and the invariant of
    the tables over all sequences of operations and failing statements.

  \<^bold>\<open>Interfaces.\<close>  The laws that one part promises another are locales, interpreted on the model:
  \<open>ordered_map\<close> on the B-tree maps, \<open>delimited_id\<close> on user identifiers and room aliases, \<open>field_fn\<close> on the
  redaction rules, \<open>authorised_steps\<close> on the iterative auth check.  \<open>index_set\<close> states the documented behaviour of
  the crate \<open>indexmap\<close>; \<open>state_tables\<close> that of the SQL statements on the state tables and \<open>lru\<close> that of the
  crate \<open>lru_cache\<close>, both joined in \<open>state_store\<close>.  These three are interpreted on list
  implementations, so that their laws are seen to be satisfiable.

  \<^bold>\<open>Parameters.\<close>  Code outside the repository is an argument: SHA-256 (injective where a theorem says so), the
  Ed25519 library, Base64, the crates \<open>wildmatch\<close> and \<open>regex\<close>, Unicode tables, the order of iteration
  of hash maps, and the statements the database executes.  A statement may fail at any time.

  \<^bold>\<open>Loops and bounds.\<close>  There is no fuel.  Loops with a measure are total functions.  \<open>populate_mainline\<close>,
  \<open>mainline_position\<close> and \<open>load_frame_info\<close> follow links in data that could form a cycle; they are partial
  functions, and it is proved that they return when the auth events form no cycle, and for every
  frame of a reachable store.  Stored states have at most four layers, as the code intends.

  \<^bold>\<open>Not modelled.\<close>
  \<^item> The crate \<open>data\<close> (diesel queries and the schema): each function is one SQL statement, whose meaning is
    that of PostgreSQL.  The statements on the state tables are parameters with laws.
  \<^item> Of \<open>server/src/room/state.rs\<close>: \<open>force_state\<close> and the membership, visibility and invite queries, which chain database
    reads with membership updates.
  \<^item> The rest of the crate \<open>server\<close>: HTTP routing, synchronisation, federation and its senders, media,
    administration, configuration, user and device management.  This code combines database
    reads, the clock, the network and global caches; what it computes is what the statements return.
  \<^item> The request, response and event content types of \<open>core\<close> (\<open>client\<close>, \<open>federation\<close>, \<open>events\<close> and so on): data
    with derived serialization.  The macros of \<open>core-macros\<close> and \<open>server-macros\<close> run at compile time.
  \<^item> HTML sanitising, endpoint metadata, \<open>matrix.to\<close> and \<open>matrix:\<close> links and HTTP header types.
  \<^item> Concurrency: a call of the state store runs to its end before the next one starts;
    calls that interleave at their database statements are not described.
\<close>

end
